(* ===== verification/Cam_Prelude.thy ===== *)
theory Cam_Prelude
  imports Main "HOL-Library.Word" "HOL-Library.Monad_Syntax"
begin

text \<open>
  Shared vocabulary of the development: C integers and truncating division, byte memories
  whose accesses fault (value None) outside the allocated range, the counted for-loop of C
  with its invariant rule, and little-endian stores of 32-bit values.
  A C \<open>int\<close> of the camera file is an unbounded \<open>int\<close>: sizes and offsets that would leave the 32-bit
  range are not wrapped. \<open>int32_ok\<close> states the range where a lemma needs it.
\<close>

unbundle bit_operations_syntax

type_synonym byte = "8 word"
type_synonym mem = "byte list"

named_theorems mem_simps "defining equations of the memory accessors"

subsection \<open>C arithmetic\<close>

text \<open>Division of C rounds towards zero.\<close>

definition cdiv :: "int \<Rightarrow> int \<Rightarrow> int" where
  "cdiv a b = sgn a * sgn b * (\<bar>a\<bar> div \<bar>b\<bar>)"

lemma cdiv_nonneg [simp]: "0 \<le> a \<Longrightarrow> 0 < b \<Longrightarrow> cdiv a b = a div b"
  by (cases "a = 0") (simp_all add: cdiv_def)

definition int32_ok :: "int \<Rightarrow> bool" where
  "int32_ok x \<longleftrightarrow> - (2 ^ 31) \<le> x \<and> x < 2 ^ 31"

subsection \<open>Memory\<close>

definition rd :: "'a list \<Rightarrow> int \<Rightarrow> 'a option" where
  [mem_simps]: "rd xs i = (if 0 \<le> i \<and> i < int (length xs) then Some (xs ! nat i) else None)"

definition wr :: "'a list \<Rightarrow> int \<Rightarrow> 'a \<Rightarrow> 'a list option" where
  [mem_simps]: "wr xs i v =
     (if 0 \<le> i \<and> i < int (length xs) then Some (xs[nat i := v]) else None)"

definition memcpy :: "'a list \<Rightarrow> int \<Rightarrow> 'a list \<Rightarrow> int \<Rightarrow> int \<Rightarrow> 'a list option" where
  [mem_simps]: "memcpy dst d src s n =
     (if 0 \<le> d \<and> 0 \<le> s \<and> 0 \<le> n \<and> d + n \<le> int (length dst) \<and> s + n \<le> int (length src)
      then Some (take (nat d) dst @ take (nat n) (drop (nat s) src) @ drop (nat (d + n)) dst)
      else None)"

text \<open>Store of a 32-bit value at byte offset \<open>4 * i\<close>, little-endian as every Android ABI.\<close>

definition le_bytes :: "32 word \<Rightarrow> byte list" where
  "le_bytes v = [ucast v, ucast (drop_bit 8 v), ucast (drop_bit 16 v), ucast (drop_bit 24 v)]"

definition wr32 :: "mem \<Rightarrow> int \<Rightarrow> 32 word \<Rightarrow> mem option" where
  "wr32 m i v = memcpy m (4 * i) (le_bytes v) 0 4"

lemma rd_Some [simp]: "0 \<le> i \<Longrightarrow> i < int (length xs) \<Longrightarrow> rd xs i = Some (xs ! nat i)"
  by (simp add: rd_def)

lemma wr_Some [simp]: "0 \<le> i \<Longrightarrow> i < int (length xs) \<Longrightarrow> wr xs i v = Some (xs[nat i := v])"
  by (simp add: wr_def)

lemma rd_nat: "i = int k \<Longrightarrow> k < length xs \<Longrightarrow> rd xs i = Some (xs ! k)"
  by simp

lemma wr_nat: "i = int k \<Longrightarrow> k < length xs \<Longrightarrow> wr xs i v = Some (xs[k := v])"
  by simp

lemma rd_SomeD: "rd xs i = Some v \<Longrightarrow> 0 \<le> i \<and> i < int (length xs) \<and> v = xs ! nat i"
  by (simp add: rd_def split: if_splits)

lemma wr_length: "wr xs i v = Some ys \<Longrightarrow> length ys = length xs"
  by (auto simp: wr_def split: if_splits)

lemma memcpy_length: "memcpy dst d src s n = Some r \<Longrightarrow> length r = length dst"
  by (auto simp: memcpy_def split: if_splits)

lemma splice_nth:
  "d + n \<le> length dst \<Longrightarrow> s + n \<le> length src \<Longrightarrow> k < length dst \<Longrightarrow>
   (take d dst @ take n (drop s src) @ drop (d + n) dst) ! k =
     (if k < d then dst ! k else if k < d + n then src ! (s + (k - d)) else dst ! k)"
proof -
  assume *: "d + n \<le> length dst" "s + n \<le> length src" "k < length dst"
  have "length (take d dst) = d" "length (take n (drop s src)) = n" using * by auto
  with * show ?thesis by (auto simp: nth_append simp del: length_take)
qed

lemma memcpy_nth:
  assumes "memcpy dst d src s n = Some r" and "k < length dst"
  shows "r ! k = (if d \<le> int k \<and> int k < d + n then src ! nat (s + (int k - d)) else dst ! k)"
proof -
  have *: "0 \<le> d" "0 \<le> s" "0 \<le> n" "d + n \<le> int (length dst)" "s + n \<le> int (length src)"
    "r = take (nat d) dst @ take (nat n) (drop (nat s) src) @ drop (nat d + nat n) dst"
    using assms(1) by (auto simp: memcpy_def nat_add_distrib split: if_splits)
  have "r ! k = (if k < nat d then dst ! k
      else if k < nat d + nat n then src ! (nat s + (k - nat d)) else dst ! k)"
    unfolding *(6) by (rule splice_nth) (use * assms(2) in auto)
  moreover have "nat (s + (int k - d)) = nat s + (k - nat d)" if "nat d \<le> k"
    using * that by auto
  ultimately show ?thesis using * by auto
qed

lemma memcpy_append:
  assumes "d = int (length xs)" "n = int k" "s = int p" "k \<le> length ys" "p + k \<le> length src"
  shows "memcpy (xs @ ys) d src s n = Some (xs @ take k (drop p src) @ drop k ys)"
proof -
  have "nat (d + n) = length xs + k" using assms by (simp add: nat_add_distrib)
  then show ?thesis using assms by (simp add: memcpy_def)
qed

lemma memcpy_SomeD: "memcpy dst d src s n = Some r \<Longrightarrow> 0 \<le> s \<and> 0 \<le> n \<and> s + n \<le> int (length src)
    \<and> 0 \<le> d \<and> d + n \<le> int (length dst)"
  by (simp add: memcpy_def split: if_splits)

lemma le_bytes_length [simp]: "length (le_bytes v) = 4"
  by (simp add: le_bytes_def)

lemma wr32_append:
  assumes "4 * i = int (length xs)" "4 \<le> length ys"
  shows "wr32 (xs @ ys) i v = Some (xs @ le_bytes v @ drop 4 ys)"
proof -
  have "memcpy (xs @ ys) (4 * i) (le_bytes v) 0 4 = Some (xs @ take 4 (drop 0 (le_bytes v)) @ drop 4 ys)"
    by (rule memcpy_append) (use assms in simp_all)
  then show ?thesis by (simp add: wr32_def)
qed

lemma length_concat_const:
  "(\<And>x. x \<in> set xs \<Longrightarrow> length (f x) = n) \<Longrightarrow> length (concat (map f xs)) = length xs * n"
  by (induction xs) auto

lemma memcpy_defined:
  "0 \<le> d \<Longrightarrow> 0 \<le> s \<Longrightarrow> 0 \<le> n \<Longrightarrow> d + n \<le> int (length dst) \<Longrightarrow> s + n \<le> int (length src)
   \<Longrightarrow> \<exists>r. memcpy dst d src s n = Some r"
  by (simp add: memcpy_def)

subsection \<open>The counted loop\<close>

text \<open>\<open>for (i = a; i < b; i++) s = f i s\<close>, a fault of the body stops the loop.\<close>

function for_loop :: "int \<Rightarrow> int \<Rightarrow> (int \<Rightarrow> 's \<Rightarrow> 's option) \<Rightarrow> 's \<Rightarrow> 's option" where
  "for_loop a b f s =
     (if a < b then (case f a s of None \<Rightarrow> None | Some s' \<Rightarrow> for_loop (a + 1) b f s') else Some s)"
  by pat_completeness auto
termination
  by (relation "measure (\<lambda>(a, b, f, s). nat (b - a))") auto

declare for_loop.simps [simp del]

lemma for_loop_done [simp]: "b \<le> a \<Longrightarrow> for_loop a b f s = Some s"
  by (simp add: for_loop.simps)

lemma for_loop_step: "a < b \<Longrightarrow> for_loop a b f s = Option.bind (f a s) (for_loop (a + 1) b f)"
  by (subst for_loop.simps) (simp split: option.split)

text \<open>The invariant rule: no fault, and the invariant holds at the exit index.\<close>

lemma for_loop_rule:
  assumes "a \<le> b" and "I a s"
    and "\<And>i s. a \<le> i \<Longrightarrow> i < b \<Longrightarrow> I i s \<Longrightarrow> \<exists>s'. f i s = Some s' \<and> I (i + 1) s'"
  shows "\<exists>s'. for_loop a b f s = Some s' \<and> I b s'"
  using assms
proof (induction a b f s rule: for_loop.induct)
  case (1 a b f s)
  show ?case
  proof (cases "a < b")
    case True
    with "1.prems" obtain s' where s': "f a s = Some s'" "I (a + 1) s'" by blast
    have "\<exists>t. for_loop (a + 1) b f s' = Some t \<and> I b t"
      using True "1.prems"(3) s' by (intro "1.IH") auto
    with True s' show ?thesis by (simp add: for_loop_step)
  next
    case False
    with "1.prems" show ?thesis by simp
  qed
qed

text \<open>The partial rule: if the loop returns, an indexed invariant of the body holds at the exit.\<close>

lemma for_loop_partial:
  assumes "for_loop a b f s = Some t" and "a \<le> b" and "I a s"
    and "\<And>i s s'. a \<le> i \<Longrightarrow> i < b \<Longrightarrow> I i s \<Longrightarrow> f i s = Some s' \<Longrightarrow> I (i + 1) s'"
  shows "I b t"
  using assms
proof (induction a b f s rule: for_loop.induct)
  case (1 a b f s)
  show ?case
  proof (cases "a < b")
    case True
    with "1.prems" obtain s' where s': "f a s = Some s'" "for_loop (a + 1) b f s' = Some t"
      by (auto simp: for_loop_step Option.bind_eq_Some_conv)
    show ?thesis
    proof (rule "1.IH" [OF True s'(1) s'(2)])
      show "a + 1 \<le> b" using True by simp
      show "I (a + 1) s'" using "1.prems"(4) [OF _ True "1.prems"(3) s'(1)] by simp
      show "I (i + 1) v" if "a + 1 \<le> i" "i < b" "I i u" "f i u = Some v" for i u v
        using "1.prems"(4) [OF _ that(2-4)] that(1) by simp
    qed
  next
    case False
    with "1.prems" show ?thesis by simp
  qed
qed

text \<open>A loop is the composition of its two halves.\<close>

lemma for_loop_split:
  assumes "a \<le> c" "c \<le> b"
  shows "for_loop a b f s = Option.bind (for_loop a c f s) (for_loop c b f)"
  using assms
proof (induction a c f s rule: for_loop.induct)
  case (1 a c f s)
  show ?case
  proof (cases "a < c")
    case True
    with "1" show ?thesis by (cases "f a s") (simp_all add: for_loop_step)
  next
    case False
    with "1.prems" show ?thesis by simp
  qed
qed

end
