(* ===== verification/Native_Window.thy ===== *)
theory Native_Window
  imports Cam_Prelude
begin

text \<open>
  The window interface that the camera draws into: the pixel formats and transforms of
  \<open>system/graphics.h\<close>, the usage bits of \<open>hardware/gralloc.h\<close>, and from
  \<open>system/window.h\<close> the magic numbers, the operation codes, the structures
  \<open>ANativeWindowBuffer\<close> and \<open>ANativeWindow\<close> with their constructors, and the inline
  helpers that turn a request into a call of the \<open>perform\<close> hook. The hooks are function
  pointers that a window implementation fills in; they are fields of the record and act on an
  abstract state \<open>'s\<close>.
\<close>

subsection \<open>Pixel formats and transforms\<close>

datatype hal_pixel_format =
    HAL_PIXEL_FORMAT_RGBA_8888 | HAL_PIXEL_FORMAT_RGBX_8888 | HAL_PIXEL_FORMAT_RGB_888
  | HAL_PIXEL_FORMAT_RGB_565 | HAL_PIXEL_FORMAT_BGRA_8888 | HAL_PIXEL_FORMAT_RGBA_5551
  | HAL_PIXEL_FORMAT_RGBA_4444 | HAL_PIXEL_FORMAT_sRGB_A_8888 | HAL_PIXEL_FORMAT_sRGB_X_8888
  | HAL_PIXEL_FORMAT_YV12 | HAL_PIXEL_FORMAT_Y8 | HAL_PIXEL_FORMAT_Y16
  | HAL_PIXEL_FORMAT_RAW_SENSOR | HAL_PIXEL_FORMAT_BLOB | HAL_PIXEL_FORMAT_IMPLEMENTATION_DEFINED
  | HAL_PIXEL_FORMAT_YCbCr_420_888 | HAL_PIXEL_FORMAT_YCbCr_422_SP
  | HAL_PIXEL_FORMAT_YCrCb_420_SP | HAL_PIXEL_FORMAT_YCbCr_422_I

fun hal_pixel_format_value :: "hal_pixel_format \<Rightarrow> int" where
  "hal_pixel_format_value HAL_PIXEL_FORMAT_RGBA_8888 = 1"
| "hal_pixel_format_value HAL_PIXEL_FORMAT_RGBX_8888 = 2"
| "hal_pixel_format_value HAL_PIXEL_FORMAT_RGB_888 = 3"
| "hal_pixel_format_value HAL_PIXEL_FORMAT_RGB_565 = 4"
| "hal_pixel_format_value HAL_PIXEL_FORMAT_BGRA_8888 = 5"
| "hal_pixel_format_value HAL_PIXEL_FORMAT_RGBA_5551 = 6"
| "hal_pixel_format_value HAL_PIXEL_FORMAT_RGBA_4444 = 7"
| "hal_pixel_format_value HAL_PIXEL_FORMAT_sRGB_A_8888 = 0xC"
| "hal_pixel_format_value HAL_PIXEL_FORMAT_sRGB_X_8888 = 0xD"
| "hal_pixel_format_value HAL_PIXEL_FORMAT_YV12 = 0x32315659"
| "hal_pixel_format_value HAL_PIXEL_FORMAT_Y8 = 0x20203859"
| "hal_pixel_format_value HAL_PIXEL_FORMAT_Y16 = 0x20363159"
| "hal_pixel_format_value HAL_PIXEL_FORMAT_RAW_SENSOR = 0x20"
| "hal_pixel_format_value HAL_PIXEL_FORMAT_BLOB = 0x21"
| "hal_pixel_format_value HAL_PIXEL_FORMAT_IMPLEMENTATION_DEFINED = 0x22"
| "hal_pixel_format_value HAL_PIXEL_FORMAT_YCbCr_420_888 = 0x23"
| "hal_pixel_format_value HAL_PIXEL_FORMAT_YCbCr_422_SP = 0x10"
| "hal_pixel_format_value HAL_PIXEL_FORMAT_YCrCb_420_SP = 0x11"
| "hal_pixel_format_value HAL_PIXEL_FORMAT_YCbCr_422_I = 0x14"

text \<open>The sizes that the header prescribes for a YV12 buffer.\<close>

definition yv12_y_size :: "int \<Rightarrow> int \<Rightarrow> int" where
  "yv12_y_size stride height = stride * height"

definition yv12_c_stride :: "int \<Rightarrow> int" where
  "yv12_c_stride stride = (stride div 2 + 15) AND NOT 15"

definition yv12_c_size :: "int \<Rightarrow> int \<Rightarrow> int" where
  "yv12_c_size stride height = yv12_c_stride stride * height div 2"

definition yv12_size :: "int \<Rightarrow> int \<Rightarrow> int" where
  "yv12_size stride height = yv12_y_size stride height + yv12_c_size stride height * 2"

datatype hal_transform =
  HAL_TRANSFORM_FLIP_H | HAL_TRANSFORM_FLIP_V | HAL_TRANSFORM_ROT_90 | HAL_TRANSFORM_ROT_180
  | HAL_TRANSFORM_ROT_270 | HAL_TRANSFORM_RESERVED

fun hal_transform_value :: "hal_transform \<Rightarrow> 32 word" where
  "hal_transform_value HAL_TRANSFORM_FLIP_H = 0x01"
| "hal_transform_value HAL_TRANSFORM_FLIP_V = 0x02"
| "hal_transform_value HAL_TRANSFORM_ROT_90 = 0x04"
| "hal_transform_value HAL_TRANSFORM_ROT_180 = 0x03"
| "hal_transform_value HAL_TRANSFORM_ROT_270 = 0x07"
| "hal_transform_value HAL_TRANSFORM_RESERVED = 0x08"

subsection \<open>Usage bits\<close>

datatype gralloc_usage =
    SW_READ_NEVER | SW_READ_RARELY | SW_READ_OFTEN | SW_READ_MASK
  | SW_WRITE_NEVER | SW_WRITE_RARELY | SW_WRITE_OFTEN | SW_WRITE_MASK
  | HW_TEXTURE | HW_RENDER | HW_2D | HW_COMPOSER | HW_FB | HW_VIDEO_ENCODER
  | HW_CAMERA_WRITE | HW_CAMERA_READ | HW_CAMERA_ZSL | HW_CAMERA_MASK | HW_MASK
  | RENDERSCRIPT | EXTERNAL_DISP | PROTECTED | PRIVATE_0 | PRIVATE_1 | PRIVATE_2 | PRIVATE_3
  | PRIVATE_MASK

fun gralloc_usage_value :: "gralloc_usage \<Rightarrow> 32 word" where
  "gralloc_usage_value SW_READ_NEVER = 0x00000000"
| "gralloc_usage_value SW_READ_RARELY = 0x00000002"
| "gralloc_usage_value SW_READ_OFTEN = 0x00000003"
| "gralloc_usage_value SW_READ_MASK = 0x0000000F"
| "gralloc_usage_value SW_WRITE_NEVER = 0x00000000"
| "gralloc_usage_value SW_WRITE_RARELY = 0x00000020"
| "gralloc_usage_value SW_WRITE_OFTEN = 0x00000030"
| "gralloc_usage_value SW_WRITE_MASK = 0x000000F0"
| "gralloc_usage_value HW_TEXTURE = 0x00000100"
| "gralloc_usage_value HW_RENDER = 0x00000200"
| "gralloc_usage_value HW_2D = 0x00000400"
| "gralloc_usage_value HW_COMPOSER = 0x00000800"
| "gralloc_usage_value HW_FB = 0x00001000"
| "gralloc_usage_value HW_VIDEO_ENCODER = 0x00010000"
| "gralloc_usage_value HW_CAMERA_WRITE = 0x00020000"
| "gralloc_usage_value HW_CAMERA_READ = 0x00040000"
| "gralloc_usage_value HW_CAMERA_ZSL = 0x00060000"
| "gralloc_usage_value HW_CAMERA_MASK = 0x00060000"
| "gralloc_usage_value HW_MASK = 0x00071F00"
| "gralloc_usage_value RENDERSCRIPT = 0x00100000"
| "gralloc_usage_value EXTERNAL_DISP = 0x00002000"
| "gralloc_usage_value PROTECTED = 0x00004000"
| "gralloc_usage_value PRIVATE_0 = 0x10000000"
| "gralloc_usage_value PRIVATE_1 = 0x20000000"
| "gralloc_usage_value PRIVATE_2 = 0x40000000"
| "gralloc_usage_value PRIVATE_3 = 0x80000000"
| "gralloc_usage_value PRIVATE_MASK = 0xF0000000"

subsection \<open>Magic numbers, attributes and operation codes\<close>

definition ANDROID_NATIVE_MAKE_CONSTANT :: "byte \<Rightarrow> byte \<Rightarrow> byte \<Rightarrow> byte \<Rightarrow> 32 word" where
  "ANDROID_NATIVE_MAKE_CONSTANT a b c d =
     push_bit 24 (ucast a) OR push_bit 16 (ucast b) OR push_bit 8 (ucast c) OR ucast d"

text \<open>The four characters of the two magics: \<open>_wnd\<close> and \<open>_bfr\<close>.\<close>

definition ANDROID_NATIVE_WINDOW_MAGIC :: "32 word" where
  "ANDROID_NATIVE_WINDOW_MAGIC = ANDROID_NATIVE_MAKE_CONSTANT 0x5F 0x77 0x6E 0x64"

definition ANDROID_NATIVE_BUFFER_MAGIC :: "32 word" where
  "ANDROID_NATIVE_BUFFER_MAGIC = ANDROID_NATIVE_MAKE_CONSTANT 0x5F 0x62 0x66 0x72"

datatype window_attribute =
  NATIVE_WINDOW_WIDTH | NATIVE_WINDOW_HEIGHT | NATIVE_WINDOW_FORMAT
  | NATIVE_WINDOW_MIN_UNDEQUEUED_BUFFERS | NATIVE_WINDOW_QUEUES_TO_WINDOW_COMPOSER
  | NATIVE_WINDOW_CONCRETE_TYPE | NATIVE_WINDOW_DEFAULT_WIDTH | NATIVE_WINDOW_DEFAULT_HEIGHT
  | NATIVE_WINDOW_TRANSFORM_HINT | NATIVE_WINDOW_CONSUMER_RUNNING_BEHIND
  | NATIVE_WINDOW_CONSUMER_USAGE_BITS

fun window_attribute_value :: "window_attribute \<Rightarrow> int" where
  "window_attribute_value NATIVE_WINDOW_WIDTH = 0"
| "window_attribute_value NATIVE_WINDOW_HEIGHT = 1"
| "window_attribute_value NATIVE_WINDOW_FORMAT = 2"
| "window_attribute_value NATIVE_WINDOW_MIN_UNDEQUEUED_BUFFERS = 3"
| "window_attribute_value NATIVE_WINDOW_QUEUES_TO_WINDOW_COMPOSER = 4"
| "window_attribute_value NATIVE_WINDOW_CONCRETE_TYPE = 5"
| "window_attribute_value NATIVE_WINDOW_DEFAULT_WIDTH = 6"
| "window_attribute_value NATIVE_WINDOW_DEFAULT_HEIGHT = 7"
| "window_attribute_value NATIVE_WINDOW_TRANSFORM_HINT = 8"
| "window_attribute_value NATIVE_WINDOW_CONSUMER_RUNNING_BEHIND = 9"
| "window_attribute_value NATIVE_WINDOW_CONSUMER_USAGE_BITS = 10"

datatype window_op =
  NATIVE_WINDOW_SET_USAGE | NATIVE_WINDOW_CONNECT | NATIVE_WINDOW_DISCONNECT
  | NATIVE_WINDOW_SET_CROP | NATIVE_WINDOW_SET_BUFFER_COUNT | NATIVE_WINDOW_SET_BUFFERS_GEOMETRY
  | NATIVE_WINDOW_SET_BUFFERS_TRANSFORM | NATIVE_WINDOW_SET_BUFFERS_TIMESTAMP
  | NATIVE_WINDOW_SET_BUFFERS_DIMENSIONS | NATIVE_WINDOW_SET_BUFFERS_FORMAT
  | NATIVE_WINDOW_SET_SCALING_MODE | NATIVE_WINDOW_LOCK | NATIVE_WINDOW_UNLOCK_AND_POST
  | NATIVE_WINDOW_API_CONNECT | NATIVE_WINDOW_API_DISCONNECT
  | NATIVE_WINDOW_SET_BUFFERS_USER_DIMENSIONS | NATIVE_WINDOW_SET_POST_TRANSFORM_CROP

fun window_op_value :: "window_op \<Rightarrow> int" where
  "window_op_value NATIVE_WINDOW_SET_USAGE = 0"
| "window_op_value NATIVE_WINDOW_CONNECT = 1"
| "window_op_value NATIVE_WINDOW_DISCONNECT = 2"
| "window_op_value NATIVE_WINDOW_SET_CROP = 3"
| "window_op_value NATIVE_WINDOW_SET_BUFFER_COUNT = 4"
| "window_op_value NATIVE_WINDOW_SET_BUFFERS_GEOMETRY = 5"
| "window_op_value NATIVE_WINDOW_SET_BUFFERS_TRANSFORM = 6"
| "window_op_value NATIVE_WINDOW_SET_BUFFERS_TIMESTAMP = 7"
| "window_op_value NATIVE_WINDOW_SET_BUFFERS_DIMENSIONS = 8"
| "window_op_value NATIVE_WINDOW_SET_BUFFERS_FORMAT = 9"
| "window_op_value NATIVE_WINDOW_SET_SCALING_MODE = 10"
| "window_op_value NATIVE_WINDOW_LOCK = 11"
| "window_op_value NATIVE_WINDOW_UNLOCK_AND_POST = 12"
| "window_op_value NATIVE_WINDOW_API_CONNECT = 13"
| "window_op_value NATIVE_WINDOW_API_DISCONNECT = 14"
| "window_op_value NATIVE_WINDOW_SET_BUFFERS_USER_DIMENSIONS = 15"
| "window_op_value NATIVE_WINDOW_SET_POST_TRANSFORM_CROP = 16"

datatype window_api = NATIVE_WINDOW_API_EGL | NATIVE_WINDOW_API_CPU | NATIVE_WINDOW_API_MEDIA
  | NATIVE_WINDOW_API_CAMERA

fun window_api_value :: "window_api \<Rightarrow> int" where
  "window_api_value NATIVE_WINDOW_API_EGL = 1"
| "window_api_value NATIVE_WINDOW_API_CPU = 2"
| "window_api_value NATIVE_WINDOW_API_MEDIA = 3"
| "window_api_value NATIVE_WINDOW_API_CAMERA = 4"

datatype window_transform =
  NATIVE_WINDOW_TRANSFORM_FLIP_H | NATIVE_WINDOW_TRANSFORM_FLIP_V | NATIVE_WINDOW_TRANSFORM_ROT_90
  | NATIVE_WINDOW_TRANSFORM_ROT_180 | NATIVE_WINDOW_TRANSFORM_ROT_270
  | NATIVE_WINDOW_TRANSFORM_INVERSE_DISPLAY

fun window_transform_value :: "window_transform \<Rightarrow> 32 word" where
  "window_transform_value NATIVE_WINDOW_TRANSFORM_FLIP_H = hal_transform_value HAL_TRANSFORM_FLIP_H"
| "window_transform_value NATIVE_WINDOW_TRANSFORM_FLIP_V = hal_transform_value HAL_TRANSFORM_FLIP_V"
| "window_transform_value NATIVE_WINDOW_TRANSFORM_ROT_90 = hal_transform_value HAL_TRANSFORM_ROT_90"
| "window_transform_value NATIVE_WINDOW_TRANSFORM_ROT_180 = hal_transform_value HAL_TRANSFORM_ROT_180"
| "window_transform_value NATIVE_WINDOW_TRANSFORM_ROT_270 = hal_transform_value HAL_TRANSFORM_ROT_270"
| "window_transform_value NATIVE_WINDOW_TRANSFORM_INVERSE_DISPLAY = 0x08"

datatype scaling_mode = NATIVE_WINDOW_SCALING_MODE_FREEZE | NATIVE_WINDOW_SCALING_MODE_SCALE_TO_WINDOW
  | NATIVE_WINDOW_SCALING_MODE_SCALE_CROP | NATIVE_WINDOW_SCALING_MODE_NO_SCALE_CROP

fun scaling_mode_value :: "scaling_mode \<Rightarrow> int" where
  "scaling_mode_value NATIVE_WINDOW_SCALING_MODE_FREEZE = 0"
| "scaling_mode_value NATIVE_WINDOW_SCALING_MODE_SCALE_TO_WINDOW = 1"
| "scaling_mode_value NATIVE_WINDOW_SCALING_MODE_SCALE_CROP = 2"
| "scaling_mode_value NATIVE_WINDOW_SCALING_MODE_NO_SCALE_CROP = 3"

datatype concrete_type = NATIVE_WINDOW_FRAMEBUFFER | NATIVE_WINDOW_SURFACE

fun concrete_type_value :: "concrete_type \<Rightarrow> int" where
  "concrete_type_value NATIVE_WINDOW_FRAMEBUFFER = 0"
| "concrete_type_value NATIVE_WINDOW_SURFACE = 1"

definition NATIVE_WINDOW_TIMESTAMP_AUTO :: "64 word" where
  "NATIVE_WINDOW_TIMESTAMP_AUTO = - 9223372036854775807 - 1"

subsection \<open>Structures\<close>

record android_native_rect_t =
  rect_left :: int
  rect_top :: int
  rect_right :: int
  rect_bottom :: int

record android_native_base_t =
  magic :: "32 word"
  version :: nat
  reserved :: "32 word list"

text \<open>A buffer of a window; the pixels are behind its \<open>handle\<close>.\<close>

record ANativeWindowBuffer =
  buf_common :: android_native_base_t
  buf_width :: int
  buf_height :: int
  buf_stride :: int
  buf_format :: int
  buf_usage :: int
  buf_handle :: nat

text \<open>
  The constructor sets the base part; the other members stay as the storage has them (\<open>b\<close>).
  The size of the structure is the ABI's, hence an argument.
\<close>

definition ANativeWindowBuffer_init :: "nat \<Rightarrow> ANativeWindowBuffer \<Rightarrow> ANativeWindowBuffer" where
  "ANativeWindowBuffer_init sz b =
     b\<lparr>buf_common := \<lparr>magic = ANDROID_NATIVE_BUFFER_MAGIC, version = sz, reserved = replicate 4 0\<rparr>\<rparr>"

text \<open>
  The variadic arguments of \<open>perform\<close>. A rectangle is passed by reference, so that NULL is an
  argument of its own.
\<close>

datatype window_arg = ArgInt int | ArgSize nat | ArgInt64 "64 word" | ArgRect "android_native_rect_t option"

text \<open>
  \<open>ANativeWindow\<close>: the attributes and the hooks. A hook gets the state and returns its result
  code with the new state; \<open>dequeueBuffer\<close> also returns the buffer and its fence. The
  resolution in DPI and the storage reserved for vendors are not used by any helper.
\<close>

record 's ANativeWindow =
  win_common :: android_native_base_t
  flags :: "32 word"
  minSwapInterval :: int
  maxSwapInterval :: int
  hook_setSwapInterval :: "int \<Rightarrow> 's \<Rightarrow> int \<times> 's"
  hook_dequeueBuffer_DEPRECATED :: "'s \<Rightarrow> (int \<times> ANativeWindowBuffer) \<times> 's"
  hook_lockBuffer_DEPRECATED :: "ANativeWindowBuffer \<Rightarrow> 's \<Rightarrow> int \<times> 's"
  hook_queueBuffer_DEPRECATED :: "ANativeWindowBuffer \<Rightarrow> 's \<Rightarrow> int \<times> 's"
  hook_query :: "window_attribute \<Rightarrow> 's \<Rightarrow> int \<times> int"
  hook_perform :: "window_op \<Rightarrow> window_arg list \<Rightarrow> 's \<Rightarrow> int \<times> 's"
  hook_cancelBuffer_DEPRECATED :: "ANativeWindowBuffer \<Rightarrow> 's \<Rightarrow> int \<times> 's"
  hook_dequeueBuffer :: "'s \<Rightarrow> (int \<times> ANativeWindowBuffer \<times> int) \<times> 's"
  hook_queueBuffer :: "ANativeWindowBuffer \<Rightarrow> int \<Rightarrow> 's \<Rightarrow> int \<times> 's"
  hook_cancelBuffer :: "ANativeWindowBuffer \<Rightarrow> int \<Rightarrow> 's \<Rightarrow> int \<times> 's"

definition ANativeWindow_init :: "nat \<Rightarrow> 's ANativeWindow \<Rightarrow> 's ANativeWindow" where
  "ANativeWindow_init sz w =
     w\<lparr>flags := 0, minSwapInterval := 0, maxSwapInterval := 0,
       win_common := \<lparr>magic = ANDROID_NATIVE_WINDOW_MAGIC, version = sz, reserved = replicate 4 0\<rparr>\<rparr>"

subsection \<open>The inline helpers\<close>

definition native_window_set_usage :: "'s ANativeWindow \<Rightarrow> int \<Rightarrow> 's \<Rightarrow> int \<times> 's" where
  "native_window_set_usage window usage = hook_perform window NATIVE_WINDOW_SET_USAGE [ArgInt usage]"

definition native_window_connect :: "'s ANativeWindow \<Rightarrow> int \<Rightarrow> 's \<Rightarrow> int \<times> 's" where
  "native_window_connect window api s = (0, s)"

definition native_window_disconnect :: "'s ANativeWindow \<Rightarrow> int \<Rightarrow> 's \<Rightarrow> int \<times> 's" where
  "native_window_disconnect window api s = (0, s)"

definition native_window_set_crop ::
    "'s ANativeWindow \<Rightarrow> android_native_rect_t option \<Rightarrow> 's \<Rightarrow> int \<times> 's" where
  "native_window_set_crop window crop = hook_perform window NATIVE_WINDOW_SET_CROP [ArgRect crop]"

definition native_window_set_post_transform_crop ::
    "'s ANativeWindow \<Rightarrow> android_native_rect_t option \<Rightarrow> 's \<Rightarrow> int \<times> 's" where
  "native_window_set_post_transform_crop window crop =
     hook_perform window NATIVE_WINDOW_SET_POST_TRANSFORM_CROP [ArgRect crop]"

definition native_window_set_active_rect ::
    "'s ANativeWindow \<Rightarrow> android_native_rect_t option \<Rightarrow> 's \<Rightarrow> int \<times> 's" where
  "native_window_set_active_rect window active_rect =
     native_window_set_post_transform_crop window active_rect"

definition native_window_set_buffer_count :: "'s ANativeWindow \<Rightarrow> nat \<Rightarrow> 's \<Rightarrow> int \<times> 's" where
  "native_window_set_buffer_count window bufferCount =
     hook_perform window NATIVE_WINDOW_SET_BUFFER_COUNT [ArgSize bufferCount]"

definition native_window_set_buffers_geometry ::
    "'s ANativeWindow \<Rightarrow> int \<Rightarrow> int \<Rightarrow> int \<Rightarrow> 's \<Rightarrow> int \<times> 's" where
  "native_window_set_buffers_geometry window w h format =
     hook_perform window NATIVE_WINDOW_SET_BUFFERS_GEOMETRY [ArgInt w, ArgInt h, ArgInt format]"

definition native_window_set_buffers_dimensions ::
    "'s ANativeWindow \<Rightarrow> int \<Rightarrow> int \<Rightarrow> 's \<Rightarrow> int \<times> 's" where
  "native_window_set_buffers_dimensions window w h =
     hook_perform window NATIVE_WINDOW_SET_BUFFERS_DIMENSIONS [ArgInt w, ArgInt h]"

definition native_window_set_buffers_user_dimensions ::
    "'s ANativeWindow \<Rightarrow> int \<Rightarrow> int \<Rightarrow> 's \<Rightarrow> int \<times> 's" where
  "native_window_set_buffers_user_dimensions window w h =
     hook_perform window NATIVE_WINDOW_SET_BUFFERS_USER_DIMENSIONS [ArgInt w, ArgInt h]"

definition native_window_set_buffers_format :: "'s ANativeWindow \<Rightarrow> int \<Rightarrow> 's \<Rightarrow> int \<times> 's" where
  "native_window_set_buffers_format window format =
     hook_perform window NATIVE_WINDOW_SET_BUFFERS_FORMAT [ArgInt format]"

definition native_window_set_buffers_transform :: "'s ANativeWindow \<Rightarrow> int \<Rightarrow> 's \<Rightarrow> int \<times> 's" where
  "native_window_set_buffers_transform window transform =
     hook_perform window NATIVE_WINDOW_SET_BUFFERS_TRANSFORM [ArgInt transform]"

definition native_window_set_buffers_timestamp ::
    "'s ANativeWindow \<Rightarrow> 64 word \<Rightarrow> 's \<Rightarrow> int \<times> 's" where
  "native_window_set_buffers_timestamp window timestamp =
     hook_perform window NATIVE_WINDOW_SET_BUFFERS_TIMESTAMP [ArgInt64 timestamp]"

definition native_window_set_scaling_mode :: "'s ANativeWindow \<Rightarrow> int \<Rightarrow> 's \<Rightarrow> int \<times> 's" where
  "native_window_set_scaling_mode window mode =
     hook_perform window NATIVE_WINDOW_SET_SCALING_MODE [ArgInt mode]"

definition native_window_api_connect :: "'s ANativeWindow \<Rightarrow> int \<Rightarrow> 's \<Rightarrow> int \<times> 's" where
  "native_window_api_connect window api = hook_perform window NATIVE_WINDOW_API_CONNECT [ArgInt api]"

definition native_window_api_disconnect :: "'s ANativeWindow \<Rightarrow> int \<Rightarrow> 's \<Rightarrow> int \<times> 's" where
  "native_window_api_disconnect window api =
     hook_perform window NATIVE_WINDOW_API_DISCONNECT [ArgInt api]"

definition native_window_dequeue_buffer_and_wait ::
    "'s ANativeWindow \<Rightarrow> 's \<Rightarrow> (int \<times> ANativeWindowBuffer) \<times> 's" where
  "native_window_dequeue_buffer_and_wait anw = hook_dequeueBuffer_DEPRECATED anw"

lemmas native_window_helper_defs = native_window_set_usage_def native_window_set_buffers_dimensions_def
  native_window_set_scaling_mode_def native_window_set_buffers_format_def native_window_dequeue_buffer_and_wait_def

subsection \<open>Properties\<close>

text \<open>The operation codes and the attribute codes that cross the window's variadic hook are
  unambiguous, and so are the HAL pixel format codes.\<close>

lemma window_codes_injective:
  "inj window_op_value \<and> inj window_attribute_value \<and> inj hal_pixel_format_value"
proof (intro conjI injI)
  show "x = y" if "window_op_value x = window_op_value y" for x y
    using that by (cases x; cases y) simp_all
  show "x = y" if "window_attribute_value x = window_attribute_value y" for x y
    using that by (cases x; cases y) simp_all
  show "x = y" if "hal_pixel_format_value x = hal_pixel_format_value y" for x y
    using that by (cases x; cases y) simp_all
qed

text \<open>The usage groups do not overlap: software read, software write, hardware, protection and
  private bits are disjoint, and every individual bit lies inside its group's mask.\<close>

lemma gralloc_usage_groups:
  "gralloc_usage_value SW_READ_MASK AND gralloc_usage_value SW_WRITE_MASK = 0 \<and>
   (gralloc_usage_value SW_READ_MASK OR gralloc_usage_value SW_WRITE_MASK) AND
     (gralloc_usage_value HW_MASK OR gralloc_usage_value RENDERSCRIPT OR gralloc_usage_value EXTERNAL_DISP
      OR gralloc_usage_value PROTECTED OR gralloc_usage_value PRIVATE_MASK) = 0 \<and>
   gralloc_usage_value HW_MASK AND (gralloc_usage_value EXTERNAL_DISP OR gralloc_usage_value PROTECTED
      OR gralloc_usage_value PRIVATE_MASK) = 0 \<and>
   gralloc_usage_value HW_CAMERA_ZSL = gralloc_usage_value HW_CAMERA_WRITE OR gralloc_usage_value HW_CAMERA_READ \<and>
   list_all (\<lambda>u. gralloc_usage_value u AND NOT (gralloc_usage_value HW_MASK) = 0)
     [HW_TEXTURE, HW_RENDER, HW_2D, HW_COMPOSER, HW_FB, HW_VIDEO_ENCODER, HW_CAMERA_WRITE,
      HW_CAMERA_READ, HW_CAMERA_ZSL]"
  by simp

end
