(* ===== verification/Camera_State.thy ===== *)
theory Camera_State
  imports Native_Window
begin

text \<open>
  The state of the native class \<open>Camera\<close> (\<open>com_hongdian_usbcamera_Camera.cpp\<close>) and of the
  world around it. Everything the class calls outside \<open>src\<close> -- the kernel's V4L2 driver, the
  window implementation, the graphics mapper, the Java runtime -- is the record \<open>os\<close>: each call
  gets the history of all events so far, so that the environment may answer differently every
  time. Every call is also logged, oldest first, in \<open>trace\<close>. A fault (memory access outside
  an object, NULL dereference, a thread locking a mutex it already holds) is the value None.
\<close>

subsection \<open>Constants of the platform headers\<close>

definition V4L2_CAP_VIDEO_CAPTURE :: "32 word" where
  "V4L2_CAP_VIDEO_CAPTURE = 1"

definition V4L2_PIX_FMT_YUYV :: int where
  "V4L2_PIX_FMT_YUYV = 0x56595559"

definition V4L2_FIELD_INTERLACED :: int where
  "V4L2_FIELD_INTERLACED = 4"

definition MAP_FAILED :: int where
  "MAP_FAILED = - 1"

definition EINTR :: int where
  "EINTR = 4"

definition EAGAIN :: int where
  "EAGAIN = 11"

subsection \<open>Events and the environment\<close>

type_synonym surface = nat

datatype ioctl =
    VIDIOC_QUERYCAP | VIDIOC_S_FMT int int int int | VIDIOC_S_PARM int int | VIDIOC_G_PARM
  | VIDIOC_REQBUFS int | VIDIOC_QUERYBUF int | VIDIOC_QBUF int | VIDIOC_DQBUF int | VIDIOC_STREAMON

datatype event =
    EvOpen "string option" int
  | EvClose int
  | EvIoctl int ioctl int
  | EvMmap int int int int
  | EvSelect int int
  | EvNotifyFirstCapture int
  | EvNotifyCaptureStop
  | EvNotifyCameraError
  | EvPerform surface window_op "window_arg list"
  | EvDequeue surface int
  | EvMapLock nat int int int
  | EvMapUnlock nat mem
  | EvQueue surface ANativeWindowBuffer int
  | EvWindowLock surface int
  | EvUnlockAndPost surface mem

type_synonym trace = "event list"

text \<open>What another thread may do to the camera, and the points where the capture thread lets it.\<close>

datatype ui_op = UiStop | UiSetPreview nat | UiAddEncoder nat | UiRemoveEncoder nat | UiRelease

datatype ui_point = AtLoopHead | AfterSelect | BeforeDraw | BeforePreviewLock | BeforeEncoderLock

text \<open>What \<open>ANativeWindow_lock\<close> of the NDK fills in; the strides are in pixels.\<close>

record ANativeWindow_Buffer =
  nwb_width :: int
  nwb_height :: int
  nwb_stride :: int
  nwb_bits :: mem

text \<open>
  A window answers from the history; what its hooks do to it is not visible to the program, so
  the state they return is ignored. \<open>os_char_signed\<close> says whether plain \<open>char\<close> is signed
  in the ABI, \<open>os_uninit\<close> is the content of fresh heap memory. Locking a graphic buffer
  yields None when it fails, the output pointer is then not set.
\<close>

record os =
  os_char_signed :: bool
  os_uninit :: "trace \<Rightarrow> nat \<Rightarrow> byte"
  os_open :: "trace \<Rightarrow> string option \<Rightarrow> int"
  os_querycap :: "trace \<Rightarrow> int \<Rightarrow> int \<times> 32 word"
  os_s_fmt :: "trace \<Rightarrow> int \<Rightarrow> int"
  os_s_parm :: "trace \<Rightarrow> int \<Rightarrow> int"
  os_g_parm :: "trace \<Rightarrow> int \<Rightarrow> int"
  os_reqbufs :: "trace \<Rightarrow> int \<Rightarrow> int \<times> int"
  os_querybuf :: "trace \<Rightarrow> int \<Rightarrow> int \<Rightarrow> int \<times> int \<times> int"
  os_mmap :: "trace \<Rightarrow> int \<Rightarrow> int \<Rightarrow> int \<Rightarrow> int"
  os_qbuf :: "trace \<Rightarrow> int \<Rightarrow> int \<Rightarrow> int"
  os_streamon :: "trace \<Rightarrow> int \<Rightarrow> int"
  os_select :: "trace \<Rightarrow> int \<Rightarrow> int \<times> int"
  os_dqbuf :: "trace \<Rightarrow> int \<Rightarrow> int \<times> int \<times> int"
  os_gettimeofday :: "trace \<Rightarrow> int \<times> int"
  os_frame :: "trace \<Rightarrow> int \<Rightarrow> mem"
  os_getSurface :: "trace \<Rightarrow> nat \<Rightarrow> surface"
  os_getIGraphicBufferProducer :: "trace \<Rightarrow> surface \<Rightarrow> nat"
  os_window :: "surface \<Rightarrow> trace ANativeWindow"
  os_mapper_lock :: "trace \<Rightarrow> nat \<Rightarrow> mem option"
  os_ANativeWindow_lock :: "trace \<Rightarrow> surface \<Rightarrow> int \<times> ANativeWindow_Buffer"
  os_ui :: "ui_point \<Rightarrow> trace \<Rightarrow> ui_op list"

subsection \<open>The class\<close>

definition BUFFER_NR :: int where
  "BUFFER_NR = 4"

record buffer =
  map_start :: int
  map_length :: int

text \<open>
  The members of the class. A heap array is None while the pointer is NULL; a mutex is the flag
  whether it is held; an element of \<open>mBufferArray\<close> is None before it is first written, the
  constructor leaves it uninitialised. Of \<open>mCurBufInfo\<close> the code uses the index.
\<close>

record Camera =
  mYuv420sp :: "mem option"
  mRGBA8888 :: "mem option"
  mPreviewSurface :: surface
  mEncoderSurfaces :: "surface list"
  mCameraDevPath :: "string option"
  mPeekRun :: bool
  mFD :: int
  mWidth :: int
  mHeight :: int
  mCurBufIndex :: int
  mBufferArray :: "buffer option list"
  mPreviewLock :: bool
  mEncoderLock :: bool

text \<open>The object, whether it still exists, and the log.\<close>

record sys =
  cam :: Camera
  alive :: bool
  trace :: trace

definition emit :: "event \<Rightarrow> sys \<Rightarrow> sys" where
  "emit e s = s\<lparr>trace := trace s @ [e]\<rparr>"

definition upd :: "(Camera \<Rightarrow> Camera) \<Rightarrow> sys \<Rightarrow> sys" where
  "upd f s = s\<lparr>cam := f (cam s)\<rparr>"

lemma emit_simps [simp]: "cam (emit e s) = cam s" "alive (emit e s) = alive s" "trace (emit e s) = trace s @ [e]"
  by (simp_all add: emit_def)

lemma upd_simps [simp]: "cam (upd f s) = f (cam s)" "alive (upd f s) = alive s" "trace (upd f s) = trace s"
  by (simp_all add: upd_def)

text \<open>The constructor and the destructor, which also destroys the members with destructors.\<close>

definition Camera_new :: "string option \<Rightarrow> int \<Rightarrow> int \<Rightarrow> Camera" where
  "Camera_new devPath cropWidth cropHeight =
     \<lparr>mYuv420sp = None, mRGBA8888 = None, mPreviewSurface = 0, mEncoderSurfaces = [],
      mCameraDevPath = devPath, mPeekRun = False, mFD = - 1, mWidth = cropWidth,
      mHeight = cropHeight, mCurBufIndex = 0, mBufferArray = replicate (nat BUFFER_NR) None,
      mPreviewLock = False, mEncoderLock = False\<rparr>"

definition Camera_delete :: "sys \<Rightarrow> sys" where
  "Camera_delete s =
     (let s = (if mYuv420sp (cam s) \<noteq> None then upd (mYuv420sp_update (\<lambda>_. None)) s else s);
          s = (if mRGBA8888 (cam s) \<noteq> None then upd (mRGBA8888_update (\<lambda>_. None)) s else s);
          s = (if mFD (cam s) > 0 then upd (mFD_update (\<lambda>_. - 1)) (emit (EvClose (mFD (cam s))) s) else s);
          s = (if mCameraDevPath (cam s) \<noteq> None then upd (mCameraDevPath_update (\<lambda>_. None)) s else s)
      in (upd (mEncoderSurfaces_update (\<lambda>_. []) \<circ> mPreviewSurface_update (\<lambda>_. 0)) s)\<lparr>alive := False\<rparr>)"

subsection \<open>System calls\<close>

definition sys_open :: "os \<Rightarrow> sys \<Rightarrow> int \<times> sys" where
  "sys_open os s = (let r = os_open os (trace s) (mCameraDevPath (cam s))
     in (r, emit (EvOpen (mCameraDevPath (cam s)) r) s))"

definition sys_close :: "sys \<Rightarrow> sys" where
  "sys_close s = emit (EvClose (mFD (cam s))) s"

definition sys_querycap :: "os \<Rightarrow> sys \<Rightarrow> int \<times> 32 word \<times> sys" where
  "sys_querycap os s = (let (r, caps) = os_querycap os (trace s) (mFD (cam s))
     in (r, caps, emit (EvIoctl (mFD (cam s)) VIDIOC_QUERYCAP r) s))"

definition sys_ioctl :: "(trace \<Rightarrow> int \<Rightarrow> int) \<Rightarrow> ioctl \<Rightarrow> sys \<Rightarrow> int \<times> sys" where
  "sys_ioctl f cmd s = (let r = f (trace s) (mFD (cam s)) in (r, emit (EvIoctl (mFD (cam s)) cmd r) s))"

definition sys_reqbufs :: "os \<Rightarrow> sys \<Rightarrow> int \<times> int \<times> sys" where
  "sys_reqbufs os s = (let (r, n) = os_reqbufs os (trace s) (mFD (cam s))
     in (r, n, emit (EvIoctl (mFD (cam s)) (VIDIOC_REQBUFS BUFFER_NR) r) s))"

definition sys_querybuf :: "os \<Rightarrow> int \<Rightarrow> sys \<Rightarrow> int \<times> int \<times> int \<times> sys" where
  "sys_querybuf os i s = (let (r, len, off) = os_querybuf os (trace s) (mFD (cam s)) i
     in (r, len, off, emit (EvIoctl (mFD (cam s)) (VIDIOC_QUERYBUF i) r) s))"

definition sys_mmap :: "os \<Rightarrow> int \<Rightarrow> int \<Rightarrow> sys \<Rightarrow> int \<times> sys" where
  "sys_mmap os len off s = (let r = os_mmap os (trace s) (mFD (cam s)) len off
     in (r, emit (EvMmap (mFD (cam s)) len off r) s))"

subsection \<open>openCamera\<close>

text \<open>
  The two loops leave by \<open>goto exit_tag\<close>: their state is (still running, system), and a body
  that has left is skipped. The write to \<open>mBufferArray[i]\<close> faults when the driver granted
  more buffers than the array has.
\<close>

definition map_buffer :: "os \<Rightarrow> int \<Rightarrow> bool \<times> sys \<Rightarrow> (bool \<times> sys) option" where
  "map_buffer os i = (\<lambda>(ok, s).
     if \<not> ok then Some (ok, s)
     else let (r, len, off, s) = sys_querybuf os i s in
       if r \<noteq> 0 then Some (False, s)
       else let (a, s') = sys_mmap os len off s in do {
         bs \<leftarrow> wr (mBufferArray (cam s)) i (Some \<lparr>map_start = a, map_length = len\<rparr>);
         let s = upd (mBufferArray_update (\<lambda>_. bs)) s';
         Some (a \<noteq> MAP_FAILED, s)
       })"

definition queue_buffer :: "os \<Rightarrow> int \<Rightarrow> bool \<times> sys \<Rightarrow> (bool \<times> sys) option" where
  "queue_buffer os i = (\<lambda>(ok, s).
     if \<not> ok then Some (ok, s)
     else let (r, s) = sys_ioctl (\<lambda>tr fd. os_qbuf os tr fd i) (VIDIOC_QBUF i) s in Some (\<not> 0 > r, s))"

definition open_config :: "os \<Rightarrow> sys \<Rightarrow> bool \<times> int \<times> sys" where
  "open_config os s =
     (let (r, capabilities, s) = sys_querycap os s in
      if 0 > r then (False, 0, s)
      else if capabilities AND V4L2_CAP_VIDEO_CAPTURE = 0 then (False, 0, s)
      else let (r, s) = sys_ioctl (os_s_fmt os)
          (VIDIOC_S_FMT (mWidth (cam s)) (mHeight (cam s)) V4L2_PIX_FMT_YUYV V4L2_FIELD_INTERLACED) s in
      if r < 0 then (False, 0, s)
      else let (r, s) = sys_ioctl (os_s_parm os) (VIDIOC_S_PARM 1 30) s in
      if 0 > r then (False, 0, s)
      else let (r, s) = sys_ioctl (os_g_parm os) VIDIOC_G_PARM s in
      if 0 > r then (False, 0, s)
      else let (r, count, s) = sys_reqbufs os s in
      if r \<noteq> 0 then (False, 0, s) else (True, count, s))"

definition open_setup :: "os \<Rightarrow> sys \<Rightarrow> (bool \<times> sys) option" where
  "open_setup os s =
     (let (ok, count, s) = open_config os s in
      if \<not> ok then Some (False, s)
      else do {
        (ok, s) \<leftarrow> for_loop 0 count (map_buffer os) (True, s);
        if \<not> ok then Some (False, s)
        else do {
          (ok, s) \<leftarrow> for_loop 0 BUFFER_NR (queue_buffer os) (True, s);
          if \<not> ok then Some (False, s)
          else let (r, s) = sys_ioctl (os_streamon os) VIDIOC_STREAMON s in Some (\<not> 0 > r, s)
        }
      })"

definition openCamera :: "os \<Rightarrow> sys \<Rightarrow> (int \<times> sys) option" where
  "openCamera os s =
     (let (fd, s) = sys_open os s; s = upd (mFD_update (\<lambda>_. fd)) s in
      if mFD (cam s) < 0 then Some (mFD (cam s), s)
      else do {
        (ok, s) \<leftarrow> open_setup os s;
        if ok then Some (mFD (cam s), s)
        else let s = upd (mFD_update (\<lambda>_. - 1)) (sys_close s) in Some (mFD (cam s), s)
      })"

subsection \<open>Lemmas on openCamera\<close>

lemmas sys_call_defs = sys_open_def sys_close_def sys_querycap_def sys_ioctl_def sys_reqbufs_def
  sys_querybuf_def sys_mmap_def Let_def split_beta

text \<open>The commands of a trace, in order; what opening may change of the camera.\<close>

definition ioctls :: "trace \<Rightarrow> ioctl list" where
  "ioctls tr = concat (map (\<lambda>e. case e of EvIoctl fd c r \<Rightarrow> [c] | _ \<Rightarrow> []) tr)"

lemma ioctls_simps [simp]:
  "ioctls [] = []" "ioctls (a @ b) = ioctls a @ ioctls b" "ioctls [EvIoctl fd c r] = [c]"
  "ioctls [EvMmap fd len off x] = []" "ioctls [EvOpen p x] = []" "ioctls [EvClose x] = []"
  "ioctls (EvOpen p x # tr) = ioctls tr" "ioctls (EvIoctl fd c r # tr) = c # ioctls tr"
  by (simp_all add: ioctls_def)

definition open_frame :: "Camera \<Rightarrow> Camera \<Rightarrow> bool" where
  "open_frame c c' \<longleftrightarrow> c\<lparr>mFD := 0, mBufferArray := []\<rparr> = c'\<lparr>mFD := 0, mBufferArray := []\<rparr>"

lemma open_frame_refl [simp]: "open_frame c c"
  by (simp add: open_frame_def)

lemma open_frame_trans: "open_frame a b \<Longrightarrow> open_frame b c \<Longrightarrow> open_frame a c"
  by (simp add: open_frame_def)

lemma open_frame_update [simp]:
  "open_frame c (c'\<lparr>mFD := f\<rparr>) = open_frame c c'" "open_frame c (c'\<lparr>mBufferArray := b\<rparr>) = open_frame c c'"
  "open_frame (c\<lparr>mFD := f\<rparr>) c' = open_frame c c'"
  by (simp_all add: open_frame_def)

lemma open_frame_fields:
  assumes "open_frame c c'"
  shows "mYuv420sp c' = mYuv420sp c" "mRGBA8888 c' = mRGBA8888 c" "mPreviewSurface c' = mPreviewSurface c"
    "mEncoderSurfaces c' = mEncoderSurfaces c" "mCameraDevPath c' = mCameraDevPath c" "mPeekRun c' = mPeekRun c"
    "mWidth c' = mWidth c" "mHeight c' = mHeight c" "mPreviewLock c' = mPreviewLock c" "mEncoderLock c' = mEncoderLock c"
  using assms by (cases c; cases c'; simp add: open_frame_def)+

text \<open>One granted buffer, and all of them.\<close>

lemma map_buffer_ok:
  assumes "map_buffer os i (True, s) = Some (ok, s')"
  shows "mFD (cam s') = mFD (cam s) \<and> open_frame (cam s) (cam s') \<and>
    ioctls (trace s') = ioctls (trace s) @ [VIDIOC_QUERYBUF i] \<and>
    length (mBufferArray (cam s')) = length (mBufferArray (cam s)) \<and>
    (ok \<longrightarrow> 0 \<le> i \<and> i < int (length (mBufferArray (cam s))) \<and>
       (\<exists>b. mBufferArray (cam s') = (mBufferArray (cam s))[nat i := Some b] \<and> map_start b \<noteq> MAP_FAILED))"
  using assms
  by (auto simp: map_buffer_def sys_call_defs Option.bind_eq_Some_conv wr_def split: if_splits)

lemma map_buffer_stopped [simp]: "map_buffer os i (False, s) = Some (False, s)"
  by (simp add: map_buffer_def)

lemma queue_buffer_stopped [simp]: "queue_buffer os i (False, s) = Some (False, s)"
  by (simp add: queue_buffer_def)

lemma queue_buffer_ok:
  "queue_buffer os i (True, s) = Some (ok, s') \<Longrightarrow> cam s' = cam s \<and>
     ioctls (trace s') = ioctls (trace s) @ [VIDIOC_QBUF i]"
  by (auto simp: queue_buffer_def sys_call_defs)

definition mapped_upto :: "int \<Rightarrow> Camera \<Rightarrow> bool" where
  "mapped_upto n c \<longleftrightarrow> n \<le> int (length (mBufferArray c)) \<and>
     (\<forall>k < nat n. \<exists>b. mBufferArray c ! k = Some b \<and> map_start b \<noteq> MAP_FAILED)"

lemma map_buffers_ok:
  assumes "for_loop 0 n (map_buffer os) (True, s) = Some (ok, s')" and "0 \<le> n"
  shows "mFD (cam s') = mFD (cam s) \<and> open_frame (cam s) (cam s') \<and>
    length (mBufferArray (cam s')) = length (mBufferArray (cam s)) \<and>
    (ok \<longrightarrow> mapped_upto n (cam s') \<and> ioctls (trace s') = ioctls (trace s) @ map VIDIOC_QUERYBUF [0..n - 1])"
proof -
  let ?I = "\<lambda>i (ok, t). mFD (cam t) = mFD (cam s) \<and> open_frame (cam s) (cam t) \<and>
    length (mBufferArray (cam t)) = length (mBufferArray (cam s)) \<and>
    (ok \<longrightarrow> mapped_upto i (cam t) \<and> ioctls (trace t) = ioctls (trace s) @ map VIDIOC_QUERYBUF [0..i - 1])"
  have "?I n (ok, s')"
    using assms(1)
  proof (rule for_loop_partial [where I = ?I])
    fix i :: int and u u' assume i: "0 \<le> i" and u: "?I i u" and st: "map_buffer os i u = Some u'"
    obtain o1 t where ut: "u = (o1, t)" by (cases u)
    obtain o2 t' where ut': "u' = (o2, t')" by (cases u')
    show "?I (i + 1) u'"
    proof (cases o1)
      case False
      then show ?thesis using u st by (auto simp: ut)
    next
      case True
      have "map_buffer os i (True, t) = Some (o2, t')" using st True by (simp add: ut ut')
      note m = map_buffer_ok [OF this]
      have up: "[0..i] = [0..i - 1] @ [i]" using i by (simp add: upto_rec2)
      have "mapped_upto (i + 1) (cam t')" if o2
      proof -
        obtain b where b: "mBufferArray (cam t') = (mBufferArray (cam t))[nat i := Some b]"
          "map_start b \<noteq> MAP_FAILED" "i < int (length (mBufferArray (cam t)))" using m \<open>o2\<close> by blast
        have "nat (i + 1) = Suc (nat i)" using i by simp
        then show ?thesis using b u True i unfolding mapped_upto_def ut
          by (auto simp: less_Suc_eq)
      qed
      then show ?thesis using u m True by (auto simp: ut ut' up intro: open_frame_trans)
    qed
  qed (use assms(2) in \<open>simp_all add: mapped_upto_def\<close>)
  then show ?thesis by simp
qed

lemma queue_buffers_ok:
  assumes "for_loop 0 n (queue_buffer os) (True, s) = Some (ok, s')" and "0 \<le> n"
  shows "cam s' = cam s \<and> (ok \<longrightarrow> ioctls (trace s') = ioctls (trace s) @ map VIDIOC_QBUF [0..n - 1])"
proof -
  let ?I = "\<lambda>i (ok, t). cam t = cam s \<and> (ok \<longrightarrow> ioctls (trace t) = ioctls (trace s) @ map VIDIOC_QBUF [0..i - 1])"
  have "?I n (ok, s')"
    using assms(1)
  proof (rule for_loop_partial [where I = ?I])
    fix i :: int and u u' assume i: "0 \<le> i" and u: "?I i u" and st: "queue_buffer os i u = Some u'"
    have up: "[0..i] = [0..i - 1] @ [i]" using i by (simp add: upto_rec2)
    obtain o1 t where ut: "u = (o1, t)" by (cases u)
    obtain o2 t' where ut': "u' = (o2, t')" by (cases u')
    show "?I (i + 1) u'"
    proof (cases o1)
      case False
      then show ?thesis using u st by (auto simp: ut)
    next
      case True
      then have "queue_buffer os i (True, t) = Some (o2, t')" using st by (simp add: ut ut')
      from queue_buffer_ok [OF this] show ?thesis using u True by (simp add: ut ut' up)
    qed
  qed (use assms(2) in simp_all)
  then show ?thesis by simp
qed

text \<open>The whole set-up.\<close>

lemma open_config_ok:
  assumes "open_config os s = (ok, n, s')"
  shows "cam s' = cam s \<and> (ok \<longrightarrow> ioctls (trace s') = ioctls (trace s) @
      [VIDIOC_QUERYCAP, VIDIOC_S_FMT (mWidth (cam s)) (mHeight (cam s)) V4L2_PIX_FMT_YUYV V4L2_FIELD_INTERLACED,
       VIDIOC_S_PARM 1 30, VIDIOC_G_PARM, VIDIOC_REQBUFS BUFFER_NR] \<and>
      (\<exists>P. trace s' = trace s @ P @ [EvIoctl (mFD (cam s)) (VIDIOC_REQBUFS BUFFER_NR) 0] \<and>
        os_reqbufs os (trace s @ P) (mFD (cam s)) = (0, n)))"
  using assms by (auto simp: open_config_def sys_call_defs prod_eq_iff split: if_splits)

lemma for_loop_extends:
  assumes "for_loop 0 n f u = Some u'"
    and step: "\<And>i u u'. f i u = Some u' \<Longrightarrow> \<exists>E. trace (snd u') = trace (snd u) @ E"
  shows "\<exists>E. trace (snd u') = trace (snd u) @ E"
proof (cases "0 \<le> n")
  case True
  show ?thesis
  proof (rule for_loop_partial [where I = "\<lambda>_ v. \<exists>E. trace (snd v) = trace (snd u) @ E", OF assms(1) True])
    fix i v v' assume "\<exists>E. trace (snd v) = trace (snd u) @ E" "f i v = Some v'"
    then show "\<exists>E. trace (snd v') = trace (snd u) @ E" using step [of i v v'] by auto
  qed simp
qed (use assms(1) in simp)

lemma map_buffer_extends: "map_buffer os i u = Some u' \<Longrightarrow> \<exists>E. trace (snd u') = trace (snd u) @ E"
  by (auto simp: map_buffer_def sys_call_defs Option.bind_eq_Some_conv split: if_splits)

lemma queue_buffer_extends: "queue_buffer os i u = Some u' \<Longrightarrow> \<exists>E. trace (snd u') = trace (snd u) @ E"
  by (auto simp: queue_buffer_def sys_call_defs split: if_splits)

definition open_commands :: "Camera \<Rightarrow> int \<Rightarrow> ioctl list" where
  "open_commands c n =
      [VIDIOC_QUERYCAP, VIDIOC_S_FMT (mWidth c) (mHeight c) V4L2_PIX_FMT_YUYV V4L2_FIELD_INTERLACED,
       VIDIOC_S_PARM 1 30, VIDIOC_G_PARM, VIDIOC_REQBUFS BUFFER_NR] @ map VIDIOC_QUERYBUF [0..n - 1]
      @ map VIDIOC_QBUF [0..BUFFER_NR - 1] @ [VIDIOC_STREAMON]"

text \<open>The log \<open>tr'\<close> extends \<open>tr\<close>, and \<open>n\<close> is the number of buffers the driver granted at the buffer request that
  succeeded in between.\<close>

definition granted :: "os \<Rightarrow> int \<Rightarrow> trace \<Rightarrow> trace \<Rightarrow> int \<Rightarrow> bool" where
  "granted os fd tr tr' n \<longleftrightarrow> (\<exists>P E. tr' = tr @ P @ EvIoctl fd (VIDIOC_REQBUFS BUFFER_NR) 0 # E \<and>
     os_reqbufs os (tr @ P) fd = (0, n))"

lemma granted_append: "granted os fd tr tr' n \<Longrightarrow> granted os fd tr (tr' @ E) n"
  unfolding granted_def by (metis append.assoc append_Cons)

lemma open_setup_ok:
  assumes "open_setup os s = Some (ok, s')"
  shows "mFD (cam s') = mFD (cam s) \<and> open_frame (cam s) (cam s') \<and>
    length (mBufferArray (cam s')) = length (mBufferArray (cam s)) \<and>
    (ok \<longrightarrow> (\<exists>n. granted os (mFD (cam s)) (trace s) (trace s') n \<and> mapped_upto n (cam s') \<and>
       ioctls (trace s') = ioctls (trace s) @ open_commands (cam s) n))"
proof -
  obtain ok1 n s1 where s1: "open_config os s = (ok1, n, s1)" by (cases "open_config os s") auto
  note c1 = open_config_ok [OF s1]
  show ?thesis
  proof (cases ok1)
    case False
    then show ?thesis using assms s1 c1 by (simp add: open_setup_def)
  next
    case True
    then obtain ok2 s2 where s2: "for_loop 0 n (map_buffer os) (True, s1) = Some (ok2, s2)"
      using assms s1 by (auto simp: open_setup_def Option.bind_eq_Some_conv)
    have c2: "mFD (cam s2) = mFD (cam s1) \<and> open_frame (cam s1) (cam s2) \<and>
        length (mBufferArray (cam s2)) = length (mBufferArray (cam s1)) \<and>
        (ok2 \<longrightarrow> mapped_upto n (cam s2) \<and>
           ioctls (trace s2) = ioctls (trace s1) @ map VIDIOC_QUERYBUF [0..n - 1])"
      using map_buffers_ok [OF s2] s2 by (cases "0 \<le> n") (auto simp: mapped_upto_def)
    show ?thesis
    proof (cases ok2)
      case False
      then show ?thesis using assms s1 s2 c1 c2 True by (simp add: open_setup_def)
    next
      case ok2: True
      obtain ok3 s3 where s3: "for_loop 0 BUFFER_NR (queue_buffer os) (True, s2) = Some (ok3, s3)"
        using assms s1 s2 True ok2 by (auto simp: open_setup_def Option.bind_eq_Some_conv)
      have c3: "cam s3 = cam s2 \<and> (ok3 \<longrightarrow> ioctls (trace s3) = ioctls (trace s2) @ map VIDIOC_QBUF [0..BUFFER_NR - 1])"
        using queue_buffers_ok [OF s3] by (simp add: BUFFER_NR_def)
      have c4: "cam s' = cam s3 \<and> (\<exists>E. trace s' = trace s3 @ E) \<and>
          (ok \<longrightarrow> ok3 \<and> ioctls (trace s') = ioctls (trace s3) @ [VIDIOC_STREAMON])"
        using assms s1 s2 s3 True ok2 by (auto simp: open_setup_def sys_ioctl_def Let_def split: if_splits)
      have "granted os (mFD (cam s)) (trace s) (trace s1) n"
        using c1 True by (auto simp: granted_def)
      moreover have "\<exists>E. trace s2 = trace s1 @ E" using for_loop_extends [OF s2] map_buffer_extends by fastforce
      moreover have "\<exists>E. trace s3 = trace s2 @ E" using for_loop_extends [OF s3] queue_buffer_extends by fastforce
      ultimately have "granted os (mFD (cam s)) (trace s) (trace s') n" using c4 by (auto intro: granted_append)
      then show ?thesis using True ok2 c1 c2 c3 c4 by (auto simp: open_commands_def)
    qed
  qed
qed
lemma openCamera_cases:
  assumes "openCamera os s = Some (r, s')"
  defines "fd \<equiv> os_open os (trace s) (mCameraDevPath (cam s))"
  defines "s0 \<equiv> upd (mFD_update (\<lambda>_. fd)) (emit (EvOpen (mCameraDevPath (cam s)) fd) s)"
  shows "(fd < 0 \<and> r = fd \<and> s' = s0) \<or>
    (0 \<le> fd \<and> r = fd \<and> open_setup os s0 = Some (True, s')) \<or>
    (0 \<le> fd \<and> r = - 1 \<and> (\<exists>s1. open_setup os s0 = Some (False, s1) \<and>
        s' = upd (mFD_update (\<lambda>_. - 1)) (emit (EvClose fd) s1)))"
proof (cases "fd < 0")
  case True
  then show ?thesis using assms(1) by (auto simp: openCamera_def sys_open_def Let_def fd_def s0_def)
next
  case False
  then obtain ok s1 where s1: "open_setup os s0 = Some (ok, s1)"
    using assms(1) by (auto simp: openCamera_def sys_open_def Let_def fd_def s0_def Option.bind_eq_Some_conv)
  have "mFD (cam s1) = fd" using open_setup_ok [OF s1] by (simp add: s0_def)
  then show ?thesis using assms(1) s1 False
    by (cases ok) (auto simp: openCamera_def sys_open_def sys_close_def Let_def fd_def s0_def)
qed

text \<open>A driver that grants \<open>n\<close> buffers and refuses nothing.\<close>

definition driver_grants :: "os \<Rightarrow> int \<Rightarrow> bool" where
  "driver_grants os n \<longleftrightarrow> (\<forall>tr fd. 0 \<le> fst (os_querycap os tr fd) \<and>
     snd (os_querycap os tr fd) AND V4L2_CAP_VIDEO_CAPTURE \<noteq> 0 \<and>
     0 \<le> os_s_fmt os tr fd \<and> 0 \<le> os_s_parm os tr fd \<and> 0 \<le> os_g_parm os tr fd \<and>
     os_reqbufs os tr fd = (0, n) \<and> 0 \<le> os_streamon os tr fd \<and>
     (\<forall>i. fst (os_querybuf os tr fd i) = 0 \<and> 0 \<le> os_qbuf os tr fd i) \<and>
     (\<forall>len off. os_mmap os tr fd len off \<noteq> MAP_FAILED))"

lemma open_config_grants:
  assumes "driver_grants os n"
  shows "\<exists>s'. open_config os s = (True, n, s') \<and> cam s' = cam s"
proof -
  have g: "\<not> fst (os_querycap os tr fd) < 0" "snd (os_querycap os tr fd) AND V4L2_CAP_VIDEO_CAPTURE \<noteq> 0"
    "\<not> os_s_fmt os tr fd < 0" "\<not> os_s_parm os tr fd < 0" "\<not> os_g_parm os tr fd < 0"
    "os_reqbufs os tr fd = (0, n)" for tr fd
    using assms by (simp_all add: driver_grants_def not_less)
  show ?thesis by (simp add: open_config_def sys_call_defs g)
qed

lemma map_buffer_grants:
  assumes "driver_grants os n"
  shows "map_buffer os i (True, s) =
    (if 0 \<le> i \<and> i < int (length (mBufferArray (cam s)))
     then Some (True, snd (the (map_buffer os i (True, s)))) else None) \<and>
    (0 \<le> i \<and> i < int (length (mBufferArray (cam s))) \<longrightarrow>
     length (mBufferArray (cam (snd (the (map_buffer os i (True, s)))))) = length (mBufferArray (cam s)))"
proof -
  have "fst (os_querybuf os tr fd j) = 0" "os_mmap os tr fd len off \<noteq> MAP_FAILED" for tr fd j len off
    using assms by (auto simp: driver_grants_def)
  then show ?thesis by (auto simp: map_buffer_def sys_call_defs wr_def)
qed

lemma map_buffers_grants:
  assumes "driver_grants os n" "0 \<le> m" "m \<le> int (length (mBufferArray (cam s)))"
  shows "\<exists>s'. for_loop 0 m (map_buffer os) (True, s) = Some (True, s') \<and>
    length (mBufferArray (cam s')) = length (mBufferArray (cam s))"
proof -
  let ?I = "\<lambda>(i :: int) (ok :: bool, t :: sys). ok \<and> length (mBufferArray (cam t)) = length (mBufferArray (cam s))"
  have "\<exists>u. for_loop 0 m (map_buffer os) (True, s) = Some u \<and> ?I m u"
  proof (rule for_loop_rule [where I = ?I])
    fix i :: int and u assume i: "0 \<le> i" "i < m" and u: "?I i u"
    obtain t where t: "u = (True, t)" "length (mBufferArray (cam t)) = length (mBufferArray (cam s))"
      using u by (cases u) auto
    show "\<exists>u'. map_buffer os i u = Some u' \<and> ?I (i + 1) u'"
      using map_buffer_grants [OF assms(1), of i t] i assms(3) t by auto
  qed (use assms(2) in simp_all)
  then show ?thesis by auto
qed

lemma queue_buffers_grants:
  assumes "driver_grants os n" "0 \<le> m"
  shows "\<exists>s'. for_loop 0 m (queue_buffer os) (True, s) = Some (True, s')"
proof -
  have "\<not> os_qbuf os tr fd i < 0" for tr fd i using assms(1) by (simp add: driver_grants_def not_less)
  then have "\<exists>u. for_loop 0 m (queue_buffer os) (True, s) = Some u \<and> fst u"
    by (intro for_loop_rule [where I = "\<lambda>_. fst"]) (use assms(2) in \<open>auto simp: queue_buffer_def sys_call_defs\<close>)
  then show ?thesis by auto
qed

lemma open_setup_grants:
  assumes "driver_grants os n" "0 \<le> n" "n \<le> int (length (mBufferArray (cam s)))"
  shows "\<exists>s'. open_setup os s = Some (True, s')"
proof -
  obtain s1 where s1: "open_config os s = (True, n, s1)" "cam s1 = cam s" using open_config_grants [OF assms(1)] by blast
  obtain s2 where s2: "for_loop 0 n (map_buffer os) (True, s1) = Some (True, s2)"
    using map_buffers_grants [OF assms(1,2), of s1] assms(3) s1 by auto
  obtain s3 where s3: "for_loop 0 BUFFER_NR (queue_buffer os) (True, s2) = Some (True, s3)"
    using queue_buffers_grants [OF assms(1), of BUFFER_NR s2] by (auto simp: BUFFER_NR_def)
  have "\<not> os_streamon os tr fd < 0" for tr fd using assms(1) by (simp add: driver_grants_def not_less)
  then show ?thesis using s1 s2 s3 by (simp add: open_setup_def sys_ioctl_def Let_def)
qed

lemma open_setup_overflow:
  assumes "driver_grants os n" "int (length (mBufferArray (cam s))) < n"
  shows "open_setup os s = None"
proof -
  let ?k = "int (length (mBufferArray (cam s)))"
  obtain s1 where s1: "open_config os s = (True, n, s1)" "cam s1 = cam s" using open_config_grants [OF assms(1)] by blast
  obtain s2 where s2: "for_loop 0 ?k (map_buffer os) (True, s1) = Some (True, s2)"
      "length (mBufferArray (cam s2)) = length (mBufferArray (cam s1))"
    using map_buffers_grants [OF assms(1), of ?k s1] s1 by auto
  have "map_buffer os ?k (True, s2) = None"
    using map_buffer_grants [OF assms(1), of ?k s2] s1(2) s2(2) by simp
  then have "for_loop 0 n (map_buffer os) (True, s1) = None"
    using for_loop_split [of 0 ?k n "map_buffer os" "(True, s1)"] s2(1) assms(2) by (simp add: for_loop_step)
  then show ?thesis using s1 by (simp add: open_setup_def)
qed

text \<open>An environment in which every call succeeds, for the witnesses: \<open>fd\<close> is what \<open>open\<close>
  returns, \<open>n\<close> the number of buffers, \<open>frame\<close> the picture in every buffer.\<close>

definition easy_window :: "int \<Rightarrow> int \<Rightarrow> trace ANativeWindow" where
  "easy_window w h =
     (let b = \<lparr>buf_common = \<lparr>magic = ANDROID_NATIVE_BUFFER_MAGIC, version = 0, reserved = []\<rparr>, buf_width = w,
          buf_height = h, buf_stride = w, buf_format = 0, buf_usage = 0, buf_handle = 1\<rparr>
      in \<lparr>win_common = \<lparr>magic = ANDROID_NATIVE_WINDOW_MAGIC, version = 0, reserved = []\<rparr>, flags = 0,
        minSwapInterval = 0, maxSwapInterval = 0, hook_setSwapInterval = (\<lambda>_ tr. (0, tr)),
        hook_dequeueBuffer_DEPRECATED = (\<lambda>tr. ((0, b), tr)), hook_lockBuffer_DEPRECATED = (\<lambda>_ tr. (0, tr)),
        hook_queueBuffer_DEPRECATED = (\<lambda>_ tr. (0, tr)), hook_query = (\<lambda>_ _. (0, 0)),
        hook_perform = (\<lambda>_ _ tr. (0, tr)), hook_cancelBuffer_DEPRECATED = (\<lambda>_ tr. (0, tr)),
        hook_dequeueBuffer = (\<lambda>tr. ((0, b, - 1), tr)), hook_queueBuffer = (\<lambda>_ _ tr. (0, tr)),
        hook_cancelBuffer = (\<lambda>_ _ tr. (0, tr))\<rparr>)"

definition easy_os :: "int \<Rightarrow> int \<Rightarrow> mem \<Rightarrow> os" where
  "easy_os fd n frame =
     \<lparr>os_char_signed = False, os_uninit = (\<lambda>_ _. 0), os_open = (\<lambda>_ _. fd),
      os_querycap = (\<lambda>_ _. (0, 1)), os_s_fmt = (\<lambda>_ _. 0), os_s_parm = (\<lambda>_ _. 0),
      os_g_parm = (\<lambda>_ _. 0), os_reqbufs = (\<lambda>_ _. (0, n)), os_querybuf = (\<lambda>_ _ i. (0, int (length frame), i)),
      os_mmap = (\<lambda>_ _ _ off. 4096 * \<bar>off\<bar> + 4096), os_qbuf = (\<lambda>_ _ _. 0), os_streamon = (\<lambda>_ _. 0),
      os_select = (\<lambda>_ _. (1, 0)), os_dqbuf = (\<lambda>_ _. (0, 0, 0)), os_gettimeofday = (\<lambda>_. (1, 2)),
      os_frame = (\<lambda>_ _. frame), os_getSurface = (\<lambda>_ j. j), os_getIGraphicBufferProducer = (\<lambda>_ _. 1),
      os_window = (\<lambda>_. easy_window 2 2), os_mapper_lock = (\<lambda>_ _. Some (replicate 64 0)),
      os_ANativeWindow_lock = (\<lambda>_ _. (0, \<lparr>nwb_width = 2, nwb_height = 2, nwb_stride = 2,
        nwb_bits = replicate 16 0\<rparr>)),
      os_ui = (\<lambda>_ _. [])\<rparr>"

definition fresh_sys :: "int \<Rightarrow> int \<Rightarrow> sys" where
  "fresh_sys w h = \<lparr>cam = Camera_new (Some ''/dev/video0'') w h, alive = True, trace = []\<rparr>"

lemma easy_os_grants: "driver_grants (easy_os fd n frame) n"
proof -
  have "4096 * \<bar>off\<bar> + 4096 \<noteq> MAP_FAILED" for off
  proof -
    have "0 \<le> \<bar>off\<bar>" by simp
    then show ?thesis unfolding MAP_FAILED_def by linarith
  qed
  then show ?thesis by (simp add: driver_grants_def easy_os_def V4L2_CAP_VIDEO_CAPTURE_def)
qed

lemma openCamera_grants:
  assumes "driver_grants os n" "0 \<le> n" "n \<le> int (length (mBufferArray (cam s)))"
    "0 \<le> os_open os (trace s) (mCameraDevPath (cam s))"
  shows "\<exists>s'. openCamera os s = Some (os_open os (trace s) (mCameraDevPath (cam s)), s')"
proof -
  let ?fd = "os_open os (trace s) (mCameraDevPath (cam s))"
  let ?s0 = "upd (mFD_update (\<lambda>_. ?fd)) (emit (EvOpen (mCameraDevPath (cam s)) ?fd) s)"
  obtain s' where s': "open_setup os ?s0 = Some (True, s')" using open_setup_grants [OF assms(1,2), of ?s0] assms(3) by auto
  have "mFD (cam s') = ?fd" using open_setup_ok [OF s'] by simp
  then show ?thesis using s' assms(4) by (simp add: openCamera_def sys_open_def Let_def)
qed

subsection \<open>Descriptors closed while opening\<close>

definition closes :: "trace \<Rightarrow> int list" where
  "closes tr = concat (map (\<lambda>e. case e of EvClose fd \<Rightarrow> [fd] | _ \<Rightarrow> []) tr)"

lemma closes_simps [simp]:
  "closes [] = []" "closes (a @ b) = closes a @ closes b" "closes [EvIoctl fd c r] = []"
  "closes [EvMmap fd len off x] = []" "closes [EvOpen p x] = []" "closes [EvClose x] = [x]"
  "closes (EvIoctl fd c r # tr) = closes tr"
  by (simp_all add: closes_def)

lemma map_buffer_closes: "map_buffer os i u = Some u' \<Longrightarrow> closes (trace (snd u')) = closes (trace (snd u))"
  by (auto simp: map_buffer_def sys_call_defs Option.bind_eq_Some_conv split: if_splits)

lemma queue_buffer_closes: "queue_buffer os i u = Some u' \<Longrightarrow> closes (trace (snd u')) = closes (trace (snd u))"
  by (auto simp: queue_buffer_def sys_call_defs split: if_splits)

lemma for_loop_closes:
  assumes "for_loop 0 n f u = Some u'"
    and "\<And>i u u'. f i u = Some u' \<Longrightarrow> closes (trace (snd u')) = closes (trace (snd u))"
  shows "closes (trace (snd u')) = closes (trace (snd u))"
proof (cases "0 \<le> n")
  case True
  show ?thesis
    by (rule for_loop_partial [where I = "\<lambda>_ v. closes (trace (snd v)) = closes (trace (snd u))", OF assms(1) True])
      (auto dest: assms(2))
qed (use assms(1) in simp)

lemma open_setup_closes:
  assumes "open_setup os s = Some (ok, s')"
  shows "closes (trace s') = closes (trace s)"
proof -
  obtain ok1 n s1 where s1: "open_config os s = (ok1, n, s1)" by (cases "open_config os s") auto
  have c1: "closes (trace s1) = closes (trace s)"
    using s1 by (auto simp: open_config_def sys_call_defs split: if_splits)
  show ?thesis
  proof (cases ok1)
    case False
    then show ?thesis using assms s1 c1 by (simp add: open_setup_def)
  next
    case True
    then obtain ok2 s2 where s2: "for_loop 0 n (map_buffer os) (True, s1) = Some (ok2, s2)"
      using assms s1 by (auto simp: open_setup_def Option.bind_eq_Some_conv)
    have c2: "closes (trace s2) = closes (trace s1)"
      using for_loop_closes [OF s2 map_buffer_closes] by simp
    show ?thesis
    proof (cases ok2)
      case False
      then show ?thesis using assms s1 s2 c1 c2 True by (simp add: open_setup_def)
    next
      case ok2: True
      obtain ok3 s3 where s3: "for_loop 0 BUFFER_NR (queue_buffer os) (True, s2) = Some (ok3, s3)"
        using assms s1 s2 True ok2 by (auto simp: open_setup_def Option.bind_eq_Some_conv)
      have c3: "closes (trace s3) = closes (trace s2)"
        using for_loop_closes [OF s3 queue_buffer_closes] by simp
      have "closes (trace s') = closes (trace s3)"
        using assms s1 s2 s3 True ok2 by (auto simp: open_setup_def sys_ioctl_def Let_def split: if_splits)
      then show ?thesis using c1 c2 c3 by simp
    qed
  qed
qed

subsection \<open>Properties\<close>

text \<open>C10: what \<open>openCamera\<close> returns is the new \<open>mFD\<close>. If it is not negative, it is the opened
  descriptor, the driver got the documented commands in order (query, format, frame rate, buffers,
  every granted buffer, the four queue operations, stream on), and every granted buffer is mapped in
  \<open>mBufferArray\<close>: the number of buffers queried and mapped is the one the driver gave as its answer to the buffer
  request in the log, and it is at most four. If it is negative, either \<open>open\<close> failed and nothing else was called, or the
  result is -1 and the last thing done was to close the opened descriptor.\<close>

theorem openCamera_result:
  assumes "openCamera os s = Some (r, s')" and "length (mBufferArray (cam s)) = 4"
  shows "r = mFD (cam s') \<and>
    (0 \<le> r \<longrightarrow> r = os_open os (trace s) (mCameraDevPath (cam s)) \<and>
      (\<exists>n \<le> 4. granted os r (trace s) (trace s') n \<and> mapped_upto n (cam s') \<and>
        ioctls (trace s') = ioctls (trace s) @ open_commands (cam s) n)) \<and>
    (r < 0 \<longrightarrow> trace s' = trace s @ [EvOpen (mCameraDevPath (cam s)) r] \<or>
      (r = - 1 \<and> 0 \<le> os_open os (trace s) (mCameraDevPath (cam s)) \<and>
       last (trace s') = EvClose (os_open os (trace s) (mCameraDevPath (cam s)))))"
  using openCamera_cases [OF assms(1)]
proof (elim disjE conjE exE)
  assume *: "0 \<le> os_open os (trace s) (mCameraDevPath (cam s))"
    "r = os_open os (trace s) (mCameraDevPath (cam s))"
    "open_setup os (upd (mFD_update (\<lambda>_. os_open os (trace s) (mCameraDevPath (cam s))))
      (emit (EvOpen (mCameraDevPath (cam s)) (os_open os (trace s) (mCameraDevPath (cam s)))) s)) = Some (True, s')"
  note o = open_setup_ok [OF *(3)]
  then obtain n where n: "granted os r (trace s @ [EvOpen (mCameraDevPath (cam s)) r]) (trace s') n"
      "mapped_upto n (cam s')" "ioctls (trace s') = ioctls (trace s) @ open_commands (cam s) n"
    by (auto simp: open_commands_def *(2))
  have "n \<le> 4" using o assms(2) n(2) by (simp add: mapped_upto_def)
  moreover have "granted os r (trace s) (trace s') n" using n(1) unfolding granted_def by (metis append.assoc)
  ultimately show ?thesis using * o n(2,3) by auto
qed simp_all

theorem openCamera_result_witness:
  "\<exists>s'. openCamera (easy_os 3 2 []) (fresh_sys 2 2) = Some (3, s') \<and>
     (\<exists>n \<le> 4. ioctls (trace s') = open_commands (cam (fresh_sys 2 2)) n)"
proof -
  have len: "length (mBufferArray (cam (fresh_sys 2 2))) = 4"
    by (simp add: fresh_sys_def Camera_new_def BUFFER_NR_def)
  have fd: "os_open (easy_os 3 2 []) tr p = 3" for tr p by (simp add: easy_os_def)
  obtain s' where s': "openCamera (easy_os 3 2 []) (fresh_sys 2 2) = Some (3, s')"
    using openCamera_grants [OF easy_os_grants, of 2 "fresh_sys 2 2" 3 "[]"] len fd by auto
  from openCamera_result [OF s' len] show ?thesis using s' by (auto simp: fresh_sys_def)
qed

text \<open>When the driver refuses nothing and grants at most four buffers, the camera opens.\<close>

lemma openCamera_succeeds:
  assumes "driver_grants os n" and "0 \<le> n" and "n \<le> int (length (mBufferArray (cam s)))"
    and "0 \<le> os_open os (trace s) (mCameraDevPath (cam s))"
  shows "\<exists>s'. openCamera os s = Some (os_open os (trace s) (mCameraDevPath (cam s)), s')"
  by (rule openCamera_grants [OF assms])

theorem openCamera_succeeds_witness:
  "\<exists>s'. openCamera (easy_os 3 4 []) (fresh_sys 2 2) = Some (3, s')"
proof -
  have "0 \<le> os_open (easy_os 3 4 []) (trace (fresh_sys 2 2)) (mCameraDevPath (cam (fresh_sys 2 2)))"
    and e: "os_open (easy_os 3 4 []) tr p = 3" for tr p by (simp_all add: easy_os_def)
  from openCamera_succeeds [OF easy_os_grants _ _ this(1)] show ?thesis
    by (simp add: e fresh_sys_def Camera_new_def BUFFER_NR_def)
qed

text \<open>C38: when the driver grants more buffers than the four of \<open>mBufferArray\<close> (V4L2 lets a driver
  raise the requested count), \<open>openCamera\<close> writes past the end of the array.\<close>

theorem openCamera_too_many_buffers:
  assumes "driver_grants os n" and "int (length (mBufferArray (cam s))) < n"
    and "0 \<le> os_open os (trace s) (mCameraDevPath (cam s))"
  shows "openCamera os s = None"
  using assms(3) open_setup_overflow [OF assms(1)] assms(2)
  by (simp add: openCamera_def sys_open_def Let_def)

theorem openCamera_too_many_buffers_witness:
  "openCamera (easy_os 3 5 []) (fresh_sys 2 2) = None"
  by (rule openCamera_too_many_buffers [OF easy_os_grants])
    (simp_all add: easy_os_def fresh_sys_def Camera_new_def BUFFER_NR_def)

text \<open>Opening a camera that is already open never closes the descriptor it had: on success the
  log of closed descriptors is unchanged, although \<open>mFD\<close> is overwritten.\<close>

lemma openCamera_leaks_previous:
  assumes "openCamera os s = Some (r, s')" and "0 \<le> r"
  shows "closes (trace s') = closes (trace s) \<and> mFD (cam s') = os_open os (trace s) (mCameraDevPath (cam s))"
  using openCamera_cases [OF assms(1)] assms(2)
  by (auto dest: open_setup_closes open_setup_ok)

theorem openCamera_leaks_previous_witness:
  "\<exists>s'. openCamera (easy_os 4 2 []) ((fresh_sys 2 2)\<lparr>cam := (cam (fresh_sys 2 2))\<lparr>mFD := 3\<rparr>\<rparr>) = Some (4, s')
     \<and> closes (trace s') = []"
proof -
  let ?s = "(fresh_sys 2 2)\<lparr>cam := (cam (fresh_sys 2 2))\<lparr>mFD := 3\<rparr>\<rparr>"
  obtain s' where s': "openCamera (easy_os 4 2 []) ?s = Some (4, s')"
    using openCamera_grants [OF easy_os_grants, of 2 ?s 4 "[]"]
    by (auto simp: easy_os_def fresh_sys_def Camera_new_def BUFFER_NR_def)
  from openCamera_leaks_previous [OF this] s' show ?thesis by (auto simp: fresh_sys_def)
qed

end
