(* ===== verification/Frame_Convert.thy ===== *)
theory Frame_Convert
  imports Cam_Prelude
begin

text \<open>
  The pixel routines of \<open>com_hongdian_usbcamera_Camera.cpp\<close>: \<open>ALIGN\<close>,
  \<open>copyFrameCenterGravity\<close>, \<open>Camera::Yvyu2Yuv420\<close> and \<open>Camera::Yvyu2RGBA\<close>.
  Buffers are byte lists, pointers are offsets into them, an access outside a buffer is None.
  Each routine is proved equal to a reference description of the picture it produces. Sizes and offsets are
  unbounded; the theorems require buffers of at least the size of the picture, but do not
  bound that size to what an \<open>int\<close> of 32 bits can count.
\<close>

subsection \<open>Definitions\<close>

definition ALIGN :: "int \<Rightarrow> int \<Rightarrow> int" where
  "ALIGN x y = (x + y - 1) AND NOT (y - 1)"

text \<open>
  \<open>copyFrameCenterGravity\<close>: the refused size leaves the destination as it is; otherwise
  one row of \<open>dest_w\<close> pixels is copied per iteration, the loop state being
  (destination, \<open>copyed\<close>, \<open>src_off\<close>).
\<close>

definition copyFrameCenterGravity ::
    "mem \<Rightarrow> mem \<Rightarrow> int \<Rightarrow> int \<Rightarrow> int \<Rightarrow> int \<Rightarrow> nat \<Rightarrow> mem option" where
  "copyFrameCenterGravity dest src dest_w dest_h src_w src_h bpp_shift =
     (if src_w < dest_w \<or> src_h < dest_h then Some dest
      else
        let horizontal_margin = drop_bit 1 (src_w - dest_w + 1);
            vertical_margin = drop_bit 1 (src_h - dest_h + 1);
            src_off = push_bit bpp_shift (vertical_margin * src_w + horizontal_margin);
            copy_once = push_bit bpp_shift dest_w
        in map_option fst
             (for_loop 0 dest_h
               (\<lambda>i (dest, copyed, src_off). do {
                  dest \<leftarrow> memcpy dest copyed src src_off copy_once;
                  Some (dest, copyed + copy_once,
                        src_off + (copy_once + push_bit (bpp_shift + 1) horizontal_margin))
                })
               (dest, 0, src_off)))"

text \<open>
  \<open>Camera::Yvyu2Yuv420\<close>: one iteration of the inner loop on (buffer, Y, U, V), the
  three pointers being offsets into the output buffer.
\<close>

definition yuv420_px ::
    "mem \<Rightarrow> int \<Rightarrow> int \<Rightarrow> int \<Rightarrow> mem \<times> int \<times> int \<times> int \<Rightarrow> (mem \<times> int \<times> int \<times> int) option" where
  "yuv420_px yvyu width i j = (\<lambda>(yuv, Y, U, V). do {
     y1 \<leftarrow> rd yvyu ((cdiv (i * width) 2 + j) * 4);
     v \<leftarrow> rd yvyu ((cdiv (i * width) 2 + j) * 4 + 1);
     y2 \<leftarrow> rd yvyu ((cdiv (i * width) 2 + j) * 4 + 2);
     u \<leftarrow> rd yvyu ((cdiv (i * width) 2 + j) * 4 + 3);
     yuv \<leftarrow> wr yuv Y y1;
     yuv \<leftarrow> wr yuv (Y + 1) y2;
     if i mod 2 = 0 then do {
       yuv \<leftarrow> wr yuv U u;
       yuv \<leftarrow> wr yuv V v;
       Some (yuv, Y + 2, U + 1, V + 1)
     } else Some (yuv, Y + 2, U, V)
   })"

definition Yvyu2Yuv420 :: "mem \<Rightarrow> mem \<Rightarrow> int \<Rightarrow> int \<Rightarrow> mem option" where
  "Yvyu2Yuv420 yvyu yuv420 width height =
     (let Y = 0; U = width * height; V = U + cdiv (width * height) 4
      in map_option fst
           (for_loop 0 height
             (\<lambda>i. for_loop 0 (cdiv width 2) (yuv420_px yvyu width i))
             (yuv420, Y, U, V)))"

text \<open>
  \<open>Camera::Yvyu2RGBA\<close>. Whether a plain \<open>char\<close> is signed is the ABI's choice
  (unsigned on ARM, signed on x86): the model takes it as the argument \<open>sgnd\<close>.
\<close>

definition char_int :: "bool \<Rightarrow> byte \<Rightarrow> int" where
  "char_int sgnd b = (if sgnd then sint b else uint b)"

definition chroma_bias :: "int \<Rightarrow> int" where
  "chroma_bias c = (if c < 0 then c + 127 else c - 128)"

definition diff_r :: "int \<Rightarrow> int" where
  "diff_r Cr = Cr + drop_bit 2 Cr + drop_bit 3 Cr + drop_bit 5 Cr"

definition diff_g :: "int \<Rightarrow> int \<Rightarrow> int" where
  "diff_g Cb Cr = 0 - drop_bit 2 Cb + drop_bit 4 Cb + drop_bit 5 Cb
     - drop_bit 1 Cr + drop_bit 3 Cr + drop_bit 4 Cr + drop_bit 5 Cr"

definition diff_b :: "int \<Rightarrow> int" where
  "diff_b Cb = Cb + drop_bit 1 Cb + drop_bit 2 Cb + drop_bit 6 Cb"

definition clamp255 :: "int \<Rightarrow> int" where
  "clamp255 x = (if x < 0 then 0 else if x > 255 then 255 else x)"

definition rgba_word :: "int \<Rightarrow> int \<Rightarrow> int \<Rightarrow> 32 word" where
  "rgba_word R G B =
     0xff000000 + word_of_int (push_bit 16 B) + word_of_int (push_bit 8 G) + word_of_int (push_bit 0 R)"

definition rgba_pixel :: "int \<Rightarrow> int \<Rightarrow> int \<Rightarrow> 32 word" where
  "rgba_pixel Y Cb Cr =
     rgba_word (clamp255 (Y + diff_r Cr)) (clamp255 (Y + diff_g Cb Cr)) (clamp255 (Y + diff_b Cb))"

definition rgba_px ::
    "bool \<Rightarrow> mem \<Rightarrow> int \<Rightarrow> int \<Rightarrow> mem \<times> int \<times> int \<Rightarrow> (mem \<times> int \<times> int) option" where
  "rgba_px sgnd yvyu j i = (\<lambda>(rgbData, pixPtr, ptr). do {
     y0 \<leftarrow> rd yvyu ptr;
     cb \<leftarrow> rd yvyu (ptr + 1);
     y1 \<leftarrow> rd yvyu (ptr + 2);
     cr \<leftarrow> rd yvyu (ptr + 3);
     let Cb = chroma_bias (char_int sgnd cb);
     let Cr = chroma_bias (char_int sgnd cr);
     rgbData \<leftarrow> wr32 rgbData pixPtr (rgba_pixel (char_int sgnd y0) Cb Cr);
     rgbData \<leftarrow> wr32 rgbData (pixPtr + 1) (rgba_pixel (char_int sgnd y1) Cb Cr);
     Some (rgbData, pixPtr + 2, ptr + 4)
   })"

definition Yvyu2RGBA :: "bool \<Rightarrow> mem \<Rightarrow> mem \<Rightarrow> int \<Rightarrow> int \<Rightarrow> mem option" where
  "Yvyu2RGBA sgnd rgbData yvyu w h =
     map_option fst
       (for_loop 0 h (\<lambda>j. for_loop 0 (cdiv w 2) (rgba_px sgnd yvyu j)) (rgbData, 0, 0))"

subsection \<open>Alignment\<close>

lemma and_not_mask_int: "z AND NOT (mask k) = push_bit k (drop_bit k (z::int))"
  by (rule bit_eqI) (auto simp: bit_simps)

lemma ALIGN_pow2: "ALIGN x (2 ^ k) = (x + 2 ^ k - 1) div 2 ^ k * 2 ^ k"
proof -
  have "ALIGN x (2 ^ k) = (x + 2 ^ k - 1) AND NOT (mask k)"
    by (simp add: ALIGN_def mask_eq_exp_minus_1)
  then show ?thesis
    by (simp add: and_not_mask_int push_bit_eq_mult drop_bit_eq_div)
qed

lemma ALIGN_spec:
  "2 ^ k dvd ALIGN x (2 ^ k) \<and> x \<le> ALIGN x (2 ^ k) \<and> ALIGN x (2 ^ k) < x + 2 ^ k"
proof -
  let ?m = "(2::int) ^ k"
  have m: "0 < ?m" by simp
  have "(x + ?m - 1) div ?m * ?m = (x + ?m - 1) - (x + ?m - 1) mod ?m"
    by (simp add: minus_mod_eq_div_mult)
  moreover have "0 \<le> (x + ?m - 1) mod ?m" "(x + ?m - 1) mod ?m < ?m"
    using m by simp_all
  ultimately show ?thesis unfolding ALIGN_pow2 by (intro conjI) (simp, linarith, linarith)
qed

subsection \<open>The planar preview picture\<close>

text \<open>
  \<open>yv12_planes a b f\<close> is the YV12 picture of the packed frame \<open>f\<close> of width \<open>2 * a\<close>
  and height \<open>2 * b\<close>: every luma byte, then the plane of fourth bytes and the plane of
  second bytes of the pixel pairs of the even rows. The loops are followed by the invariant
  \<open>yv12_inv\<close>: how many luma and chroma bytes are in place.
\<close>

definition yv12_inv where
  "yv12_inv a b f m0 y c = (\<lambda>(m, Y, U, V). length m = length m0 \<and> Y = int y \<and> U = int (4 * (a * b) + c) \<and>
     V = int (5 * (a * b) + c) \<and> (\<forall>k<y. m ! k = f ! (2 * k)) \<and>
     (\<forall>k<c. m ! (4 * (a * b) + k) = f ! (4 * (2 * (k div a) * a + k mod a) + 3) \<and>
            m ! (5 * (a * b) + k) = f ! (4 * (2 * (k div a) * a + k mod a) + 1)) \<and>
     (\<forall>k. 6 * (a * b) \<le> k \<longrightarrow> k < length m0 \<longrightarrow> m ! k = m0 ! k))"

lemma yuv420_px_inv:
  assumes I: "yv12_inv a b f m0 y c st" and y: "y = 2 * (i * a + j)" and j: "j < a" and i: "i < 2 * b"
    and c: "even i \<Longrightarrow> c = (i div 2) * a + j" "c \<le> a * b"
    and len: "6 * (a * b) \<le> length m0" "8 * (a * b) \<le> length f"
  shows "\<exists>st'. yuv420_px f (2 * int a) (int i) (int j) st = Some st' \<and>
    yv12_inv a b f m0 (y + 2) (if even i then c + 1 else c) st'"
proof -
  obtain m Y U V where st: "st = (m, Y, U, V)" by (cases st)
  note J = I [unfolded st yv12_inv_def prod.case]
  have "i * a + j + 1 \<le> (i + 1) * a" using j by simp
  also have "\<dots> \<le> 2 * b * a" using i by (intro mult_right_mono) auto
  finally have n: "i * a + j < 2 * (a * b)" by (simp add: algebra_simps)
  have idx: "(cdiv (int i * (2 * int a)) 2 + int j) * 4 = int (4 * (i * a + j))"
    by (simp add: algebra_simps)
  have cc: "c < a * b" if "even i"
  proof -
    have "c + 1 \<le> (i div 2 + 1) * a" using c(1) that j by simp
    also have "\<dots> \<le> b * a" using i that by (intro mult_right_mono) auto
    finally show ?thesis by (simp add: algebra_simps)
  qed
  define q where "q = i * a + j"
  have q: "y = 2 * q" "q < 2 * (a * b)" using y n by (simp_all add: q_def)
  have idx: "(cdiv (int i * (2 * int a)) 2 + int j) * 4 = int (4 * q)"
    by (simp add: algebra_simps q_def)
  have reads: "rd f (int (4 * q)) = Some (f ! (4 * q))"
    "rd f (int (4 * q) + 1) = Some (f ! (4 * q + 1))"
    "rd f (int (4 * q) + 2) = Some (f ! (4 * q + 2))"
    "rd f (int (4 * q) + 3) = Some (f ! (4 * q + 3))"
    by (rule rd_nat; use q(2) len(2) in simp)+
  have wy: "wr m Y p = Some (m[y := p])" "wr (m[y := p]) (Y + 1) p' = Some (m[y := p, y + 1 := p'])" for p p'
    by (rule wr_nat; use J q len in simp)+
  have ev: "(int i mod 2 = 0) = even i" by presburger
  show ?thesis
  proof (cases "even i")
    case True
    have k: "c div a = i div 2" "c mod a = j" using c(1) True j by simp_all
    have src: "4 * (2 * (c div a) * a + c mod a) = 4 * q" using True k by (simp add: q_def)
    have w: "wr (m[y := p, y + 1 := p']) U p2 = Some (m[y := p, y + 1 := p', 4 * (a * b) + c := p2])"
      "wr (m[y := p, y + 1 := p', 4 * (a * b) + c := p2]) V p3 =
         Some (m[y := p, y + 1 := p', 4 * (a * b) + c := p2, 5 * (a * b) + c := p3])" for p p' p2 p3
      by (rule wr_nat; use J cc [OF True] len in simp)+
    define r where "r = m[y := f ! (4 * q), y + 1 := f ! (4 * q + 2),
      4 * (a * b) + c := f ! (4 * q + 3), 5 * (a * b) + c := f ! (4 * q + 1)]"
    have "yuv420_px f (2 * int a) (int i) (int j) st = Some (r, Y + 2, U + 1, V + 1)"
      unfolding st yuv420_px_def prod.case idx reads bind.bind_lunit wy w ev r_def using True by simp
    moreover have "yv12_inv a b f m0 (y + 2) (c + 1) (r, Y + 2, U + 1, V + 1)"
      using J q cc [OF True] len src unfolding yv12_inv_def prod.case r_def
      by (auto simp: nth_list_update less_Suc_eq)
    ultimately show ?thesis using True by simp
  next
    case False
    define r where "r = m[y := f ! (4 * q), y + 1 := f ! (4 * q + 2)]"
    have "yuv420_px f (2 * int a) (int i) (int j) st = Some (r, Y + 2, U, V)"
      unfolding st yuv420_px_def prod.case idx reads bind.bind_lunit wy ev r_def using False by simp
    moreover have "yv12_inv a b f m0 (y + 2) c (r, Y + 2, U, V)"
      using J q c(2) len unfolding yv12_inv_def prod.case r_def
      by (auto simp: nth_list_update less_Suc_eq)
    ultimately show ?thesis using False by simp
  qed
qed

definition yv12_planes :: "nat \<Rightarrow> nat \<Rightarrow> mem \<Rightarrow> mem" where
  "yv12_planes a b f =
     map (\<lambda>k. f ! (2 * k)) [0..<4 * (a * b)] @
     map (\<lambda>k. f ! (4 * (2 * (k div a) * a + k mod a) + 3)) [0..<a * b] @
     map (\<lambda>k. f ! (4 * (2 * (k div a) * a + k mod a) + 1)) [0..<a * b]"

lemma chroma_rows: "(i + 1) div 2 * a \<le> a * b" if "i < 2 * b" for i a b :: nat
proof -
  have "(i + 1) div 2 * a \<le> b * a" using that by (intro mult_right_mono) auto
  then show ?thesis by (simp add: mult.commute)
qed

lemma yuv420_row:
  assumes I: "yv12_inv a b f m0 (2 * (i * a)) ((i + 1) div 2 * a) st" and i: "i < 2 * b"
    and len: "6 * (a * b) \<le> length m0" "8 * (a * b) \<le> length f"
  shows "\<exists>st'. for_loop 0 (int a) (yuv420_px f (2 * int a) (int i)) st = Some st' \<and>
    yv12_inv a b f m0 (2 * ((i + 1) * a)) ((i + 2) div 2 * a) st'"
proof -
  let ?I = "\<lambda>j. yv12_inv a b f m0 (2 * (i * a + nat j)) ((i + 1) div 2 * a + (if even i then nat j else 0))"
  have "\<exists>st'. for_loop 0 (int a) (yuv420_px f (2 * int a) (int i)) st = Some st' \<and> ?I (int a) st'"
  proof (rule for_loop_rule [where I = ?I])
    fix j :: int and s assume j: "0 \<le> j" "j < int a" and s: "?I j s"
    have jj: "int (nat j) = j" "nat j < a" "nat (j + 1) = nat j + 1" using j by auto
    have "\<exists>st'. yuv420_px f (2 * int a) (int i) (int (nat j)) s = Some st' \<and>
      yv12_inv a b f m0 (2 * (i * a + nat j) + 2)
        (if even i then (i + 1) div 2 * a + (if even i then nat j else 0) + 1
         else (i + 1) div 2 * a + (if even i then nat j else 0)) st'"
    proof (rule yuv420_px_inv [OF s refl jj(2) i _ _ len])
      show "(i + 1) div 2 * a + (if even i then nat j else 0) \<le> a * b"
      proof (cases "even i")
        case True
        have "(i + 1) div 2 * a + nat j \<le> ((i + 1) + 1) div 2 * a" using True jj(2) by simp
        also have "\<dots> \<le> a * b" using chroma_rows [of "i + 1" b a] i True by presburger
        finally show ?thesis using True by simp
      qed (use chroma_rows [OF i] in simp)
    qed simp
    then show "\<exists>s'. yuv420_px f (2 * int a) (int i) j s = Some s' \<and> ?I (j + 1) s'"
      using jj by (cases "even i") (simp_all add: add.assoc)
  qed (use I in \<open>(cases "even i"; simp)+\<close>)
  moreover have "(i + 1) div 2 * a + (if even i then a else 0) = (i + 2) div 2 * a"
    by (cases "even i") auto
  moreover have "2 * (i * a + a) = 2 * ((i + 1) * a)" by simp
  ultimately show ?thesis by (simp only: nat_int)
qed

lemma Yvyu2Yuv420_planes:
  assumes len: "6 * (a * b) \<le> length m0" "8 * (a * b) \<le> length f"
  shows "Yvyu2Yuv420 f m0 (2 * int a) (2 * int b) = Some (yv12_planes a b f @ drop (6 * (a * b)) m0)"
proof -
  let ?I = "\<lambda>i. yv12_inv a b f m0 (2 * (nat i * a)) ((nat i + 1) div 2 * a)"
  let ?s0 = "(m0, 0, 2 * int a * (2 * int b), 2 * int a * (2 * int b) + cdiv (2 * int a * (2 * int b)) 4)"
  have "\<exists>st'. for_loop 0 (2 * int b) (\<lambda>i. for_loop 0 (cdiv (2 * int a) 2) (yuv420_px f (2 * int a) i)) ?s0
      = Some st' \<and> ?I (2 * int b) st'"
  proof (rule for_loop_rule [where I = ?I])
    fix i :: int and s assume i: "0 \<le> i" "i < 2 * int b" and s: "?I i s"
    have ii: "int (nat i) = i" "nat i < 2 * b" "nat (i + 1) = nat i + 1" using i by auto
    show "\<exists>s'. for_loop 0 (cdiv (2 * int a) 2) (yuv420_px f (2 * int a) i) s = Some s' \<and> ?I (i + 1) s'"
      using yuv420_row [OF s ii(2) len] ii by simp
  qed (simp_all add: yv12_inv_def)
  then obtain m Y U V where m: "for_loop 0 (2 * int b)
      (\<lambda>i. for_loop 0 (cdiv (2 * int a) 2) (yuv420_px f (2 * int a) i)) ?s0 = Some (m, Y, U, V)"
    and I: "?I (2 * int b) (m, Y, U, V)" by (metis prod_cases4)
  have n: "nat (2 * int b) = 2 * b" by simp
  have ab: "2 * (2 * b * a) = 4 * (a * b)" "(2 * b + 1) div 2 * a = a * b" by simp_all
  note J = I [unfolded n ab yv12_inv_def prod.case]
  have "m = yv12_planes a b f @ drop (6 * (a * b)) m0"
    using J len by (intro nth_equalityI) (auto simp: yv12_planes_def nth_append)
  then show ?thesis using m by (simp add: Yvyu2Yuv420_def)
qed

text \<open>An odd height: the V pointer runs past the allocation of \<open>width * height * 3 / 2\<close>.\<close>

lemma yuv420_px_V:
  assumes "yuv420_px f w i j (m, Y, U, V) = Some (m', Y', U', V')"
  shows "length m' = length m \<and> V' = V + (if i mod 2 = 0 then 1 else 0) \<and> (i mod 2 = 0 \<longrightarrow> V < int (length m))"
  using assms
  by (auto simp: yuv420_px_def Option.bind_eq_Some_conv wr_def split: if_splits)

lemma Yvyu2Yuv420_odd_height:
  assumes a: "2 \<le> a" and len: "length m0 = 3 * a * (2 * b + 1)"
  shows "Yvyu2Yuv420 f m0 (2 * int a) (2 * int b + 1) = None"
proof -
  define x where "x = int a * (2 * int b + 1)"
  let ?V0 = "2 * x + x div 2" and ?L = "int (length m0)"
  let ?P = "\<lambda>V' (m, Y :: int, U :: int, V). length m = length m0 \<and> V = ?V0 + V' \<and> (0 < V' \<longrightarrow> V \<le> ?L)"
  have c4: "cdiv (2 * x) 4 = x div 2" using a by (simp add: x_def)
  have start: "2 * int a * (2 * int b + 1) = 2 * x"
    "2 * int a * (2 * int b + 1) + cdiv (2 * int a * (2 * int b + 1)) 4 = ?V0"
    using c4 by (simp_all add: x_def mult.assoc)
  have row: "?P ((i + 1 + 1) div 2 * int a) t"
    if s: "?P ((i + 1) div 2 * int a) s" and t: "for_loop 0 (int a) (yuv420_px f (2 * int a) i) s = Some t" for i s t
  proof -
    let ?J = "\<lambda>j. ?P ((i + 1) div 2 * int a + (if i mod 2 = 0 then j else 0))"
    have "?J (int a) t"
      using t
    proof (rule for_loop_partial [where I = ?J])
      fix j :: int and u u' assume u: "?J j u" and st: "yuv420_px f (2 * int a) i j u = Some u'"
      obtain m Y U V where m: "u = (m, Y, U, V)" by (cases u)
      obtain m' Y' U' V' where m': "u' = (m', Y', U', V')" by (cases u')
      show "?J (j + 1) u'"
        using yuv420_px_V [OF st [unfolded m m']] u unfolding m m' prod.case by auto
    qed (use s in \<open>auto simp: split_beta\<close>)
    moreover have "(i + 1) div 2 * int a + (if i mod 2 = 0 then int a else 0) = (i + 1 + 1) div 2 * int a"
    proof (cases "i mod 2 = 0")
      case True
      then have "(i + 1 + 1) div 2 = (i + 1) div 2 + 1" by presburger
      then show ?thesis using True by (simp add: distrib_right)
    next
      case False
      then have "(i + 1 + 1) div 2 = (i + 1) div 2" by presburger
      then show ?thesis using False by simp
    qed
    ultimately show ?thesis by simp
  qed
  let ?loop = "for_loop 0 (2 * int b + 1) (\<lambda>i. for_loop 0 (cdiv (2 * int a) 2) (yuv420_px f (2 * int a) i))
      (m0, 0, 2 * int a * (2 * int b + 1), 2 * int a * (2 * int b + 1) + cdiv (2 * int a * (2 * int b + 1)) 4)"
  have inv: "?P ((2 * int b + 1 + 1) div 2 * int a) t" if "?loop = Some t" for t
    using that
  proof (rule for_loop_partial [where I = "\<lambda>i. ?P ((i + 1) div 2 * int a)"])
    show "?P ((i + 1 + 1) div 2 * int a) s'"
      if "?P ((i + 1) div 2 * int a) s"
        and "for_loop 0 (cdiv (2 * int a) 2) (yuv420_px f (2 * int a) i) s = Some s'" for i s s'
      using row [OF that(1)] that(2) by simp
  qed (simp_all add: start c4)
  have L: "?L = 3 * x" by (simp add: len x_def algebra_simps)
  have "(2 * int b + 1 + 1) div 2 = int b + 1" by simp
  moreover have "3 * x < ?V0 + (1 + int b) * int a"
  proof -
    have xx: "x = 2 * (int a * int b) + int a" by (simp add: x_def algebra_simps)
    have "(1 + int b) * int a = int a * int b + int a" by (simp add: algebra_simps)
    then show ?thesis using a xx by linarith
  qed
  ultimately have no: "\<not> ?P ((2 * int b + 1 + 1) div 2 * int a) (m, Y, U, V)" for m Y U V
    using a L by auto
  show ?thesis
  proof (cases ?loop)
    case (Some t)
    then show ?thesis using inv [OF Some] no by (cases t) blast
  qed (simp add: Yvyu2Yuv420_def)
qed

subsection \<open>The centred crop\<close>

text \<open>\<open>crop_ref\<close>: \<open>rows\<close> rows of \<open>len\<close> bytes, taken every \<open>adv\<close> bytes from \<open>start\<close>.\<close>

definition crop_ref :: "mem \<Rightarrow> mem \<Rightarrow> nat \<Rightarrow> nat \<Rightarrow> nat \<Rightarrow> nat \<Rightarrow> mem" where
  "crop_ref dest src start adv len rows =
     concat (map (\<lambda>i. take len (drop (start + i * adv) src)) [0..<rows]) @ drop (rows * len) dest"

lemma crop_loop:
  assumes dst: "rows * len \<le> length dest" and src: "\<And>i. i < rows \<Longrightarrow> start + i * adv + len \<le> length src"
  shows "for_loop 0 (int rows)
           (\<lambda>i (dest, copyed, src_off). do {
              dest \<leftarrow> memcpy dest copyed src src_off (int len);
              Some (dest, copyed + int len, src_off + int adv) })
           (dest, 0, int start)
         = Some (crop_ref dest src start adv len rows, int (rows * len), int (start + rows * adv))"
    (is "for_loop _ _ ?f _ = _")
proof -
  let ?I = "\<lambda>i s. s = (crop_ref dest src start adv len (nat i), int (nat i * len), int (start + nat i * adv))"
  have "\<exists>s'. for_loop 0 (int rows) ?f (dest, 0, int start) = Some s' \<and> ?I (int rows) s'"
  proof (rule for_loop_rule [where I = ?I])
    fix i :: int and s assume i: "0 \<le> i" "i < int rows" and s: "?I i s"
    define k where "k = nat i"
    have k: "i = int k" "k < rows" "nat (i + 1) = Suc k" using i by (auto simp: k_def)
    let ?pre = "concat (map (\<lambda>i. take len (drop (start + i * adv) src)) [0..<k])"
    have pre: "length ?pre = k * len"
    proof (subst length_concat_const [where n = len])
      show "length (take len (drop (start + x * adv) src)) = len" if "x \<in> set [0..<k]" for x
        using src [of x] that k(2) by simp
    qed simp
    have "(k + 1) * len \<le> rows * len" using k(2) by (intro mult_right_mono) auto
    then have room: "len \<le> length (drop (k * len) dest)" using dst by (simp add: algebra_simps)
    have "memcpy (?pre @ drop (k * len) dest) (int (k * len)) src (int (start + k * adv)) (int len)
        = Some (?pre @ take len (drop (start + k * adv) src) @ drop len (drop (k * len) dest))"
      by (rule memcpy_append) (use pre room src [OF k(2)] in simp_all)
    then have "?f i s = Some (crop_ref dest src start adv len (Suc k), int (Suc k * len),
        int (start + Suc k * adv))"
      unfolding s k(1) nat_int crop_ref_def prod.case
      by simp
    then show "\<exists>s'. ?f i s = Some s' \<and> ?I (i + 1) s'" unfolding k(3) by blast
  qed (simp_all add: crop_ref_def)
  then show ?thesis by simp
qed


lemma copyFrameCenterGravity_unfold:
  assumes "dw \<le> sw" "dh \<le> sh"
  shows "copyFrameCenterGravity dest src (int dw) (int dh) (int sw) (int sh) b =
    map_option fst (for_loop 0 (int dh)
           (\<lambda>i (dest, copyed, src_off). do {
              dest \<leftarrow> memcpy dest copyed src src_off (int (dw * 2 ^ b));
              Some (dest, copyed + int (dw * 2 ^ b), src_off + int ((dw + 2 * ((sw - dw + 1) div 2)) * 2 ^ b)) })
           (dest, 0, int (((sh - dh + 1) div 2 * sw + (sw - dw + 1) div 2) * 2 ^ b)))"
proof -
  have hm: "drop_bit 1 (int sw - int dw + 1) = int ((sw - dw + 1) div 2)"
    "drop_bit 1 (int sh - int dh + 1) = int ((sh - dh + 1) div 2)"
    using assms by (simp_all add: drop_bit_eq_div zdiv_int of_nat_diff)
  have so: "push_bit b (int ((sh - dh + 1) div 2) * int sw + int ((sw - dw + 1) div 2))
      = int (((sh - dh + 1) div 2 * sw + (sw - dw + 1) div 2) * 2 ^ b)"
    by (simp add: push_bit_eq_mult)
  have co: "push_bit b (int dw) = int (dw * 2 ^ b)" by (simp add: push_bit_eq_mult)
  have ad: "int (dw * 2 ^ b) + push_bit (b + 1) (int ((sw - dw + 1) div 2))
      = int ((dw + 2 * ((sw - dw + 1) div 2)) * 2 ^ b)"
    by (simp add: push_bit_eq_mult algebra_simps)
  have g: "\<not> (int sw < int dw \<or> int sh < int dh)" using assms by simp
  show ?thesis
    unfolding copyFrameCenterGravity_def Let_def hm so co ad using g by simp
qed

lemma copyFrameCenterGravity_rows:
  assumes "dw \<le> sw" "dh \<le> sh" and dst: "dh * (dw * 2 ^ b) \<le> length dest"
    and src: "\<And>i. i < dh \<Longrightarrow> ((sh - dh + 1) div 2 * sw + (sw - dw + 1) div 2) * 2 ^ b
        + i * ((dw + 2 * ((sw - dw + 1) div 2)) * 2 ^ b) + dw * 2 ^ b \<le> length src"
  shows "copyFrameCenterGravity dest src (int dw) (int dh) (int sw) (int sh) b =
    Some (crop_ref dest src (((sh - dh + 1) div 2 * sw + (sw - dw + 1) div 2) * 2 ^ b)
       ((dw + 2 * ((sw - dw + 1) div 2)) * 2 ^ b) (dw * 2 ^ b) dh)"
  by (simp only: copyFrameCenterGravity_unfold [OF assms(1,2)] crop_loop [OF dst src] option.map(2) fst_conv)

lemma copyFrameCenterGravity_even:
  assumes "dw \<le> sw" "dh \<le> sh" "even (sw - dw)"
    and dst: "dh * (dw * 2 ^ b) \<le> length dest" and src: "sw * sh * 2 ^ b \<le> length src"
  shows "copyFrameCenterGravity dest src (int dw) (int dh) (int sw) (int sh) b =
    Some (crop_ref dest src (((sh - dh + 1) div 2 * sw + (sw - dw) div 2) * 2 ^ b)
       (sw * 2 ^ b) (dw * 2 ^ b) dh)"
proof -
  let ?vm = "(sh - dh + 1) div 2" and ?hm = "(sw - dw) div 2"
  have hm: "(sw - dw + 1) div 2 = ?hm" and adv: "dw + 2 * ?hm = sw" "?hm + dw \<le> sw"
    using assms(1,3) by (auto elim!: evenE)
  have "(?vm * sw + ?hm) * 2 ^ b + i * (sw * 2 ^ b) + dw * 2 ^ b \<le> length src" if "i < dh" for i
  proof -
    have "?vm + i + 1 \<le> sh" using that assms(2) by linarith
    then have "(?vm + i + 1) * sw \<le> sh * sw" by (intro mult_right_mono) auto
    then have "?vm * sw + ?hm + i * sw + dw \<le> sw * sh" using adv(2) by (simp add: algebra_simps)
    then have "(?vm * sw + ?hm + i * sw + dw) * 2 ^ b \<le> sw * sh * 2 ^ b" by (intro mult_right_mono) auto
    then show ?thesis using src by (simp add: algebra_simps)
  qed
  then show ?thesis
    using copyFrameCenterGravity_rows [OF assms(1,2) dst, of src, unfolded hm adv(1)] by blast
qed

lemma copyFrameCenterGravity_odd_fault:
  assumes "1 < dh" and src: "length src = (dw + 1) * dh * 2 ^ b"
  shows "copyFrameCenterGravity dest src (int dw) (int dh) (int (dw + 1)) (int dh) b = None"
proof -
  define B P Q where "B = int (2 ^ b)" and "P = int (dw * 2 ^ b)" and "Q = int ((dw + 2) * 2 ^ b)"
  have Q: "Q = P + 2 * B" and B: "0 < B" by (simp_all add: B_def P_def Q_def algebra_simps)
  have len: "int (length src) = int dh * P + int dh * B"
    by (simp add: src B_def P_def algebra_simps)
  let ?f = "\<lambda>i (dest, copyed, src_off). do {
              dest \<leftarrow> memcpy dest copyed src src_off P;
              Some (dest, copyed + P, src_off + Q) }"
  let ?I = "\<lambda>i (d :: mem, c :: int, off). off = B + i * Q \<and> (0 < i \<longrightarrow> off - 2 * B \<le> int (length src))"
  have cf: "copyFrameCenterGravity dest src (int dw) (int dh) (int (dw + 1)) (int dh) b =
      map_option fst (for_loop 0 (int dh) ?f (dest, 0, B))"
    using copyFrameCenterGravity_unfold [of dw "dw + 1" dh dh dest src b] by (simp add: B_def P_def Q_def)
  have inv: "?I (int dh) t" if "for_loop 0 (int dh) ?f (dest, 0, B) = Some t" for t
    using that
  proof (rule for_loop_partial [where I = ?I])
    fix i :: int and s s' assume i: "0 \<le> i" and s: "?I i s" and step: "?f i s = Some s'"
    obtain d c off where d: "s = (d, c, off)" by (cases s)
    from step d obtain d' where s': "memcpy d c src off P = Some d'" "s' = (d', c + P, off + Q)"
      by (auto simp: Option.bind_eq_Some_conv)
    show "?I (i + 1) s'"
      using memcpy_SomeD [OF s'(1)] s i Q by (simp add: d s'(2) distrib_right)
  qed simp_all
  have no: "\<not> ?I (int dh) (d, c, off)" for d c off
  proof
    assume "?I (int dh) (d, c, off)"
    then have "B + int dh * Q - 2 * B \<le> int dh * P + int dh * B" using assms(1) len by simp
    then have "int dh * B \<le> B" by (simp add: Q algebra_simps)
    moreover have "1 * B < int dh * B" using assms(1) B by (intro mult_strict_right_mono) auto
    ultimately show False by simp
  qed
  show ?thesis
    unfolding cf
  proof (cases "for_loop 0 (int dh) ?f (dest, 0, B)")
    case (Some t)
    then show "map_option fst (for_loop 0 (int dh) ?f (dest, 0, B)) = None"
      using inv [OF Some] no by (cases t) blast
  qed simp
qed


subsection \<open>The RGBA picture\<close>


definition rgba_at :: "bool \<Rightarrow> mem \<Rightarrow> nat \<Rightarrow> 32 word" where
  "rgba_at sgnd f k = rgba_pixel (char_int sgnd (f ! (2 * k)))
     (chroma_bias (char_int sgnd (f ! (4 * (k div 2) + 1)))) (chroma_bias (char_int sgnd (f ! (4 * (k div 2) + 3))))"

definition rgba_frame :: "bool \<Rightarrow> nat \<Rightarrow> mem \<Rightarrow> mem" where
  "rgba_frame sgnd n f = concat (map (\<lambda>k. le_bytes (rgba_at sgnd f k)) [0..<n])"

lemma rgba_frame_length [simp]: "length (rgba_frame sgnd n f) = 4 * n"
  by (simp add: rgba_frame_def length_concat_const [where n = 4])

lemma rgba_px_step:
  assumes "8 * (p + 1) \<le> length m0" "4 * (p + 1) \<le> length f"
  shows "rgba_px sgnd f j i (rgba_frame sgnd (2 * p) f @ drop (8 * p) m0, int (2 * p), int (4 * p)) =
    Some (rgba_frame sgnd (2 * (p + 1)) f @ drop (8 * (p + 1)) m0, int (2 * (p + 1)), int (4 * (p + 1)))"
proof -
  have reads: "rd f (int (4 * p)) = Some (f ! (4 * p))" "rd f (int (4 * p) + 1) = Some (f ! (4 * p + 1))"
    "rd f (int (4 * p) + 2) = Some (f ! (4 * p + 2))" "rd f (int (4 * p) + 3) = Some (f ! (4 * p + 3))"
    by (rule rd_nat; use assms(2) in simp)+
  have w1: "wr32 (rgba_frame sgnd (2 * p) f @ drop (8 * p) m0) (int (2 * p)) (rgba_at sgnd f (2 * p)) =
      Some ((rgba_frame sgnd (2 * p) f @ le_bytes (rgba_at sgnd f (2 * p))) @ drop (4 + 8 * p) m0)"
    using assms by (subst wr32_append) (simp_all add: add.commute)
  have w2: "wr32 ((rgba_frame sgnd (2 * p) f @ le_bytes (rgba_at sgnd f (2 * p))) @ drop (4 + 8 * p) m0)
      (int (2 * p) + 1) (rgba_at sgnd f (2 * p + 1)) =
      Some ((rgba_frame sgnd (2 * p) f @ le_bytes (rgba_at sgnd f (2 * p))) @ le_bytes (rgba_at sgnd f (2 * p + 1))
         @ drop (8 + 8 * p) m0)"
    using assms by (subst wr32_append) (simp_all add: add.commute)
  have px: "rgba_pixel (char_int sgnd (f ! (4 * p))) (chroma_bias (char_int sgnd (f ! (4 * p + 1))))
       (chroma_bias (char_int sgnd (f ! (4 * p + 3)))) = rgba_at sgnd f (2 * p)"
    "rgba_pixel (char_int sgnd (f ! (4 * p + 2))) (chroma_bias (char_int sgnd (f ! (4 * p + 1))))
       (chroma_bias (char_int sgnd (f ! (4 * p + 3)))) = rgba_at sgnd f (2 * p + 1)"
    by (simp_all add: rgba_at_def)
  have "rgba_frame sgnd (2 * (p + 1)) f = rgba_frame sgnd (2 * p) f @ le_bytes (rgba_at sgnd f (2 * p)) @ le_bytes (rgba_at sgnd f (2 * p + 1))"
    by (simp add: rgba_frame_def)
  then show ?thesis
    unfolding rgba_px_def prod.case reads bind.bind_lunit Let_def px w1 w2 by simp
qed

lemma rgba_row:
  assumes "8 * (p + a) \<le> length m0" "4 * (p + a) \<le> length f"
  shows "for_loop 0 (int a) (rgba_px sgnd f j) (rgba_frame sgnd (2 * p) f @ drop (8 * p) m0, int (2 * p), int (4 * p)) =
    Some (rgba_frame sgnd (2 * (p + a)) f @ drop (8 * (p + a)) m0, int (2 * (p + a)), int (4 * (p + a)))"
proof -
  let ?s = "\<lambda>q. (rgba_frame sgnd (2 * q) f @ drop (8 * q) m0, int (2 * q), int (4 * q))"
  have "\<exists>s'. for_loop 0 (int a) (rgba_px sgnd f j) (?s p) = Some s' \<and> s' = ?s (p + nat (int a))"
  proof (rule for_loop_rule [where I = "\<lambda>i s. s = ?s (p + nat i)"])
    fix i :: int and s assume i: "0 \<le> i" "i < int a" and s: "s = ?s (p + nat i)"
    have "nat i < a" "p + nat (i + 1) = p + nat i + 1" using i by auto
    then show "\<exists>s'. rgba_px sgnd f j i s = Some s' \<and> s' = ?s (p + nat (i + 1))"
      using rgba_px_step [of "p + nat i" m0 f sgnd j i] assms unfolding s by simp
  qed simp_all
  then show ?thesis by simp
qed

lemma Yvyu2RGBA_frame:
  assumes "8 * (a * h) \<le> length m0" "4 * (a * h) \<le> length f"
  shows "Yvyu2RGBA sgnd m0 f (2 * int a) (int h) = Some (rgba_frame sgnd (2 * (a * h)) f @ drop (8 * (a * h)) m0)"
proof -
  let ?s = "\<lambda>q. (rgba_frame sgnd (2 * q) f @ drop (8 * q) m0, int (2 * q), int (4 * q))"
  have z: "?s 0 = (m0, 0, 0)" by (simp add: rgba_frame_def)
  have "\<exists>s'. for_loop 0 (int h) (\<lambda>j. for_loop 0 (cdiv (2 * int a) 2) (rgba_px sgnd f j)) (m0, 0, 0) = Some s'
     \<and> s' = ?s (nat (int h) * a)"
  proof (rule for_loop_rule [where I = "\<lambda>i s. s = ?s (nat i * a)"])
    fix i :: int and s assume i: "0 \<le> i" "i < int h" and s: "s = ?s (nat i * a)"
    have n: "nat i < h" "nat (i + 1) * a = nat i * a + a" using i by (auto simp: nat_add_distrib)
    have "(nat i + 1) * a \<le> h * a" using n by (intro mult_right_mono) auto
    then have "8 * (nat i * a + a) \<le> length m0" "4 * (nat i * a + a) \<le> length f"
      using assms by (simp_all add: mult.commute)
    from rgba_row [OF this, of sgnd i] n(2)
    show "\<exists>s'. for_loop 0 (cdiv (2 * int a) 2) (rgba_px sgnd f i) s = Some s' \<and> s' = ?s (nat (i + 1) * a)"
      unfolding s by simp
  qed (simp_all add: z [symmetric])
  then show ?thesis by (simp add: Yvyu2RGBA_def mult.commute)
qed

subsection \<open>Colour arithmetic\<close>

lemma ucast_drop_word_of_int:
  assumes "0 \<le> n" "n < 2 ^ 32"
  shows "(ucast (drop_bit k (word_of_int n :: 32 word)) :: byte) = word_of_int (n div 2 ^ k)"
proof -
  have "uint (drop_bit k (word_of_int n :: 32 word)) = n div 2 ^ k"
    using assms by (simp add: unsigned_drop_bit_eq uint_word_of_int take_bit_int_eq_self flip: drop_bit_eq_div)
  then show ?thesis by (metis ucast_eq)
qed

lemma byte_split: "0 \<le> r \<Longrightarrow> r < 256 \<Longrightarrow> (q * 256 + r) div 256 = q \<and> (q * 256 + r) mod 256 = (r :: int)"
  by auto

lemma rgba_word_bytes:
  assumes "0 \<le> R" "R \<le> 255" "0 \<le> G" "G \<le> 255" "0 \<le> B" "B \<le> 255"
  shows "le_bytes (rgba_word R G B) = [word_of_int R, word_of_int G, word_of_int B, 255]"
proof -
  define n where "n = 0xff000000 + B * 65536 + G * 256 + R"
  have w: "rgba_word R G B = word_of_int n"
    by (simp add: rgba_word_def n_def push_bit_eq_mult wi_hom_add)
  have n: "0 \<le> n" "n < 2 ^ 32" using assms by (simp_all add: n_def)
  have n3: "n = ((255 * 256 + B) * 256 + G) * 256 + R" by (simp add: n_def)
  have d1: "n div 2 ^ 8 = (255 * 256 + B) * 256 + G" and m0: "n mod 256 = R"
    using byte_split [of R "(255 * 256 + B) * 256 + G"] assms by (simp_all add: n3)
  have d2: "n div 2 ^ 16 = 255 * 256 + B"
    using byte_split [of G "255 * 256 + B"] assms d1 zdiv_zmult2_eq [of 256 n 256] by simp
  have d3: "n div 2 ^ 24 = 255"
    using byte_split [of B 255] assms d2 zdiv_zmult2_eq [of 256 n 65536] by simp
  have m: "n div 2 ^ 8 mod 256 = G" "n div 2 ^ 16 mod 256 = B" "n div 2 ^ 24 mod 256 = 255" "n mod 256 = R"
    using byte_split [of G "255 * 256 + B"] byte_split [of B 255] assms by (simp_all only: d1 d2 d3 m0) simp_all
  have wi: "(word_of_int x :: byte) = word_of_int (x mod 256)" for x
    by (simp add: word_of_int_eq_iff take_bit_eq_mod)
  show ?thesis
    using ucast_drop_word_of_int [OF n, of 0] ucast_drop_word_of_int [OF n, of 8]
      ucast_drop_word_of_int [OF n, of 16] ucast_drop_word_of_int [OF n, of 24] wi [of n]
      wi [of "n div 2 ^ 8"] wi [of "n div 2 ^ 16"] wi [of "n div 2 ^ 24"] m
    by (simp add: le_bytes_def w)
qed

lemma clamp255_range [simp]: "0 \<le> clamp255 x" "clamp255 x \<le> 255"
  by (simp_all add: clamp255_def)

lemma clamp255_id: "0 \<le> x \<Longrightarrow> x \<le> 255 \<Longrightarrow> clamp255 x = x"
  by (simp add: clamp255_def)

lemma rgba_pixel_bytes:
  "le_bytes (rgba_pixel Y Cb Cr) =
     [word_of_int (clamp255 (Y + diff_r Cr)), word_of_int (clamp255 (Y + diff_g Cb Cr)),
      word_of_int (clamp255 (Y + diff_b Cb)), 255]"
  unfolding rgba_pixel_def by (rule rgba_word_bytes) simp_all

lemma neutral_grey:
  "le_bytes (rgba_pixel (char_int False y) (chroma_bias (char_int False 128)) (chroma_bias (char_int False 128)))
   = [y, y, y, 255]"
proof -
  have "uint y \<le> 255" using uint_lt2p [of y] by simp
  then show ?thesis
    by (simp add: rgba_pixel_bytes char_int_def chroma_bias_def diff_r_def diff_g_def diff_b_def clamp255_id)
qed

lemma sint_byte: "sint (b :: byte) = (if uint b < 128 then uint b else uint b - 256)"
proof -
  have r: "0 \<le> uint b" "uint b < 256" using uint_lt2p [of b] by simp_all
  have "sint b = signed_take_bit 7 (uint b)" by (simp add: sint_uint)
  also have "\<dots> = (uint b + 128) mod 256 - 128"
    by (simp add: signed_take_bit_eq_take_bit_shift take_bit_eq_mod)
  also have "\<dots> = (if uint b < 128 then uint b else uint b - 256)"
  proof (cases "uint b < 128")
    case False
    then have "(uint b + 128) mod 256 = (uint b - 128) mod 256"
      by (metis (no_types) add.commute diff_add_eq mod_add_self2 numeral_Bit0 add_diff_eq diff_add_cancel)
    then show ?thesis using r False by simp
  qed (use r in simp)
  finally show ?thesis .
qed

lemma drop_bit_le: "2 ^ k * drop_bit k c \<le> (c :: int)"
  and drop_bit_less: "c < 2 ^ k * drop_bit k c + (2 ^ k :: int)"
proof -
  have "2 ^ k * (c div 2 ^ k) + c mod 2 ^ k = c" "0 \<le> c mod 2 ^ k" "c mod 2 ^ k < 2 ^ k" by simp_all
  then show "2 ^ k * drop_bit k c \<le> c" "c < 2 ^ k * drop_bit k c + 2 ^ k"
    unfolding drop_bit_eq_div by linarith+
qed

lemma shift_bounds:
  fixes c :: int
  shows "2 * drop_bit 1 c \<le> c" "c < 2 * drop_bit 1 c + 2" "4 * drop_bit 2 c \<le> c" "c < 4 * drop_bit 2 c + 4"
    "8 * drop_bit 3 c \<le> c" "c < 8 * drop_bit 3 c + 8" "16 * drop_bit 4 c \<le> c" "c < 16 * drop_bit 4 c + 16"
    "32 * drop_bit 5 c \<le> c" "c < 32 * drop_bit 5 c + 32" "64 * drop_bit 6 c \<le> c" "c < 64 * drop_bit 6 c + 64"
  using drop_bit_le [of 1 c] drop_bit_less [of c 1] drop_bit_le [of 2 c] drop_bit_less [of c 2]
    drop_bit_le [of 3 c] drop_bit_less [of c 3] drop_bit_le [of 4 c] drop_bit_less [of c 4]
    drop_bit_le [of 5 c] drop_bit_less [of c 5] drop_bit_le [of 6 c] drop_bit_less [of c 6]
  by simp_all

lemma diff_r_approx: "45 * c - 96 < 32 * diff_r c \<and> 32 * diff_r c \<le> 45 * c"
  unfolding diff_r_def ring_distribs by (intro conjI; use shift_bounds [of c] in linarith)

lemma diff_b_approx: "113 * c - 192 < 64 * diff_b c \<and> 64 * diff_b c \<le> 113 * c"
  unfolding diff_b_def ring_distribs by (intro conjI; use shift_bounds [of c] in linarith)

lemma diff_g_approx:
  "- 5 * cb - 9 * cr - 160 < 32 * diff_g cb cr \<and> 32 * diff_g cb cr < - 5 * cb - 9 * cr + 160"
  unfolding diff_g_def ring_distribs
  by (intro conjI; use shift_bounds [of cb] shift_bounds [of cr] in linarith)

lemma signed_char_black:
  assumes "128 \<le> uint y"
  shows "le_bytes (rgba_pixel (char_int True y) (chroma_bias (char_int True 128)) (chroma_bias (char_int True 128))) = [0,0,0,255]"
proof -
  have "uint y \<le> 255" using uint_lt2p [of y] by simp
  moreover have "char_int True 128 = -128" "char_int True y = uint y - 256"
    using assms by (simp_all add: char_int_def sint_byte)
  ultimately show ?thesis
    using assms by (simp add: rgba_pixel_bytes chroma_bias_def diff_r_def diff_g_def diff_b_def clamp255_def)
qed

subsection \<open>Properties\<close>

text \<open>C1: for even width and height the preview conversion touches nothing outside its buffers and
  writes exactly the YV12 picture: all luma bytes, then the plane of the fourth bytes (Cr of the YUYV
  camera format) and the plane of the second bytes (Cb) of the even rows; the rest of the output
  buffer is unchanged.\<close>

theorem Yvyu2Yuv420_correct:
  assumes "6 * (a * b) \<le> length yuv" and "8 * (a * b) \<le> length yvyu"
  shows "Yvyu2Yuv420 yvyu yuv (2 * int a) (2 * int b) =
    Some (map (\<lambda>k. yvyu ! (2 * k)) [0..<4 * (a * b)]
      @ map (\<lambda>k. yvyu ! (4 * (2 * (k div a) * a + k mod a) + 3)) [0..<a * b]
      @ map (\<lambda>k. yvyu ! (4 * (2 * (k div a) * a + k mod a) + 1)) [0..<a * b]
      @ drop (6 * (a * b)) yuv)"
  using Yvyu2Yuv420_planes [OF assms] by (simp add: yv12_planes_def)

theorem Yvyu2Yuv420_correct_witness:
  "Yvyu2Yuv420 [1, 2, 3, 4, 5, 6, 7, 8] [0, 0, 0, 0, 0, 0] 2 2 = Some [1, 3, 5, 7, 4, 2]"
  using Yvyu2Yuv420_correct [of 1 1 "[0, 0, 0, 0, 0, 0]" "[1, 2, 3, 4, 5, 6, 7, 8]"]
  by (simp add: upt_rec)

text \<open>C37: with an odd height and an even width of at least 4 the conversion writes past the
  \<open>mWidth * mHeight * 3 / 2\<close> bytes that the preview allocates for it.\<close>

theorem Yvyu2Yuv420_odd_height_overflow:
  assumes "2 \<le> a" and "length yuv = 3 * a * (2 * b + 1)"
  shows "Yvyu2Yuv420 yvyu yuv (2 * int a) (2 * int b + 1) = None"
  by (rule Yvyu2Yuv420_odd_height [OF assms])

theorem Yvyu2Yuv420_odd_height_overflow_witness:
  "Yvyu2Yuv420 [1, 2, 3, 4, 5, 6, 7, 8] [0, 0, 0, 0, 0, 0] 4 1 = None"
  using Yvyu2Yuv420_odd_height_overflow [of 2 "[0, 0, 0, 0, 0, 0]" 0 "[1, 2, 3, 4, 5, 6, 7, 8]"] by simp

text \<open>C6: for an even width the encoder conversion stays inside its buffers and stores one RGBA
  pixel per luma byte, in raster order: the four bytes of pixel \<open>k\<close> are its clamped red, green
  and blue values, computed with the chroma bytes of its pair, and an alpha of 255.\<close>

theorem Yvyu2RGBA_correct:
  assumes "8 * (a * h) \<le> length rgba" and "4 * (a * h) \<le> length yvyu"
  shows "Yvyu2RGBA sgnd rgba yvyu (2 * int a) (int h) =
    Some (concat (map (\<lambda>k.
       let Y = char_int sgnd (yvyu ! (2 * k));
           Cb = chroma_bias (char_int sgnd (yvyu ! (4 * (k div 2) + 1)));
           Cr = chroma_bias (char_int sgnd (yvyu ! (4 * (k div 2) + 3)))
       in [word_of_int (clamp255 (Y + diff_r Cr)), word_of_int (clamp255 (Y + diff_g Cb Cr)),
           word_of_int (clamp255 (Y + diff_b Cb)), 255]) [0..<2 * (a * h)])
      @ drop (8 * (a * h)) rgba)"
  using Yvyu2RGBA_frame [OF assms, of sgnd]
  by (simp add: rgba_frame_def rgba_at_def rgba_pixel_bytes Let_def)

theorem Yvyu2RGBA_correct_witness:
  "Yvyu2RGBA False [0, 0, 0, 0, 0, 0, 0, 0] [16, 128, 235, 128] 2 1
     = Some [16, 16, 16, 255, 235, 235, 235, 255]"
  using Yvyu2RGBA_correct [of 1 1 "[0, 0, 0, 0, 0, 0, 0, 0]" "[16, 128, 235, 128]" False]
  by (simp add: upt_rec char_int_def chroma_bias_def diff_r_def diff_g_def diff_b_def clamp255_def)

text \<open>Where \<open>char\<close> is unsigned, a pixel with neutral chroma (128) becomes the grey of its
  luma byte.\<close>

lemma rgba_neutral_grey:
  "le_bytes (rgba_pixel (char_int False y) (chroma_bias (char_int False 128))
      (chroma_bias (char_int False 128))) = [y, y, y, 255]"
  by (rule neutral_grey)

text \<open>C39: where \<open>char\<close> is signed, every neutral pixel with a luma byte of at least 128 becomes
  black: the luma byte is read as a negative number.\<close>

theorem rgba_signed_char_black:
  assumes "128 \<le> uint y"
  shows "le_bytes (rgba_pixel (char_int True y) (chroma_bias (char_int True 128))
      (chroma_bias (char_int True 128))) = [0, 0, 0, 255]"
  by (rule signed_char_black [OF assms])

theorem rgba_signed_char_black_witness:
  "le_bytes (rgba_pixel (char_int True 235) (chroma_bias (char_int True 128))
      (chroma_bias (char_int True 128))) = [0, 0, 0, 255]"
  by (rule rgba_signed_char_black) simp

text \<open>The shift approximations of the colour matrix: red adds 45/32 Cr and blue 113/64 Cb up to
  the rounding of three shifts, and green adds - 5/32 Cb - 9/32 Cr up to 5, where the
  colour matrix that red and blue follow has - 11/32 Cb - 23/32 Cr.\<close>

lemma colour_approximation:
  "45 * Cr - 96 < 32 * diff_r Cr \<and> 32 * diff_r Cr \<le> 45 * Cr \<and>
   113 * Cb - 192 < 64 * diff_b Cb \<and> 64 * diff_b Cb \<le> 113 * Cb \<and>
   - 5 * Cb - 9 * Cr - 160 < 32 * diff_g Cb Cr \<and> 32 * diff_g Cb Cr < - 5 * Cb - 9 * Cr + 160"
  using diff_r_approx [of Cr] diff_b_approx [of Cb] diff_g_approx [of Cb Cr] by simp

text \<open>C13: when the source is wider than the window by an even number of pixels, the crop reads only
  the source, writes the window's rows one after the other, and row \<open>i\<close> is the part of source
  row \<open>vertical_margin + i\<close> that starts \<open>horizontal_margin\<close> pixels in.\<close>

theorem copyFrameCenterGravity_centred:
  assumes "dw \<le> sw" and "dh \<le> sh" and "even (sw - dw)"
    and "dh * (dw * 2 ^ b) \<le> length dest" and "sw * sh * 2 ^ b \<le> length src"
  shows "copyFrameCenterGravity dest src (int dw) (int dh) (int sw) (int sh) b =
    Some (concat (map (\<lambda>i. take (dw * 2 ^ b)
             (drop ((((sh - dh + 1) div 2 + i) * sw + (sw - dw) div 2) * 2 ^ b) src)) [0..<dh])
      @ drop (dh * (dw * 2 ^ b)) dest)"
  using copyFrameCenterGravity_even [OF assms]
  by (simp add: crop_ref_def algebra_simps)

theorem copyFrameCenterGravity_centred_witness:
  "copyFrameCenterGravity [0, 0, 0] [1, 2, 3, 4, 5, 6, 7, 8] 2 1 4 2 0 = Some [6, 7, 0]"
  using copyFrameCenterGravity_centred [of 2 4 1 2 0 "[0, 0, 0]" "[1, 2, 3, 4, 5, 6, 7, 8]"]
  by simp

text \<open>A window wider or higher than the source is refused and the destination kept.\<close>

lemma copyFrameCenterGravity_refused:
  assumes "src_w < dest_w \<or> src_h < dest_h"
  shows "copyFrameCenterGravity dest src dest_w dest_h src_w src_h b = Some dest"
  using assms by (simp add: copyFrameCenterGravity_def)

theorem copyFrameCenterGravity_refused_witness:
  "copyFrameCenterGravity [7] [] 1 1 0 0 2 = Some [7]"
  by (rule copyFrameCenterGravity_refused) simp

text \<open>When the source is one pixel wider than the window and as high, the crop reads past the
  end of the source frame: the row advance \<open>dest_w + 2 * horizontal_margin\<close> exceeds the source
  width.\<close>

lemma copyFrameCenterGravity_odd_overread:
  assumes "1 < dh" and "length src = (dw + 1) * dh * 2 ^ b"
  shows "copyFrameCenterGravity dest src (int dw) (int dh) (int (dw + 1)) (int dh) b = None"
  by (rule copyFrameCenterGravity_odd_fault [OF assms])

theorem copyFrameCenterGravity_odd_overread_witness:
  "copyFrameCenterGravity [0, 0, 0, 0] [1, 2, 3, 4, 5, 6] 2 2 3 2 0 = None"
  using copyFrameCenterGravity_odd_overread [of 2 "[1, 2, 3, 4, 5, 6]" 2 0 "[0, 0, 0, 0]"] by simp

text \<open>\<open>ALIGN x y\<close> for a power of two \<open>y\<close> is the least multiple of \<open>y\<close> not below \<open>x\<close>.\<close>

lemma ALIGN_least_multiple:
  "2 ^ k dvd ALIGN x (2 ^ k) \<and> x \<le> ALIGN x (2 ^ k) \<and> ALIGN x (2 ^ k) < x + 2 ^ k"
  by (rule ALIGN_spec)

end
