(* ===== verification/Strong_Pointer.thy ===== *)
theory Strong_Pointer
  imports Cam_Prelude
begin

text \<open>
  Strong references: the smart pointer \<open>sp\<close> of \<open>utils/StrongPointer.h\<close> and the counted
  base class \<open>LightRefBase\<close> of \<open>utils/RefBase.h\<close>.
  An \<open>sp\<close> is a cell that holds an object address (0 is NULL); all cells live in the finite map
  \<open>sps\<close>. The members \<open>incStrong\<close> and \<open>decStrong\<close> of the pointed-to class are arguments
  of the operations, because \<open>sp\<close> is a template over that class; a call on an object that is
  no longer alive is the fault None. The locale \<open>refcounted\<close> states what \<open>sp\<close> needs of the
  class, and \<open>LightRefBase\<close>, whose code is in the header, provides it.
\<close>

type_synonym ptr = nat

subsection \<open>LightRefBase\<close>

text \<open>Live objects with their \<open>mCount\<close>; the atomic operations return the old value.\<close>

type_synonym light_heap = "ptr \<rightharpoonup> 32 word"

definition light_new :: "ptr \<Rightarrow> light_heap \<Rightarrow> light_heap" where
  "light_new p h = h(p \<mapsto> 0)"

definition light_incStrong :: "ptr \<Rightarrow> light_heap \<Rightarrow> light_heap option" where
  "light_incStrong p h = (case h p of None \<Rightarrow> None | Some c \<Rightarrow> Some (h(p \<mapsto> c + 1)))"

definition light_decStrong :: "ptr \<Rightarrow> light_heap \<Rightarrow> light_heap option" where
  "light_decStrong p h =
     (case h p of None \<Rightarrow> None
      | Some old \<Rightarrow> let h = h(p \<mapsto> old - 1) in
          if old = 1 then Some (h(p := None)) else Some h)"

definition light_getStrongCount :: "ptr \<Rightarrow> light_heap \<Rightarrow> 32 word option" where
  "light_getStrongCount p h = h p"

subsection \<open>The smart pointer\<close>

record 'h sp_state =
  objs :: 'h
  sps :: "nat \<rightharpoonup> ptr"

definition objs_step :: "('h \<Rightarrow> 'h option) \<Rightarrow> 'h sp_state \<Rightarrow> 'h sp_state option" where
  "objs_step f st = map_option (\<lambda>h. st\<lparr>objs := h\<rparr>) (f (objs st))"

text \<open>\<open>if (p) p->f(this)\<close>\<close>

definition if_ptr :: "ptr \<Rightarrow> (ptr \<Rightarrow> 'h \<Rightarrow> 'h option) \<Rightarrow> 'h sp_state \<Rightarrow> 'h sp_state option" where
  "if_ptr p f st = (if p \<noteq> 0 then objs_step (f p) st else Some st)"

definition m_ptr :: "nat \<Rightarrow> 'h sp_state \<Rightarrow> ptr option" where
  "m_ptr i st = sps st i"

definition set_pointer :: "nat \<Rightarrow> ptr \<Rightarrow> 'h sp_state \<Rightarrow> 'h sp_state" where
  "set_pointer i p st = st\<lparr>sps := (sps st)(i \<mapsto> p)\<rparr>"

definition sp_init :: "nat \<Rightarrow> 'h sp_state \<Rightarrow> 'h sp_state" where
  "sp_init i st = set_pointer i 0 st"

definition sp_from_ptr ::
    "(ptr \<Rightarrow> 'h \<Rightarrow> 'h option) \<Rightarrow> nat \<Rightarrow> ptr \<Rightarrow> 'h sp_state \<Rightarrow> 'h sp_state option" where
  "sp_from_ptr incStrong i other st = if_ptr other incStrong (set_pointer i other st)"

definition sp_copy ::
    "(ptr \<Rightarrow> 'h \<Rightarrow> 'h option) \<Rightarrow> nat \<Rightarrow> nat \<Rightarrow> 'h sp_state \<Rightarrow> 'h sp_state option" where
  "sp_copy incStrong i other st = do {
     p \<leftarrow> m_ptr other st;
     if_ptr p incStrong (set_pointer i p st)
   }"

definition sp_destroy ::
    "(ptr \<Rightarrow> 'h \<Rightarrow> 'h option) \<Rightarrow> nat \<Rightarrow> 'h sp_state \<Rightarrow> 'h sp_state option" where
  "sp_destroy decStrong i st = do {
     p \<leftarrow> m_ptr i st;
     st \<leftarrow> if_ptr p decStrong st;
     Some (st\<lparr>sps := (sps st)(i := None)\<rparr>)
   }"

definition sp_assign_ptr ::
    "(ptr \<Rightarrow> 'h \<Rightarrow> 'h option) \<Rightarrow> (ptr \<Rightarrow> 'h \<Rightarrow> 'h option) \<Rightarrow> nat \<Rightarrow> ptr
     \<Rightarrow> 'h sp_state \<Rightarrow> 'h sp_state option" where
  "sp_assign_ptr incStrong decStrong i other st = do {
     st \<leftarrow> if_ptr other incStrong st;
     p \<leftarrow> m_ptr i st;
     st \<leftarrow> if_ptr p decStrong st;
     Some (set_pointer i other st)
   }"

definition sp_assign ::
    "(ptr \<Rightarrow> 'h \<Rightarrow> 'h option) \<Rightarrow> (ptr \<Rightarrow> 'h \<Rightarrow> 'h option) \<Rightarrow> nat \<Rightarrow> nat
     \<Rightarrow> 'h sp_state \<Rightarrow> 'h sp_state option" where
  "sp_assign incStrong decStrong i other st = do {
     otherPtr \<leftarrow> m_ptr other st;
     st \<leftarrow> if_ptr otherPtr incStrong st;
     p \<leftarrow> m_ptr i st;
     st \<leftarrow> if_ptr p decStrong st;
     Some (set_pointer i otherPtr st)
   }"

definition sp_clear ::
    "(ptr \<Rightarrow> 'h \<Rightarrow> 'h option) \<Rightarrow> nat \<Rightarrow> 'h sp_state \<Rightarrow> 'h sp_state option" where
  "sp_clear decStrong i st = do {
     p \<leftarrow> m_ptr i st;
     if p \<noteq> 0 then do { st \<leftarrow> objs_step (decStrong p) st; Some (set_pointer i 0 st) } else Some st
   }"

definition sp_force_set ::
    "(ptr \<Rightarrow> 'h \<Rightarrow> 'h option) \<Rightarrow> nat \<Rightarrow> ptr \<Rightarrow> 'h sp_state \<Rightarrow> 'h sp_state option" where
  "sp_force_set forceIncStrong i other st =
     map_option (set_pointer i other) (objs_step (forceIncStrong other) st)"

text \<open>The template versions take a pointer to another class \<open>U\<close>: the implicit conversion \<open>conv\<close> to
  \<open>T\<close> may move the address.\<close>

definition sp_from_ptr_conv ::
    "(ptr \<Rightarrow> ptr) \<Rightarrow> (ptr \<Rightarrow> 'h \<Rightarrow> 'h option) \<Rightarrow> nat \<Rightarrow> ptr \<Rightarrow> 'h sp_state \<Rightarrow> 'h sp_state option" where
  "sp_from_ptr_conv conv incStrong i other st = if_ptr other (\<lambda>p. incStrong (conv p)) (set_pointer i (conv other) st)"

definition sp_copy_conv ::
    "(ptr \<Rightarrow> ptr) \<Rightarrow> (ptr \<Rightarrow> 'h \<Rightarrow> 'h option) \<Rightarrow> nat \<Rightarrow> nat \<Rightarrow> 'h sp_state \<Rightarrow> 'h sp_state option" where
  "sp_copy_conv conv incStrong i other st = do {
     p \<leftarrow> m_ptr other st;
     if_ptr (conv p) incStrong (set_pointer i (conv p) st)
   }"

definition sp_assign_ptr_conv ::
    "(ptr \<Rightarrow> ptr) \<Rightarrow> (ptr \<Rightarrow> 'h \<Rightarrow> 'h option) \<Rightarrow> (ptr \<Rightarrow> 'h \<Rightarrow> 'h option) \<Rightarrow> nat \<Rightarrow> ptr
     \<Rightarrow> 'h sp_state \<Rightarrow> 'h sp_state option" where
  "sp_assign_ptr_conv conv incStrong decStrong i other st = do {
     st \<leftarrow> if_ptr other (\<lambda>p. incStrong (conv p)) st;
     p \<leftarrow> m_ptr i st;
     st \<leftarrow> if_ptr p decStrong st;
     Some (set_pointer i (conv other) st)
   }"

definition sp_assign_conv ::
    "(ptr \<Rightarrow> ptr) \<Rightarrow> (ptr \<Rightarrow> 'h \<Rightarrow> 'h option) \<Rightarrow> (ptr \<Rightarrow> 'h \<Rightarrow> 'h option) \<Rightarrow> nat \<Rightarrow> nat
     \<Rightarrow> 'h sp_state \<Rightarrow> 'h sp_state option" where
  "sp_assign_conv conv incStrong decStrong i other st = do {
     otherPtr \<leftarrow> map_option conv (m_ptr other st);
     st \<leftarrow> if_ptr otherPtr incStrong st;
     p \<leftarrow> m_ptr i st;
     st \<leftarrow> if_ptr p decStrong st;
     Some (set_pointer i otherPtr st)
   }"

lemma sp_conv_ptr:
  assumes "conv other = 0 \<longleftrightarrow> other = 0"
  shows "sp_from_ptr_conv conv inc i other st = sp_from_ptr inc i (conv other) st"
    and "sp_assign_ptr_conv conv inc dec i other st = sp_assign_ptr inc dec i (conv other) st"
  using assms by (simp_all add: sp_from_ptr_conv_def sp_from_ptr_def sp_assign_ptr_conv_def sp_assign_ptr_def if_ptr_def)

lemma sp_conv_same: "sp_copy_conv (\<lambda>p. p) = sp_copy" "sp_assign_conv (\<lambda>p. p) = sp_assign"
  by (simp_all add: fun_eq_iff sp_copy_conv_def sp_copy_def sp_assign_conv_def sp_assign_def option.map_ident)

text \<open>The comparison operators of the macro \<open>COMPARE\<close>.\<close>

datatype cmp_op = CmpEq | CmpNe | CmpGt | CmpLt | CmpLe | CmpGe

fun compare_ptr :: "cmp_op \<Rightarrow> ptr \<Rightarrow> ptr \<Rightarrow> bool" where
  "compare_ptr CmpEq p q = (p = q)"
| "compare_ptr CmpNe p q = (p \<noteq> q)"
| "compare_ptr CmpGt p q = (p > q)"
| "compare_ptr CmpLt p q = (p < q)"
| "compare_ptr CmpLe p q = (p \<le> q)"
| "compare_ptr CmpGe p q = (p \<ge> q)"

subsection \<open>Counting references\<close>

definition refs :: "(nat \<rightharpoonup> ptr) \<Rightarrow> ptr \<Rightarrow> nat" where
  "refs m p = card {i. m i = Some p}"

lemma refs_pos: "finite (dom m) \<Longrightarrow> m i = Some p \<Longrightarrow> 0 < refs m p"
proof -
  assume "finite (dom m)" "m i = Some p"
  moreover have "{i. m i = Some p} \<subseteq> dom m" by auto
  ultimately show ?thesis unfolding refs_def by (metis (mono_tags) card_gt_0_iff empty_iff finite_subset mem_Collect_eq)
qed

lemma refs_zero: "finite (dom m) \<Longrightarrow> refs m p = 0 \<longleftrightarrow> (\<forall>i. m i \<noteq> Some p)"
  unfolding refs_def by (subst card_0_eq) (auto intro: finite_subset [of _ "dom m"])

lemma refs_le_dom: "finite (dom m) \<Longrightarrow> refs m p \<le> card (dom m)"
  unfolding refs_def by (intro card_mono) auto

lemma refs_fresh: "m i = None \<Longrightarrow> finite (dom m) \<Longrightarrow> refs (m(i \<mapsto> q)) p = (if p = q then refs m p + 1 else refs m p)"
proof -
  assume m: "m i = None" "finite (dom m)"
  have "{j. (m(i \<mapsto> q)) j = Some p} = (if p = q then insert i {j. m j = Some p} else {j. m j = Some p})"
    using m by auto
  moreover have "finite {j. m j = Some p}" by (rule finite_subset [OF _ m(2)]) auto
  ultimately show ?thesis using m unfolding refs_def by (cases "p = q") simp_all
qed

lemma refs_remove: "m i = Some q \<Longrightarrow> finite (dom m) \<Longrightarrow> refs (m(i := None)) p = (if p = q then refs m p - 1 else refs m p)"
proof -
  assume m: "m i = Some q" "finite (dom m)"
  have "{j. (m(i := None)) j = Some p} = (if p = q then {j. m j = Some p} - {i} else {j. m j = Some p})"
    using m by auto
  moreover have "finite {j. m j = Some p}" by (rule finite_subset [OF _ m(2)]) auto
  ultimately show ?thesis using m by (simp add: refs_def)
qed

lemma refs_change:
  assumes "m i = Some q" "finite (dom m)"
  shows "refs (m(i \<mapsto> r)) p = (let n = (if p = q then refs m p - 1 else refs m p) in if p = r then n + 1 else n)"
proof -
  have "refs (m(i \<mapsto> r)) p = (if p = r then refs (m(i := None)) p + 1 else refs (m(i := None)) p)"
    using refs_fresh [of "m(i := None)" i r p] assms(2) by simp
  then show ?thesis unfolding refs_remove [OF assms, of p] by (simp add: Let_def)
qed

subsection \<open>The interface of a counted class\<close>

locale refcounted =
  fixes inc dec :: "ptr \<Rightarrow> 'h \<Rightarrow> 'h option"
    and live :: "'h \<Rightarrow> ptr \<Rightarrow> bool"
    and cnt :: "'h \<Rightarrow> ptr \<Rightarrow> nat"
    and max_count :: nat
  assumes inc_live: "live h p \<Longrightarrow> cnt h p < max_count \<Longrightarrow>
      \<exists>h'. inc p h = Some h' \<and> live h' = live h \<and> cnt h' = (cnt h)(p := cnt h p + 1)"
    and dec_live: "live h p \<Longrightarrow> 0 < cnt h p \<Longrightarrow>
      \<exists>h'. dec p h = Some h' \<and> live h' = (live h)(p := cnt h p \<noteq> 1)
        \<and> (\<forall>q. live h' q \<longrightarrow> cnt h' q = ((cnt h)(p := cnt h p - 1)) q)"
begin

text \<open>The heap agrees with the number of references \<open>c p\<close> to every object.\<close>

definition agrees :: "'h \<Rightarrow> (ptr \<Rightarrow> nat) \<Rightarrow> bool" where
  "agrees h c \<longleftrightarrow> (\<forall>p. p \<noteq> 0 \<longrightarrow> (0 < c p \<longrightarrow> live h p) \<and> (live h p \<longrightarrow> cnt h p = c p))"

lemma agrees_inc:
  "agrees h c \<Longrightarrow> p \<noteq> 0 \<Longrightarrow> live h p \<Longrightarrow> c p < max_count \<Longrightarrow>
   \<exists>h'. inc p h = Some h' \<and> live h' = live h \<and> agrees h' (c(p := c p + 1))"
  using inc_live [of h p] by (fastforce simp: agrees_def)

lemma agrees_dec:
  "agrees h c \<Longrightarrow> p \<noteq> 0 \<Longrightarrow> 0 < c p \<Longrightarrow>
   \<exists>h'. dec p h = Some h' \<and> live h' = (live h)(p := c p \<noteq> 1) \<and> agrees h' (c(p := c p - 1))"
  using dec_live [of h p] by (fastforce simp: agrees_def)

lemma agrees_cong: "agrees h c \<Longrightarrow> (\<And>p. p \<noteq> 0 \<Longrightarrow> c p = d p) \<Longrightarrow> agrees h d"
  by (simp add: agrees_def)

definition sp_inv :: "'h sp_state \<Rightarrow> bool" where
  "sp_inv st \<longleftrightarrow> finite (dom (sps st)) \<and> agrees (objs st) (refs (sps st))"

lemma sp_inv_live: "sp_inv st \<Longrightarrow> sps st i = Some p \<Longrightarrow> p \<noteq> 0 \<Longrightarrow> live (objs st) p"
  by (auto simp: sp_inv_def agrees_def refs_pos)

lemma sp_inv_count: "sp_inv st \<Longrightarrow> live (objs st) p \<Longrightarrow> p \<noteq> 0 \<Longrightarrow> cnt (objs st) p = refs (sps st) p"
  by (auto simp: sp_inv_def agrees_def)

lemma if_ptr_inc:
  assumes "agrees (objs st) c" "p \<noteq> 0 \<longrightarrow> live (objs st) p \<and> c p < max_count"
  shows "\<exists>h. if_ptr p inc st = Some (st\<lparr>objs := h\<rparr>) \<and> live h = live (objs st)
    \<and> agrees h (if p = 0 then c else c(p := c p + 1))"
proof (cases "p = 0")
  case True
  then show ?thesis using assms by (intro exI [of _ "objs st"]) (simp add: if_ptr_def)
next
  case False
  then show ?thesis using agrees_inc [OF assms(1) False] assms(2)
    by (auto simp: if_ptr_def objs_step_def)
qed

lemma if_ptr_dec:
  assumes "agrees (objs st) c" "p \<noteq> 0 \<longrightarrow> 0 < c p"
  shows "\<exists>h. if_ptr p dec st = Some (st\<lparr>objs := h\<rparr>)
    \<and> live h = (if p = 0 then live (objs st) else (live (objs st))(p := c p \<noteq> 1))
    \<and> agrees h (if p = 0 then c else c(p := c p - 1))"
proof (cases "p = 0")
  case True
  then show ?thesis using assms by (intro exI [of _ "objs st"]) (simp add: if_ptr_def)
next
  case False
  then show ?thesis using agrees_dec [OF assms(1) False] assms(2)
    by (auto simp: if_ptr_def objs_step_def)
qed

lemma sp_from_ptr_inv:
  assumes "sp_inv st" "sps st i = None" "p \<noteq> 0 \<longrightarrow> live (objs st) p" "card (dom (sps st)) < max_count"
  shows "\<exists>st'. sp_from_ptr inc i p st = Some st' \<and> sp_inv st' \<and> sps st' = (sps st)(i \<mapsto> p)
    \<and> live (objs st') = live (objs st)"
proof -
  have fin: "finite (dom (sps st))" and ag: "agrees (objs st) (refs (sps st))" using assms(1) by (auto simp: sp_inv_def)
  have "refs (sps st) p < max_count" using refs_le_dom [OF fin, of p] assms(4) by simp
  then obtain h where h: "if_ptr p inc (set_pointer i p st) = Some ((set_pointer i p st)\<lparr>objs := h\<rparr>)"
    "live h = live (objs st)" "agrees h (if p = 0 then refs (sps st) else (refs (sps st))(p := refs (sps st) p + 1))"
    using if_ptr_inc [of "set_pointer i p st" "refs (sps st)" p] ag assms(3) by (auto simp: set_pointer_def)
  have "agrees h (refs ((sps st)(i \<mapsto> p)))"
    by (rule agrees_cong [OF h(3)]) (auto simp: refs_fresh [OF assms(2) fin])
  then show ?thesis using h fin by (simp add: sp_from_ptr_def sp_inv_def set_pointer_def)
qed

lemma sp_destroy_inv:
  assumes "sp_inv st" "sps st i = Some p"
  shows "\<exists>st'. sp_destroy dec i st = Some st' \<and> sp_inv st' \<and> sps st' = (sps st)(i := None)
    \<and> live (objs st') = (if p = 0 then live (objs st) else (live (objs st))(p := refs (sps st) p \<noteq> 1))"
proof -
  have fin: "finite (dom (sps st))" and ag: "agrees (objs st) (refs (sps st))" using assms(1) by (auto simp: sp_inv_def)
  obtain h where h: "if_ptr p dec st = Some (st\<lparr>objs := h\<rparr>)"
    "live h = (if p = 0 then live (objs st) else (live (objs st))(p := refs (sps st) p \<noteq> 1))"
    "agrees h (if p = 0 then refs (sps st) else (refs (sps st))(p := refs (sps st) p - 1))"
    using if_ptr_dec [OF ag, of p] refs_pos [OF fin assms(2)] by auto
  have "agrees h (refs ((sps st)(i := None)))"
    by (rule agrees_cong [OF h(3)]) (auto simp: refs_remove [OF assms(2) fin])
  then show ?thesis using h fin assms(2)
    by (simp add: sp_destroy_def sp_inv_def m_ptr_def del: fun_upd_apply)
qed

lemma sp_assign_ptr_inv:
  assumes "sp_inv st" "sps st i = Some q" "p \<noteq> 0 \<longrightarrow> live (objs st) p" "card (dom (sps st)) < max_count"
  shows "\<exists>st'. sp_assign_ptr inc dec i p st = Some st' \<and> sp_inv st' \<and> sps st' = (sps st)(i \<mapsto> p)
    \<and> (\<forall>r. r \<noteq> q \<or> p = q \<or> q = 0 \<longrightarrow> live (objs st') r = live (objs st) r)
    \<and> (q \<noteq> 0 \<and> p \<noteq> q \<longrightarrow> live (objs st') q = (refs (sps st) q \<noteq> 1))"
proof -
  have fin: "finite (dom (sps st))" and ag: "agrees (objs st) (refs (sps st))" using assms(1) by (auto simp: sp_inv_def)
  define c where "c = (if p = 0 then refs (sps st) else (refs (sps st))(p := refs (sps st) p + 1))"
  have "refs (sps st) p < max_count" using refs_le_dom [OF fin, of p] assms(4) by simp
  then obtain h where h: "if_ptr p inc st = Some (st\<lparr>objs := h\<rparr>)" "live h = live (objs st)" "agrees h c"
    using if_ptr_inc [OF ag, of p] assms(3) unfolding c_def by blast
  have q: "0 < refs (sps st) q" by (rule refs_pos [OF fin assms(2)])
  then have cq: "q \<noteq> 0 \<longrightarrow> 0 < c q" by (simp add: c_def)
  have "agrees (objs (st\<lparr>objs := h\<rparr>)) c" using h(3) by simp
  from if_ptr_dec [OF this cq] obtain g where g: "if_ptr q dec (st\<lparr>objs := h\<rparr>) = Some (st\<lparr>objs := g\<rparr>)"
    "live g = (if q = 0 then live h else (live h)(q := c q \<noteq> 1))"
    "agrees g (if q = 0 then c else c(q := c q - 1))"
    by auto
  have "agrees g (refs ((sps st)(i \<mapsto> p)))"
    by (rule agrees_cong [OF g(3)]) (use q in \<open>auto simp: c_def refs_change [OF assms(2) fin] Let_def\<close>)
  moreover have "live h q" if "q \<noteq> 0" using sp_inv_live [OF assms(1,2) that] h(2) by simp
  ultimately show ?thesis using h g fin assms(2) q
    by (auto simp: c_def sp_assign_ptr_def sp_inv_def m_ptr_def set_pointer_def)
qed

lemma sp_assign_inv:
  assumes "sp_inv st" "sps st i = Some q" "sps st j = Some p" "card (dom (sps st)) < max_count"
  shows "\<exists>st'. sp_assign inc dec i j st = Some st' \<and> sp_inv st' \<and> sps st' = (sps st)(i \<mapsto> p)
    \<and> (\<forall>r. r \<noteq> q \<or> p = q \<or> q = 0 \<longrightarrow> live (objs st') r = live (objs st) r)
    \<and> (q \<noteq> 0 \<and> p \<noteq> q \<longrightarrow> live (objs st') q = (refs (sps st) q \<noteq> 1))"
proof -
  have "sp_assign inc dec i j st = sp_assign_ptr inc dec i p st"
    by (simp add: sp_assign_def sp_assign_ptr_def m_ptr_def assms(3))
  then show ?thesis using sp_assign_ptr_inv [OF assms(1,2) _ assms(4)] sp_inv_live [OF assms(1,3)] by simp
qed

lemma sp_clear_inv:
  assumes "sp_inv st" "sps st i = Some p"
  shows "\<exists>st'. sp_clear dec i st = Some st' \<and> sp_inv st' \<and> sps st' = (sps st)(i \<mapsto> 0)"
proof -
  have fin: "finite (dom (sps st))" and ag: "agrees (objs st) (refs (sps st))" using assms(1) by (auto simp: sp_inv_def)
  show ?thesis
  proof (cases "p = 0")
    case True
    then have "(sps st)(i \<mapsto> 0) = sps st" using assms(2) by auto
    with True show ?thesis using assms by (simp add: sp_clear_def m_ptr_def)
  next
    case False
    obtain h where h: "dec p (objs st) = Some h" "agrees h ((refs (sps st))(p := refs (sps st) p - 1))"
      using agrees_dec [OF ag False] refs_pos [OF fin assms(2)] by blast
    have "agrees h (refs ((sps st)(i \<mapsto> 0)))"
      by (rule agrees_cong [OF h(2)]) (auto simp: refs_change [OF assms(2) fin] Let_def)
    then show ?thesis using h False fin assms(2)
      by (simp add: sp_clear_def sp_inv_def m_ptr_def objs_step_def set_pointer_def)
  qed
qed

end

subsection \<open>LightRefBase provides the interface\<close>

definition light_live :: "light_heap \<Rightarrow> ptr \<Rightarrow> bool" where
  "light_live h p = (h p \<noteq> None)"

definition light_cnt :: "light_heap \<Rightarrow> ptr \<Rightarrow> nat" where
  "light_cnt h p = (case h p of None \<Rightarrow> 0 | Some c \<Rightarrow> unat c)"

lemma unat_inc32: "unat (c :: 32 word) < 2 ^ 31 - 1 \<Longrightarrow> unat (c + 1) = unat c + 1"
  by (simp add: unat_word_ariths)

lemma unat_dec32: "0 < unat (c :: 32 word) \<Longrightarrow> unat (c - 1) = unat c - 1"
  by (metis One_nat_def bot_nat_0.not_eq_extremum unat_gt_0 unat_minus_one unat_0)

lemma unat_eq_1: "unat (c :: 32 word) = 1 \<longleftrightarrow> c = 1"
  by (metis unat_1 word_unat_eq_iff)

interpretation lr: refcounted light_incStrong light_decStrong light_live light_cnt "2 ^ 31 - 1"
proof unfold_locales
  fix h :: light_heap and p :: ptr
  assume "light_live h p" "light_cnt h p < 2 ^ 31 - 1"
  then obtain c where c: "h p = Some c" "unat c < 2 ^ 31 - 1" by (auto simp: light_live_def light_cnt_def)
  then show "\<exists>h'. light_incStrong p h = Some h' \<and> light_live h' = light_live h
      \<and> light_cnt h' = (light_cnt h)(p := light_cnt h p + 1)"
    using unat_inc32 [OF c(2)]
    by (intro exI [of _ "h(p \<mapsto> c + 1)"]) (auto simp: fun_eq_iff light_incStrong_def light_live_def light_cnt_def)
next
  fix h :: light_heap and p :: ptr
  assume "light_live h p" "0 < light_cnt h p"
  then obtain c where c: "h p = Some c" "0 < unat c" by (auto simp: light_live_def light_cnt_def)
  then show "\<exists>h'. light_decStrong p h = Some h' \<and> light_live h' = (light_live h)(p := light_cnt h p \<noteq> 1)
      \<and> (\<forall>q. light_live h' q \<longrightarrow> light_cnt h' q = ((light_cnt h)(p := light_cnt h p - 1)) q)"
    using unat_dec32 [OF c(2)] unat_eq_1 [of c]
    by (intro exI [of _ "if c = 1 then h(p := None) else h(p \<mapsto> c - 1)"])
      (auto simp: fun_eq_iff light_decStrong_def light_live_def light_cnt_def)
qed

text \<open>The invariant written out: every held object is alive and its count is the number of cells
  that hold it.\<close>

definition counts_exact :: "light_heap sp_state \<Rightarrow> bool" where
  "counts_exact st \<longleftrightarrow> finite (dom (sps st)) \<and>
     (\<forall>p. p \<noteq> 0 \<longrightarrow> ((\<exists>i. sps st i = Some p) \<longrightarrow> objs st p \<noteq> None) \<and>
        (\<forall>c. objs st p = Some c \<longrightarrow> unat c = card {i. sps st i = Some p}))"

lemma counts_exact_iff: "counts_exact st \<longleftrightarrow> lr.sp_inv st"
proof (cases "finite (dom (sps st))")
  case True
  have "((\<exists>i. sps st i = Some p) \<longrightarrow> objs st p \<noteq> None) \<and>
        (\<forall>c. objs st p = Some c \<longrightarrow> unat c = card {i. sps st i = Some p}) \<longleftrightarrow>
      (0 < refs (sps st) p \<longrightarrow> light_live (objs st) p) \<and>
        (light_live (objs st) p \<longrightarrow> light_cnt (objs st) p = refs (sps st) p)" for p
    using refs_zero [OF True, of p]
    by (cases "objs st p") (auto simp: light_live_def light_cnt_def refs_def [symmetric])
  then show ?thesis unfolding counts_exact_def lr.sp_inv_def lr.agrees_def using True by simp
qed (simp add: counts_exact_def lr.sp_inv_def)

text \<open>
  Programs over cells and objects: an object is created together with its first reference, and
  the C++ lifetime rules are the guards (a constructor wants an unused cell, every other
  operation a constructed one).
\<close>

datatype sp_op = OpNew nat ptr | OpInit nat | OpCopy nat nat | OpAssign nat nat | OpClear nat | OpDestroy nat

fun sp_allowed :: "sp_op \<Rightarrow> light_heap sp_state \<Rightarrow> bool" where
  "sp_allowed (OpNew i p) st = (sps st i = None \<and> p \<noteq> 0 \<and> objs st p = None)"
| "sp_allowed (OpInit i) st = (sps st i = None)"
| "sp_allowed (OpCopy i j) st = (sps st i = None \<and> sps st j \<noteq> None)"
| "sp_allowed (OpAssign i j) st = (sps st i \<noteq> None \<and> sps st j \<noteq> None)"
| "sp_allowed (OpClear i) st = (sps st i \<noteq> None)"
| "sp_allowed (OpDestroy i) st = (sps st i \<noteq> None)"

fun sp_exec :: "sp_op \<Rightarrow> light_heap sp_state \<Rightarrow> light_heap sp_state option" where
  "sp_exec (OpNew i p) st = sp_from_ptr light_incStrong i p (st\<lparr>objs := light_new p (objs st)\<rparr>)"
| "sp_exec (OpInit i) st = Some (sp_init i st)"
| "sp_exec (OpCopy i j) st = sp_copy light_incStrong i j st"
| "sp_exec (OpAssign i j) st = sp_assign light_incStrong light_decStrong i j st"
| "sp_exec (OpClear i) st = sp_clear light_decStrong i st"
| "sp_exec (OpDestroy i) st = sp_destroy light_decStrong i st"

inductive sp_reach :: "light_heap sp_state \<Rightarrow> bool" where
  sp_start: "sp_reach \<lparr>objs = Map.empty, sps = Map.empty\<rparr>"
| sp_step: "sp_reach st \<Longrightarrow> sp_allowed x st \<Longrightarrow> card (dom (sps st)) < 2 ^ 31 - 1
    \<Longrightarrow> sp_exec x st = Some st' \<Longrightarrow> sp_reach st'"

lemma sp_init_inv: "lr.sp_inv st \<Longrightarrow> sps st i = None \<Longrightarrow> lr.sp_inv (sp_init i st)"
  by (auto simp: lr.sp_inv_def sp_init_def set_pointer_def lr.agrees_def refs_fresh split: if_splits)

lemma sp_new_inv:
  assumes "lr.sp_inv st" "objs st p = None"
  shows "lr.sp_inv (st\<lparr>objs := light_new p (objs st)\<rparr>)"
proof -
  have "p = 0 \<or> refs (sps st) p = 0"
    using assms unfolding lr.sp_inv_def lr.agrees_def light_live_def by (cases "refs (sps st) p") auto
  then show ?thesis
    using assms(1) unfolding lr.sp_inv_def lr.agrees_def
    by (auto simp: light_new_def light_live_def light_cnt_def)
qed

lemma sp_exec_inv:
  assumes inv: "lr.sp_inv st" and ok: "sp_allowed x st" and bound: "card (dom (sps st)) < 2 ^ 31 - 1"
  shows "\<exists>st'. sp_exec x st = Some st' \<and> lr.sp_inv st'"
proof (cases x)
  case (OpNew i p)
  then show ?thesis
    using lr.sp_from_ptr_inv [OF sp_new_inv [OF inv, of p], of i p] ok bound
    by (auto simp: light_live_def light_new_def)
next
  case (OpInit i)
  then show ?thesis using sp_init_inv [OF inv] ok by simp
next
  case (OpCopy i j)
  then obtain p where p: "sps st j = Some p" "sps st i = None" using ok by auto
  have "sp_copy light_incStrong i j st = sp_from_ptr light_incStrong i p st"
    by (simp add: sp_copy_def sp_from_ptr_def m_ptr_def p)
  then show ?thesis
    using OpCopy lr.sp_from_ptr_inv [OF inv p(2) _ bound, of p] lr.sp_inv_live [OF inv p(1)] by auto
next
  case (OpAssign i j)
  then obtain p q where "sps st i = Some q" "sps st j = Some p" using ok by auto
  then show ?thesis using OpAssign lr.sp_assign_inv [OF inv _ _ bound, of i q j p] by auto
next
  case (OpClear i)
  then obtain p where "sps st i = Some p" using ok by auto
  then show ?thesis using OpClear lr.sp_clear_inv [OF inv] by auto
next
  case (OpDestroy i)
  then obtain p where "sps st i = Some p" using ok by auto
  then show ?thesis using OpDestroy lr.sp_destroy_inv [OF inv] by auto
qed

lemma sp_reach_inv: "sp_reach st \<Longrightarrow> lr.sp_inv st"
proof (induction rule: sp_reach.induct)
  case sp_start
  show ?case unfolding lr.sp_inv_def lr.agrees_def by (simp add: light_live_def refs_def)
next
  case (sp_step st x st')
  then show ?case using sp_exec_inv [of st x] by auto
qed

subsection \<open>Properties\<close>

text \<open>C14: in every state that a program over strong references can reach, each object that a
  reference holds is alive, and its count is exactly the number of references that hold it.\<close>

theorem sp_counts_exact:
  assumes "sp_reach st"
  shows "counts_exact st"
  using sp_reach_inv [OF assms] by (simp add: counts_exact_iff)

theorem sp_counts_exact_witness:
  "counts_exact (\<lparr>objs = Map.empty(7 \<mapsto> 1), sps = Map.empty(0 \<mapsto> 7)\<rparr> :: light_heap sp_state)"
proof (rule sp_counts_exact)
  show "sp_reach \<lparr>objs = Map.empty(7 \<mapsto> 1), sps = Map.empty(0 \<mapsto> 7)\<rparr>"
    by (rule sp_step [OF sp_start, of "OpNew 0 7"])
      (simp_all add: sp_from_ptr_def if_ptr_def objs_step_def set_pointer_def light_new_def light_incStrong_def)
qed

text \<open>C15: no operation of such a program touches a dead object: from a state with exact counts
  every allowed operation returns, with exact counts again.\<close>

theorem sp_no_use_after_free:
  assumes "counts_exact st" and "sp_allowed x st" and "card (dom (sps st)) < 2 ^ 31 - 1"
  shows "\<exists>st'. sp_exec x st = Some st' \<and> counts_exact st'"
  using sp_exec_inv [of st x] assms by (simp add: counts_exact_iff)

theorem sp_no_use_after_free_witness:
  "\<exists>st'. sp_exec (OpAssign 0 0) \<lparr>objs = Map.empty(7 \<mapsto> 1), sps = Map.empty(0 \<mapsto> 7)\<rparr> = Some st'
     \<and> counts_exact st'"
  by (rule sp_no_use_after_free) (simp_all add: counts_exact_def)

text \<open>Assigning one reference to another (self-assignment included) destroys the object that the
  target held exactly when the target was its only reference and the two objects differ, and
  destroys nothing else.\<close>

lemma sp_assign_destroys_last:
  assumes "counts_exact st" and "sps st i = Some q" and "sps st j = Some p"
    and "card (dom (sps st)) < 2 ^ 31 - 1"
  shows "\<exists>st'. sp_assign light_incStrong light_decStrong i j st = Some st' \<and> sps st' = (sps st)(i \<mapsto> p)
    \<and> (\<forall>r. objs st r \<noteq> None \<and> objs st' r = None \<longleftrightarrow>
         r = q \<and> q \<noteq> 0 \<and> p \<noteq> q \<and> card {k. sps st k = Some q} = 1)"
proof -
  have inv: "lr.sp_inv st" using assms(1) by (simp add: counts_exact_iff)
  obtain st' where st': "sp_assign light_incStrong light_decStrong i j st = Some st'"
    "sps st' = (sps st)(i \<mapsto> p)"
    "\<forall>r. r \<noteq> q \<or> p = q \<or> q = 0 \<longrightarrow> light_live (objs st') r = light_live (objs st) r"
    "q \<noteq> 0 \<and> p \<noteq> q \<longrightarrow> light_live (objs st') q = (refs (sps st) q \<noteq> 1)"
    using lr.sp_assign_inv [OF inv assms(2-4)] by blast
  have "objs st r \<noteq> None \<and> objs st' r = None \<longleftrightarrow>
      r = q \<and> q \<noteq> 0 \<and> p \<noteq> q \<and> card {k. sps st k = Some q} = 1" for r
  proof (cases "r = q \<and> p \<noteq> q \<and> q \<noteq> 0")
    case True
    then show ?thesis
      using st'(4) lr.sp_inv_live [OF inv assms(2)] by (cases "objs st' q") (simp_all add: light_live_def refs_def)
  next
    case False
    then have "light_live (objs st') r = light_live (objs st) r" using st'(3) by blast
    then show ?thesis using False unfolding light_live_def by blast
  qed
  then show ?thesis using st'(1,2) by blast
qed

theorem sp_assign_destroys_last_witness:
  "\<exists>st'. sp_assign light_incStrong light_decStrong 0 1
       \<lparr>objs = Map.empty(7 \<mapsto> 1), sps = Map.empty(0 \<mapsto> 7, 1 \<mapsto> 0)\<rparr> = Some st' \<and> objs st' 7 = None"
proof -
  let ?st = "\<lparr>objs = Map.empty(7 \<mapsto> 1), sps = Map.empty(0 \<mapsto> 7, 1 \<mapsto> 0)\<rparr> :: light_heap sp_state"
  have c: "{k. sps ?st k = Some 7} = {0}" "finite (dom (sps ?st))" "card (dom (sps ?st)) < 2 ^ 31 - 1"
    by auto
  have "counts_exact ?st" using c by (auto simp: counts_exact_def)
  from sp_assign_destroys_last [OF this _ _ c(3), of 0 7 1 0] c(1) show ?thesis by auto
qed

end
