(* ===== verification/Camera_Draw.thy ===== *)
theory Camera_Draw
  imports Camera_State Frame_Convert Strong_Pointer
begin

text \<open>
  The surfaces of the native \<open>Camera\<close>: the calls that set, add and remove them, and the two
  drawing routines of the capture thread, with their locks. A thread that locks a mutex it holds
  never returns: the value None. \<open>run_ui\<close> is what other threads do at a point where the
  capture thread holds no lock.
\<close>

subsection \<open>Mutexes\<close>

definition lock_preview :: "sys \<Rightarrow> sys option" where
  "lock_preview s = (if mPreviewLock (cam s) then None else Some (upd (mPreviewLock_update (\<lambda>_. True)) s))"

definition unlock_preview :: "sys \<Rightarrow> sys" where
  "unlock_preview = upd (mPreviewLock_update (\<lambda>_. False))"

definition lock_encoder :: "sys \<Rightarrow> sys option" where
  "lock_encoder s = (if mEncoderLock (cam s) then None else Some (upd (mEncoderLock_update (\<lambda>_. True)) s))"

definition unlock_encoder :: "sys \<Rightarrow> sys" where
  "unlock_encoder = upd (mEncoderLock_update (\<lambda>_. False))"

subsection \<open>Setting the surfaces\<close>

text \<open>A Java surface is a reference, 0 is null.\<close>

definition Surface_isValid :: "os \<Rightarrow> sys \<Rightarrow> surface \<Rightarrow> bool" where
  "Surface_isValid os s surface \<longleftrightarrow> surface \<noteq> 0 \<and> os_getIGraphicBufferProducer os (trace s) surface \<noteq> 0"

definition setPreviewSurface :: "os \<Rightarrow> nat \<Rightarrow> sys \<Rightarrow> sys option" where
  "setPreviewSurface os jsurface s =
     (if jsurface = 0 then do {
        s \<leftarrow> lock_preview s;
        Some (unlock_preview (upd (mPreviewSurface_update (\<lambda>_. 0)) s))
      } else let surface = os_getSurface os (trace s) jsurface in
      if \<not> Surface_isValid os s surface then Some s
      else do {
        s \<leftarrow> lock_preview s;
        Some (unlock_preview (upd (mPreviewSurface_update (\<lambda>_. surface)) s))
      })"

definition addEncoderSurface :: "os \<Rightarrow> nat \<Rightarrow> sys \<Rightarrow> sys option" where
  "addEncoderSurface os jsurface s =
     (if jsurface = 0 then Some s
      else let surface = os_getSurface os (trace s) jsurface in
      if \<not> Surface_isValid os s surface then Some s
      else do {
        s \<leftarrow> lock_encoder s;
        Some (unlock_encoder (upd (mEncoderSurfaces_update (\<lambda>l. l @ [surface])) s))
      })"

definition removeEncoderSurface :: "os \<Rightarrow> nat \<Rightarrow> sys \<Rightarrow> sys option" where
  "removeEncoderSurface os jsurface s =
     (if jsurface = 0 then Some s
      else let surface = os_getSurface os (trace s) jsurface in
      if \<not> Surface_isValid os s surface then Some s
      else do {
        s \<leftarrow> lock_encoder s;
        Some (unlock_encoder (upd (mEncoderSurfaces_update (filter (\<lambda>e. \<not> compare_ptr CmpEq e surface))) s))
      })"

definition stopCapture :: "sys \<Rightarrow> sys" where
  "stopCapture = upd (mPeekRun_update (\<lambda>_. False))"

subsection \<open>Other threads\<close>

text \<open>A thread that calls into an object that is gone faults; releasing stops the capture and
  deletes the object, as \<open>nativeReleaseCamera\<close> does.\<close>

definition ui_exec :: "os \<Rightarrow> ui_op \<Rightarrow> sys \<Rightarrow> sys option" where
  "ui_exec os op s =
     (if \<not> alive s then None
      else case op of
        UiStop \<Rightarrow> Some (stopCapture s)
      | UiSetPreview j \<Rightarrow> setPreviewSurface os j s
      | UiAddEncoder j \<Rightarrow> addEncoderSurface os j s
      | UiRemoveEncoder j \<Rightarrow> removeEncoderSurface os j s
      | UiRelease \<Rightarrow> Some (Camera_delete (stopCapture s)))"

primrec ui_execs :: "os \<Rightarrow> ui_op list \<Rightarrow> sys \<Rightarrow> sys option" where
  "ui_execs os [] s = Some s"
| "ui_execs os (op # ops) s = do { s \<leftarrow> ui_exec os op s; ui_execs os ops s }"

text \<open>A point where other threads act. The next thing the capture thread does after each of them is to
  access a member of the object -- it reads \<open>mPeekRun\<close> at the loop head and after \<open>select\<close>, reads
  \<open>mPreviewSurface\<close> to draw, and takes \<open>mPreviewLock\<close> and \<open>mEncoderLock\<close> -- so an object that was deleted at the
  point is a fault of that access, and the model lets it happen at the point.\<close>

definition run_ui :: "os \<Rightarrow> ui_point \<Rightarrow> sys \<Rightarrow> sys option" where
  "run_ui os pt s = do {
     s \<leftarrow> ui_execs os (os_ui os pt (trace s)) s;
     if alive s then Some s else None
   }"

subsection \<open>Memory and windows\<close>

definition new_chars :: "os \<Rightarrow> sys \<Rightarrow> int \<Rightarrow> mem option" where
  "new_chars os s n = (if n < 0 then None else Some (map (os_uninit os (trace s)) [0..<nat n]))"

text \<open>The frame \<open>mBufferArray[mCurBufInfo.index].start\<close> points to.\<close>

definition current_frame :: "os \<Rightarrow> sys \<Rightarrow> mem option" where
  "current_frame os s = do {
     b \<leftarrow> rd (mBufferArray (cam s)) (mCurBufIndex (cam s));
     b \<leftarrow> b;
     Some (os_frame os (trace s) (map_start b))
   }"

text \<open>The window behind a surface, its calls logged. NULL is no window.\<close>

definition window_of :: "os \<Rightarrow> surface \<Rightarrow> sys ANativeWindow option" where
  "window_of os p = (if p = 0 then None else
     let w = os_window os p; quiet = (\<lambda>f s. (fst (f (trace s)), s))
     in Some \<lparr>win_common = win_common w, flags = flags w, minSwapInterval = minSwapInterval w,
       maxSwapInterval = maxSwapInterval w,
       hook_setSwapInterval = (\<lambda>i. quiet (hook_setSwapInterval w i)),
       hook_dequeueBuffer_DEPRECATED = (\<lambda>s. let (r, b) = fst (hook_dequeueBuffer_DEPRECATED w (trace s))
         in ((r, b), emit (EvDequeue p r) s)),
       hook_lockBuffer_DEPRECATED = (\<lambda>b. quiet (hook_lockBuffer_DEPRECATED w b)),
       hook_queueBuffer_DEPRECATED = (\<lambda>b. quiet (hook_queueBuffer_DEPRECATED w b)),
       hook_query = (\<lambda>a s. hook_query w a (trace s)),
       hook_perform = (\<lambda>op args s. (fst (hook_perform w op args (trace s)), emit (EvPerform p op args) s)),
       hook_cancelBuffer_DEPRECATED = (\<lambda>b. quiet (hook_cancelBuffer_DEPRECATED w b)),
       hook_dequeueBuffer = (\<lambda>s. (fst (hook_dequeueBuffer w (trace s)), s)),
       hook_queueBuffer = (\<lambda>b fence s. let r = fst (hook_queueBuffer w b fence (trace s))
         in (r, emit (EvQueue p b r) s)),
       hook_cancelBuffer = (\<lambda>b fence. quiet (hook_cancelBuffer w b fence))\<rparr>)"

subsection \<open>drawPreviewSurface\<close>

text \<open>The four settings made before a buffer is dequeued; their results are ignored.\<close>

definition preview_usage :: int where
  "preview_usage = uint (gralloc_usage_value SW_READ_NEVER OR gralloc_usage_value SW_WRITE_OFTEN
     OR gralloc_usage_value HW_TEXTURE OR gralloc_usage_value EXTERNAL_DISP)"

definition preview_settings :: "sys ANativeWindow \<Rightarrow> int \<Rightarrow> int \<Rightarrow> sys \<Rightarrow> sys" where
  "preview_settings w bufWidth bufHeight s =
     (let (_, s) = native_window_set_usage w preview_usage s;
          (_, s) = native_window_set_buffers_dimensions w bufWidth bufHeight s;
          (_, s) = native_window_set_scaling_mode w
            (scaling_mode_value NATIVE_WINDOW_SCALING_MODE_SCALE_CROP) s;
          (_, s) = native_window_set_buffers_format w (hal_pixel_format_value HAL_PIXEL_FORMAT_YV12) s
      in s)"

text \<open>Lock the dequeued buffer, copy the converted picture, unlock it.\<close>

definition preview_copy :: "os \<Rightarrow> ANativeWindowBuffer \<Rightarrow> mem \<Rightarrow> sys \<Rightarrow> sys option" where
  "preview_copy os buf yuv s = (
     let dst = os_mapper_lock os (trace s) (buf_handle buf);
         s = emit (EvMapLock (buf_handle buf) (uint (gralloc_usage_value SW_WRITE_OFTEN))
               (mWidth (cam s)) (mHeight (cam s))) s;
         dst_y_size = buf_stride buf * buf_height buf;
         dst_c_stride = ALIGN (cdiv (buf_stride buf) 2) 16;
         dst_c_size = dst_c_stride * buf_height buf div 2
     in do {
       dst \<leftarrow> dst;
       dst \<leftarrow> memcpy dst 0 yuv 0 (dst_y_size + dst_c_size * 2);
       Some (emit (EvMapUnlock (buf_handle buf) dst) s)
     })"

definition preview_convert :: "os \<Rightarrow> sys \<Rightarrow> (mem \<times> sys) option" where
  "preview_convert os s = do {
     yuv \<leftarrow> (case mYuv420sp (cam s) of
        None \<Rightarrow> new_chars os s (cdiv (mWidth (cam s) * mHeight (cam s) * 3) 2) | Some m \<Rightarrow> Some m);
     frame \<leftarrow> current_frame os s;
     yuv \<leftarrow> Yvyu2Yuv420 frame yuv (mWidth (cam s)) (mHeight (cam s));
     Some (yuv, upd (mYuv420sp_update (\<lambda>_. Some yuv)) s)
   }"

definition drawPreviewSurface :: "os \<Rightarrow> sys \<Rightarrow> sys option" where
  "drawPreviewSurface os s = (
     let nativeWindow = mPreviewSurface (cam s);
         bufWidth = (mWidth (cam s) + 1) AND NOT 1;
         bufHeight = (mHeight (cam s) + 1) AND NOT 1
     in do {
       s \<leftarrow> run_ui os BeforePreviewLock s;
       s \<leftarrow> lock_preview s;
       if mPreviewSurface (cam s) = 0 then
         Some (unlock_preview (upd (mYuv420sp_update (\<lambda>_. None)) s))
       else do {
         (yuv, s) \<leftarrow> preview_convert os s;
         w \<leftarrow> window_of os nativeWindow;
         let ((err, buf), s) = native_window_dequeue_buffer_and_wait w (preview_settings w bufWidth bufHeight s);
         if err \<noteq> 0 then Some (unlock_preview s)
         else do {
           s \<leftarrow> preview_copy os buf yuv s;
           let (err, s) = hook_queueBuffer w buf (- 1) s;
           Some (unlock_preview s)
         }
       }
     })"

subsection \<open>drawEncoderSurface\<close>

definition encoder_post :: "os \<Rightarrow> mem \<Rightarrow> surface \<Rightarrow> sys \<Rightarrow> sys option" where
  "encoder_post os rgba p s = (
     let (r, b) = os_ANativeWindow_lock os (trace s) p; s = emit (EvWindowLock p r) s
     in if r = 0 then do {
          bits \<leftarrow> (if mWidth (cam s) = nwb_width b \<and> mHeight (cam s) = nwb_height b
            then memcpy (nwb_bits b) 0 rgba 0 (mWidth (cam s) * mHeight (cam s) * 4)
            else copyFrameCenterGravity (nwb_bits b) rgba (nwb_width b) (nwb_height b)
              (mWidth (cam s)) (mHeight (cam s)) 2);
          Some (emit (EvUnlockAndPost p bits) s)
        } else Some s)"

primrec encoder_posts :: "os \<Rightarrow> mem \<Rightarrow> surface list \<Rightarrow> sys \<Rightarrow> sys option" where
  "encoder_posts os rgba [] s = Some s"
| "encoder_posts os rgba (p # ps) s = do { s \<leftarrow> encoder_post os rgba p s; encoder_posts os rgba ps s }"

definition drawEncoderSurface :: "os \<Rightarrow> sys \<Rightarrow> sys option" where
  "drawEncoderSurface os s = do {
     s \<leftarrow> run_ui os BeforeEncoderLock s;
     s \<leftarrow> lock_encoder s;
     if length (mEncoderSurfaces (cam s)) = 0 then
       Some (upd (mRGBA8888_update (\<lambda>_. None)) (unlock_encoder s))
     else do {
       rgba \<leftarrow> (case mRGBA8888 (cam s) of
          None \<Rightarrow> new_chars os s (mWidth (cam s) * mHeight (cam s) * 4) | Some m \<Rightarrow> Some m);
       frame \<leftarrow> current_frame os s;
       rgba \<leftarrow> Yvyu2RGBA (os_char_signed os) rgba frame (mWidth (cam s)) (mHeight (cam s));
       let s = upd (mRGBA8888_update (\<lambda>_. Some rgba)) s;
       s \<leftarrow> encoder_posts os rgba (mEncoderSurfaces (cam s)) s;
       Some (unlock_encoder s)
     }
   }"



subsection \<open>What every operation keeps\<close>

lemmas lock_defs = lock_preview_def unlock_preview_def lock_encoder_def unlock_encoder_def

definition unlocked :: "sys \<Rightarrow> bool" where
  "unlocked s \<longleftrightarrow> \<not> mPreviewLock (cam s) \<and> \<not> mEncoderLock (cam s)"

text \<open>The members that drawing and the other threads leave alone.\<close>

definition fixed :: "Camera \<Rightarrow> int \<times> int \<times> int \<times> int \<times> buffer option list \<times> string option" where
  "fixed c = (mFD c, mWidth c, mHeight c, mCurBufIndex c, mBufferArray c, mCameraDevPath c)"

fun window_event :: "event \<Rightarrow> bool" where
  "window_event (EvPerform p op args) = True"
| "window_event (EvDequeue p r) = True"
| "window_event (EvMapLock h u x y) = True"
| "window_event (EvMapUnlock h m) = True"
| "window_event (EvQueue p b r) = True"
| "window_event (EvWindowLock p r) = True"
| "window_event (EvUnlockAndPost p m) = True"
| "window_event _ = False"

text \<open>The log is only extended, by window events.\<close>

definition logs :: "sys \<Rightarrow> sys \<Rightarrow> bool" where
  "logs s s' \<longleftrightarrow> (\<exists>es. trace s' = trace s @ es \<and> list_all window_event es)"

lemma logs_refl [simp]: "logs s s"
  by (simp add: logs_def)

lemma logs_same: "trace s' = trace s \<Longrightarrow> logs s s'"
  by (simp add: logs_def)

lemma logs_trans:
  assumes "logs a b" "logs b c"
  shows "logs a c"
proof -
  obtain x y where "trace b = trace a @ x" "list_all window_event x" "trace c = trace b @ y" "list_all window_event y"
    using assms by (auto simp: logs_def)
  then have "trace c = trace a @ (x @ y) \<and> list_all window_event (x @ y)" by simp
  then show ?thesis unfolding logs_def by blast
qed

lemma logs_emit:
  assumes "logs s t" "window_event e"
  shows "logs s (emit e t)"
  by (rule logs_trans [OF assms(1)]) (use assms(2) in \<open>simp add: logs_def\<close>)

lemma logs_upd [simp]: "logs s (upd f t) = logs s t" "logs (upd f s) t = logs s t"
  by (simp_all add: logs_def)

definition keeps :: "sys \<Rightarrow> sys \<Rightarrow> bool" where
  "keeps s s' \<longleftrightarrow> unlocked s' \<and> alive s' \<and> fixed (cam s') = fixed (cam s) \<and>
     (mPeekRun (cam s') \<longrightarrow> mPeekRun (cam s)) \<and>
     (0 \<notin> set (mEncoderSurfaces (cam s)) \<longrightarrow> 0 \<notin> set (mEncoderSurfaces (cam s'))) \<and>
     logs s s'"

lemma keeps_trans: "keeps a b \<Longrightarrow> keeps b c \<Longrightarrow> keeps a c"
  unfolding keeps_def by (metis logs_trans)

lemma keeps_refl: "unlocked s \<Longrightarrow> alive s \<Longrightarrow> keeps s s"
  by (simp add: keeps_def)

lemma surface_ops_keep:
  assumes "unlocked s" "alive s"
  shows "setPreviewSurface os j s = Some s' \<Longrightarrow> keeps s s' \<and> trace s' = trace s"
    and "addEncoderSurface os j s = Some s' \<Longrightarrow> keeps s s' \<and> trace s' = trace s"
    and "removeEncoderSurface os j s = Some s' \<Longrightarrow> keeps s s' \<and> trace s' = trace s"
    and "keeps s (stopCapture s) \<and> trace (stopCapture s) = trace s"
  using assms
  by (auto simp: setPreviewSurface_def addEncoderSurface_def removeEncoderSurface_def stopCapture_def keeps_def
      logs_same unlocked_def fixed_def lock_defs Let_def Surface_isValid_def Option.bind_eq_Some_conv split: if_splits)

lemma Camera_delete_dead [simp]: "\<not> alive (Camera_delete s)"
  by (simp add: Camera_delete_def Let_def)

lemma ui_exec_keeps:
  assumes "ui_exec os op s = Some s'" "unlocked s" "alive s'"
  shows "keeps s s' \<and> trace s' = trace s"
proof -
  have "alive s" using assms(1) by (auto simp: ui_exec_def split: if_splits)
  note k = surface_ops_keep [OF assms(2) this]
  show ?thesis using assms \<open>alive s\<close> k by (cases op) (auto simp: ui_exec_def)
qed

lemma ui_execs_keeps:
  "ui_execs os ops s = Some s' \<Longrightarrow> unlocked s \<Longrightarrow> alive s' \<Longrightarrow> keeps s s' \<and> trace s' = trace s"
proof (induction ops arbitrary: s)
  case Nil
  then show ?case by (simp add: keeps_refl)
next
  case (Cons op ops)
  then obtain s1 where s1: "ui_exec os op s = Some s1" "ui_execs os ops s1 = Some s'"
    by (auto simp: Option.bind_eq_Some_conv)
  have a: "alive s1" using s1(2) Cons.prems(3) by (cases ops) (auto simp: ui_exec_def Option.bind_eq_Some_conv split: if_splits)
  have k: "keeps s s1 \<and> trace s1 = trace s" by (rule ui_exec_keeps [OF s1(1) Cons.prems(2) a])
  then have "unlocked s1" by (simp add: keeps_def)
  from Cons.IH [OF s1(2) this Cons.prems(3)] k show ?case by (auto intro: keeps_trans)
qed

lemma run_ui_keeps: "run_ui os pt s = Some s' \<Longrightarrow> unlocked s \<Longrightarrow> keeps s s' \<and> trace s' = trace s"
  using ui_execs_keeps by (auto simp: run_ui_def Option.bind_eq_Some_conv split: if_splits)

lemma run_ui_none: "os_ui os pt (trace s) = [] \<Longrightarrow> alive s \<Longrightarrow> run_ui os pt s = Some s"
  by (simp add: run_ui_def)

text \<open>The part of \<open>keeps\<close> that holds while a lock is held: the log and the fixed members.\<close>

definition draws :: "sys \<Rightarrow> sys \<Rightarrow> bool" where
  "draws s s' \<longleftrightarrow> (cam s)\<lparr>mYuv420sp := None, mRGBA8888 := None\<rparr> = (cam s')\<lparr>mYuv420sp := None, mRGBA8888 := None\<rparr> \<and>
     alive s' = alive s \<and> logs s s'"

lemma draws_refl [simp]: "draws s s"
  by (simp add: draws_def)

lemma draws_trans: "draws a b \<Longrightarrow> draws b c \<Longrightarrow> draws a c"
  unfolding draws_def by (metis logs_trans)

lemma draws_emit: "draws s t \<Longrightarrow> window_event e \<Longrightarrow> draws s (emit e t)"
  by (simp add: draws_def logs_emit)

lemma draws_upd:
  "draws s t \<Longrightarrow> draws s (upd (mYuv420sp_update f) t)" "draws s t \<Longrightarrow> draws s (upd (mRGBA8888_update f) t)"
  by (simp_all add: draws_def)

lemma draws_fields:
  assumes "draws s s'"
  shows "fixed (cam s') = fixed (cam s)" "mPeekRun (cam s') = mPeekRun (cam s)" "alive s' = alive s"
    "mEncoderSurfaces (cam s') = mEncoderSurfaces (cam s)" "mPreviewLock (cam s') = mPreviewLock (cam s)"
    "mEncoderLock (cam s') = mEncoderLock (cam s)" "mPreviewSurface (cam s') = mPreviewSurface (cam s)" "logs s s'"
  using assms by (cases "cam s"; cases "cam s'"; simp add: draws_def fixed_def)+

lemma preview_settings_draws: "window_of os p = Some w \<Longrightarrow> draws s (preview_settings w x y s)"
  by (auto simp: window_of_def Let_def preview_settings_def native_window_helper_defs split: if_splits
      intro!: draws_emit draws_refl)

lemma dequeue_draws:
  "window_of os p = Some w \<Longrightarrow> native_window_dequeue_buffer_and_wait w s = (r, s') \<Longrightarrow> draws s s'"
  by (auto simp: window_of_def Let_def native_window_helper_defs split_beta split: if_splits intro!: draws_emit draws_refl)

lemma queue_draws: "window_of os p = Some w \<Longrightarrow> hook_queueBuffer w b f s = (r, s') \<Longrightarrow> draws s s'"
  by (auto simp: window_of_def Let_def split: if_splits intro!: draws_emit draws_refl)

lemma preview_copy_draws: "preview_copy os buf yuv s = Some s' \<Longrightarrow> draws s s'"
  by (auto simp: preview_copy_def Let_def Option.bind_eq_Some_conv intro!: draws_emit draws_refl)

lemma preview_convert_draws: "preview_convert os s = Some (yuv, s') \<Longrightarrow> draws s s'"
  by (auto simp: preview_convert_def Option.bind_eq_Some_conv intro: draws_upd draws_refl)

lemma encoder_post_draws: "encoder_post os rgba p s = Some s' \<Longrightarrow> draws s s'"
  by (auto simp: encoder_post_def Let_def split_beta Option.bind_eq_Some_conv split: if_splits intro!: draws_emit draws_refl)

lemma encoder_posts_draws: "encoder_posts os rgba ps s = Some s' \<Longrightarrow> draws s s'"
  by (induction ps arbitrary: s)
    (auto simp: Option.bind_eq_Some_conv intro: draws_trans [OF encoder_post_draws])

text \<open>A critical section: locked, drawn, unlocked.\<close>

lemma keepsI:
  assumes "keeps s0 s" "logs s s'" "unlocked s'" "alive s'" "fixed (cam s') = fixed (cam s)"
    "mPeekRun (cam s') = mPeekRun (cam s)" "mEncoderSurfaces (cam s') = mEncoderSurfaces (cam s)"
  shows "keeps s0 s'"
  using assms logs_trans [of s0 s s'] by (simp add: keeps_def)

lemma fixed_locks [simp]:
  "fixed (mPreviewLock_update f c) = fixed c" "fixed (mEncoderLock_update f c) = fixed c"
  "fixed (mYuv420sp_update y c) = fixed c" "fixed (mRGBA8888_update y c) = fixed c"
  by (simp_all add: fixed_def)

lemma preview_section:
  assumes "keeps s0 s" "lock_preview s = Some s1" "draws s1 s2"
  shows "keeps s0 (unlock_preview s2)"
proof (rule keepsI [OF assms(1)])
  note d = draws_fields [OF assms(3)]
  have s1: "s1 = upd (mPreviewLock_update (\<lambda>_. True)) s" and s: "unlocked s" "alive s"
    using assms by (auto simp: lock_defs keeps_def split: if_splits)
  show "logs s (unlock_preview s2)" using d(8) by (simp add: s1 lock_defs)
  show "unlocked (unlock_preview s2)" using s d(6) by (simp add: s1 unlocked_def lock_defs)
qed (use draws_fields [OF assms(3)] assms in \<open>auto simp: lock_defs keeps_def split: if_splits\<close>)

lemma encoder_section:
  assumes "keeps s0 s" "lock_encoder s = Some s1" "draws s1 s2"
  shows "keeps s0 (unlock_encoder s2)"
proof (rule keepsI [OF assms(1)])
  note d = draws_fields [OF assms(3)]
  have s1: "s1 = upd (mEncoderLock_update (\<lambda>_. True)) s" and s: "unlocked s" "alive s"
    using assms by (auto simp: lock_defs keeps_def split: if_splits)
  show "logs s (unlock_encoder s2)" using d(8) by (simp add: s1 lock_defs)
  show "unlocked (unlock_encoder s2)" using s d(5) by (simp add: s1 unlocked_def lock_defs)
qed (use draws_fields [OF assms(3)] assms in \<open>auto simp: lock_defs keeps_def split: if_splits\<close>)

text \<open>The interface of the two drawing routines towards the capture loop.\<close>

locale drawing =
  fixes draw :: "os \<Rightarrow> sys \<Rightarrow> sys option"
  assumes draw_keeps: "draw os s = Some s' \<Longrightarrow> unlocked s \<Longrightarrow> alive s \<Longrightarrow> keeps s s'"

lemma drawPreviewSurface_keeps:
  assumes "drawPreviewSurface os s = Some s'" "unlocked s" "alive s"
  shows "keeps s s'"
proof -
  obtain s0 s1 where s0: "run_ui os BeforePreviewLock s = Some s0" and s1: "lock_preview s0 = Some s1"
    using assms(1) by (auto simp: drawPreviewSurface_def Let_def Option.bind_eq_Some_conv)
  have k: "keeps s s0" using run_ui_keeps [OF s0 assms(2)] by simp
  show ?thesis
  proof (cases "mPreviewSurface (cam s1) = 0")
    case True
    then have s': "s' = unlock_preview (upd (mYuv420sp_update (\<lambda>_. None)) s1)"
      using assms(1) s0 s1 by (simp add: drawPreviewSurface_def Let_def)
    show ?thesis unfolding s' by (rule preview_section [OF k s1 draws_upd(1) [OF draws_refl]])
  next
    case False
    then obtain yuv s2 w where s2: "preview_convert os s1 = Some (yuv, s2)"
        and w: "window_of os (mPreviewSurface (cam s)) = Some w"
      using assms(1) s0 s1 by (auto simp: drawPreviewSurface_def Let_def Option.bind_eq_Some_conv)
    let ?s3 = "preview_settings w ((mWidth (cam s) + 1) AND NOT 1) ((mHeight (cam s) + 1) AND NOT 1) s2"
    obtain err buf s4 where s4: "native_window_dequeue_buffer_and_wait w ?s3 = ((err, buf), s4)"
      by (metis surj_pair)
    have d: "draws s1 s4"
      by (rule draws_trans [OF draws_trans [OF preview_convert_draws [OF s2] preview_settings_draws [OF w]]
            dequeue_draws [OF w s4]])
    show ?thesis
    proof (cases "err = 0")
      case True
      then obtain s5 where s5: "preview_copy os buf yuv s4 = Some s5"
          and s': "s' = unlock_preview (snd (hook_queueBuffer w buf (- 1) s5))"
        using assms(1) s0 s1 s2 s4 w \<open>mPreviewSurface (cam s1) \<noteq> 0\<close>
        by (auto simp: drawPreviewSurface_def Let_def Option.bind_eq_Some_conv split_beta)
      have "draws s5 (snd (hook_queueBuffer w buf (- 1) s5))" by (rule queue_draws [OF w]) (rule surjective_pairing)
      then show ?thesis unfolding s'
        by (intro preview_section [OF k s1] draws_trans [OF d] draws_trans [OF preview_copy_draws [OF s5]])
    next
      case err: False
      then have s': "s' = unlock_preview s4"
        using assms(1) s0 s1 s2 s4 w False by (simp add: drawPreviewSurface_def Let_def)
      show ?thesis unfolding s' by (rule preview_section [OF k s1 d])
    qed
  qed
qed

lemma drawEncoderSurface_keeps:
  assumes "drawEncoderSurface os s = Some s'" "unlocked s" "alive s"
  shows "keeps s s'"
proof -
  obtain s0 s1 where s0: "run_ui os BeforeEncoderLock s = Some s0" and s1: "lock_encoder s0 = Some s1"
    using assms(1) by (auto simp: drawEncoderSurface_def Let_def Option.bind_eq_Some_conv)
  have k: "keeps s s0" using run_ui_keeps [OF s0 assms(2)] by simp
  show ?thesis
  proof (cases "mEncoderSurfaces (cam s1) = []")
    case True
    then have s': "s' = upd (mRGBA8888_update (\<lambda>_. None)) (unlock_encoder s1)"
      using assms(1) s0 s1 by (simp add: drawEncoderSurface_def Let_def)
    have "keeps s (unlock_encoder s1)" by (rule encoder_section [OF k s1 draws_refl])
    then show ?thesis unfolding s' by (simp add: keeps_def unlocked_def)
  next
    case False
    then obtain rgba s2 where s2: "encoder_posts os rgba (mEncoderSurfaces (cam s1))
          (upd (mRGBA8888_update (\<lambda>_. Some rgba)) s1) = Some s2" and s': "s' = unlock_encoder s2"
      using assms(1) s0 s1 by (auto simp: drawEncoderSurface_def Let_def Option.bind_eq_Some_conv)
    have "draws s1 s2" by (rule draws_trans [OF draws_upd(2) [OF draws_refl] encoder_posts_draws [OF s2]])
    then show ?thesis unfolding s' by (rule encoder_section [OF k s1])
  qed
qed

interpretation pv: drawing drawPreviewSurface
  by unfold_locales (rule drawPreviewSurface_keeps)

interpretation ec: drawing drawEncoderSurface
  by unfold_locales (rule drawEncoderSurface_keeps)

text \<open>What the capture loop needs of two drawing routines called one after the other.\<close>

locale two_drawings = p: drawing preview + e: drawing encoder
  for preview encoder :: "os \<Rightarrow> sys \<Rightarrow> sys option"
begin

lemma both_keep:
  assumes "preview os s = Some s1" "encoder os s1 = Some s2" "unlocked s" "alive s"
  shows "unlocked s1 \<and> keeps s s2"
  using p.draw_keeps [OF assms(1,3,4)] e.draw_keeps [OF assms(2)] by (auto simp: keeps_def intro: keeps_trans logs_trans)

end

interpretation dp: two_drawings drawPreviewSurface drawEncoderSurface
  by unfold_locales

end
