(* ===== verification/Draw_Correct.thy ===== *)
theory Draw_Correct
  imports Camera_Draw
begin

text \<open>
  What the two drawing routines of the capture thread put into the buffers of their windows: the
  sizes of the work arrays, the calls on a window, the preview picture, the encoder pictures.
\<close>

subsection \<open>The sizes of the two work arrays\<close>

lemma for_loop_length:
  assumes "for_loop a b f s = Some t" "a \<le> b"
    and "\<And>i u u'. f i u = Some u' \<Longrightarrow> length (fst u') = length (fst u)"
  shows "length (fst t) = length (fst s)"
proof (rule for_loop_partial [where I = "\<lambda>_ u. length (fst u) = length (fst s)", OF assms(1,2)])
  show "length (fst u') = length (fst s)" if "length (fst u) = length (fst s)" "f i u = Some u'" for i u u'
    using assms(3) [OF that(2)] that(1) by (simp only:)
qed simp

lemma yuv420_px_length: "yuv420_px f w i j u = Some u' \<Longrightarrow> length (fst u') = length (fst u)"
  by (cases "i mod 2 = 0"; clarsimp simp: yuv420_px_def split_beta Option.bind_eq_Some_conv; metis wr_length)

lemma rgba_px_length: "rgba_px sgnd f j i u = Some u' \<Longrightarrow> length (fst u') = length (fst u)"
  by (auto simp: rgba_px_def wr32_def split_beta Let_def Option.bind_eq_Some_conv dest!: memcpy_length)

lemma inner_length:
  assumes "for_loop 0 n f s = Some t" and "\<And>i u u'. f i u = Some u' \<Longrightarrow> length (fst u') = length (fst u)"
  shows "length (fst t) = length (fst s)"
  using for_loop_length [OF assms(1) _ assms(2)] assms(1) by (cases "0 \<le> n") auto

lemma Yvyu2Yuv420_length: "Yvyu2Yuv420 f m w h = Some m' \<Longrightarrow> length m' = length m"
proof -
  assume "Yvyu2Yuv420 f m w h = Some m'"
  then obtain u where u: "for_loop 0 h (\<lambda>i. for_loop 0 (cdiv w 2) (yuv420_px f w i))
      (m, 0, w * h, w * h + cdiv (w * h) 4) = Some u" "m' = fst u"
    by (auto simp: Yvyu2Yuv420_def Let_def)
  show ?thesis using inner_length [OF u(1) inner_length [OF _ yuv420_px_length]] u(2) by simp
qed

lemma Yvyu2RGBA_length: "Yvyu2RGBA sgnd m f w h = Some m' \<Longrightarrow> length m' = length m"
proof -
  assume "Yvyu2RGBA sgnd m f w h = Some m'"
  then obtain u where u: "for_loop 0 h (\<lambda>j. for_loop 0 (cdiv w 2) (rgba_px sgnd f j)) (m, 0, 0) = Some u" "m' = fst u"
    by (auto simp: Yvyu2RGBA_def)
  show ?thesis using inner_length [OF u(1) inner_length [OF _ rgba_px_length]] u(2) by simp
qed

definition arrays_ok :: "Camera \<Rightarrow> bool" where
  "arrays_ok c \<longleftrightarrow>
     (case mYuv420sp c of None \<Rightarrow> True | Some m \<Rightarrow> int (length m) = cdiv (mWidth c * mHeight c * 3) 2) \<and>
     (case mRGBA8888 c of None \<Rightarrow> True | Some m \<Rightarrow> int (length m) = mWidth c * mHeight c * 4)"

lemma new_chars_nat: "new_chars os s (int n) = Some (map (os_uninit os (trace s)) [0..<n])"
  by (simp add: new_chars_def)

lemma new_chars_length: "new_chars os s n = Some m \<Longrightarrow> int (length m) = n"
  by (auto simp: new_chars_def split: if_splits)

lemma preview_convert_arrays:
  assumes "preview_convert os s = Some (yuv, s')" "arrays_ok (cam s)"
  shows "arrays_ok (cam s') \<and> int (length yuv) = cdiv (mWidth (cam s) * mHeight (cam s) * 3) 2"
  using assms
  by (auto simp: preview_convert_def arrays_ok_def Option.bind_eq_Some_conv split: option.splits
      dest!: Yvyu2Yuv420_length new_chars_length)

lemma arrays_ok_locks [simp]:
  "arrays_ok (mPreviewLock_update f c) = arrays_ok c" "arrays_ok (mEncoderLock_update f c) = arrays_ok c"
  "arrays_ok (mPreviewSurface_update g c) = arrays_ok c" "arrays_ok (mEncoderSurfaces_update h c) = arrays_ok c"
  "arrays_ok (mPeekRun_update k c) = arrays_ok c"
  by (simp_all add: arrays_ok_def split: option.split)

lemma ui_exec_arrays: "ui_exec os op s = Some s' \<Longrightarrow> arrays_ok (cam s) \<Longrightarrow> alive s' \<Longrightarrow> arrays_ok (cam s')"
  by (cases op)
    (auto simp: ui_exec_def setPreviewSurface_def addEncoderSurface_def removeEncoderSurface_def stopCapture_def
      lock_defs Let_def Option.bind_eq_Some_conv split: if_splits)

lemma ui_execs_arrays: "ui_execs os ops s = Some s' \<Longrightarrow> arrays_ok (cam s) \<Longrightarrow> alive s' \<Longrightarrow> arrays_ok (cam s')"
proof (induction ops arbitrary: s)
  case (Cons op ops)
  then obtain s1 where s1: "ui_exec os op s = Some s1" "ui_execs os ops s1 = Some s'"
    by (auto simp: Option.bind_eq_Some_conv)
  have a: "alive s1" using s1(2) Cons.prems(3) by (cases ops) (auto simp: ui_exec_def Option.bind_eq_Some_conv split: if_splits)
  show ?case by (rule Cons.IH [OF s1(2) ui_exec_arrays [OF s1(1) Cons.prems(2) a] Cons.prems(3)])
qed simp

lemma run_ui_arrays: "run_ui os pt s = Some s' \<Longrightarrow> arrays_ok (cam s) \<Longrightarrow> arrays_ok (cam s')"
  by (auto simp: run_ui_def Option.bind_eq_Some_conv split: if_splits dest: ui_execs_arrays)

subsection \<open>The calls on a window\<close>

lemma preview_settings_eq:
  assumes "window_of os p = Some w"
  shows "cam (preview_settings w x y s) = cam s" "alive (preview_settings w x y s) = alive s"
    "trace (preview_settings w x y s) = trace s @
       [EvPerform p NATIVE_WINDOW_SET_USAGE [ArgInt preview_usage],
        EvPerform p NATIVE_WINDOW_SET_BUFFERS_DIMENSIONS [ArgInt x, ArgInt y],
        EvPerform p NATIVE_WINDOW_SET_SCALING_MODE [ArgInt 2],
        EvPerform p NATIVE_WINDOW_SET_BUFFERS_FORMAT [ArgInt (hal_pixel_format_value HAL_PIXEL_FORMAT_YV12)]]"
  using assms by (auto simp: window_of_def Let_def preview_settings_def native_window_helper_defs split: if_splits)

lemma dequeue_eq:
  assumes "window_of os p = Some w"
  shows "native_window_dequeue_buffer_and_wait w s =
    (let (r, b) = fst (hook_dequeueBuffer_DEPRECATED (os_window os p) (trace s)) in ((r, b), emit (EvDequeue p r) s))"
  using assms by (auto simp: window_of_def Let_def native_window_helper_defs split: if_splits)

lemma queue_eq:
  assumes "window_of os p = Some w"
  shows "hook_queueBuffer w b f s =
    (let r = fst (hook_queueBuffer (os_window os p) b f (trace s)) in (r, emit (EvQueue p b r) s))"
  using assms by (auto simp: window_of_def Let_def split: if_splits)

lemma window_of_Some: "p \<noteq> 0 \<Longrightarrow> \<exists>w. window_of os p = Some w"
  by (simp add: window_of_def Let_def)

subsection \<open>The preview picture\<close>

text \<open>The camera shows \<open>f\<close>: a captured YUYV frame of \<open>2 a * 2 b\<close> pixels.\<close>

definition shows_frame :: "os \<Rightarrow> sys \<Rightarrow> nat \<Rightarrow> nat \<Rightarrow> mem \<Rightarrow> bool" where
  "shows_frame os s a b f \<longleftrightarrow> mWidth (cam s) = 2 * int a \<and> mHeight (cam s) = 2 * int b \<and>
     current_frame os s = Some f \<and> 8 * (a * b) \<le> length f"

lemma shows_frame_cong:
  "cam s' = (cam s)\<lparr>mPreviewLock := x, mEncoderLock := y\<rparr> \<Longrightarrow> trace s' = trace s \<Longrightarrow> shows_frame os s' a b f = shows_frame os s a b f"
  by (simp add: shows_frame_def current_frame_def)

lemma preview_convert_frame:
  assumes "shows_frame os s a b f" "arrays_ok (cam s)"
  shows "preview_convert os s = Some (yv12_planes a b f, upd (mYuv420sp_update (\<lambda>_. Some (yv12_planes a b f))) s)"
proof -
  have size: "cdiv (mWidth (cam s) * mHeight (cam s) * 3) 2 = int (6 * (a * b))"
    using assms(1) by (simp add: shows_frame_def)
  obtain m where m: "(case mYuv420sp (cam s) of None \<Rightarrow> new_chars os s (cdiv (mWidth (cam s) * mHeight (cam s) * 3) 2)
      | Some m \<Rightarrow> Some m) = Some m" "length m = 6 * (a * b)"
  proof (cases "mYuv420sp (cam s)")
    case None
    show ?thesis by (rule that [of "map (os_uninit os (trace s)) [0..<6 * (a * b)]"])
      (simp_all only: None size new_chars_nat option.case length_map length_upt diff_zero)
  next
    case (Some m)
    have "int (length m) = int (6 * (a * b))" using assms(2) size Some by (simp only: arrays_ok_def option.case)
    then show ?thesis by (intro that [of m]) (simp_all only: Some option.case of_nat_eq_iff)
  qed
  have "Yvyu2Yuv420 f m (mWidth (cam s)) (mHeight (cam s)) = Some (yv12_planes a b f)"
    using Yvyu2Yuv420_planes [of a b m f] m(2) assms(1) by (simp add: shows_frame_def)
  then show ?thesis using m(1) assms(1) by (simp add: preview_convert_def shows_frame_def)
qed

lemma yv12_planes_length: "length (yv12_planes a b f) = 6 * (a * b)"
  by (simp add: yv12_planes_def)

text \<open>\<open>drawPreviewSurface\<close> up to the copy.\<close>

lemma preview_prefix:
  assumes ui: "run_ui os BeforePreviewLock s = Some s0" and s0: "unlocked s0" "mPreviewSurface (cam s0) \<noteq> 0"
    and arr: "arrays_ok (cam s0)" and f: "shows_frame os s0 a b f"
    and p: "mPreviewSurface (cam s) = p" "p \<noteq> 0" and tr: "trace s0 = trace s"
    and dims: "mWidth (cam s) = 2 * int a" "mHeight (cam s) = 2 * int b"
    and deq: "\<And>tr. fst (fst (hook_dequeueBuffer_DEPRECATED (os_window os p) tr)) = 0"
  shows "\<exists>s4 tr buf. fst (hook_dequeueBuffer_DEPRECATED (os_window os p) tr) = (0, buf) \<and>
    cam s4 = (cam s0)\<lparr>mPreviewLock := True, mYuv420sp := Some (yv12_planes a b f)\<rparr> \<and>
    trace s4 = trace s @
       [EvPerform p NATIVE_WINDOW_SET_USAGE [ArgInt preview_usage],
        EvPerform p NATIVE_WINDOW_SET_BUFFERS_DIMENSIONS [ArgInt (2 * int a), ArgInt (2 * int b)],
        EvPerform p NATIVE_WINDOW_SET_SCALING_MODE [ArgInt 2],
        EvPerform p NATIVE_WINDOW_SET_BUFFERS_FORMAT [ArgInt (hal_pixel_format_value HAL_PIXEL_FORMAT_YV12)],
        EvDequeue p 0] \<and>
    drawPreviewSurface os s = Option.bind (preview_copy os buf (yv12_planes a b f) s4)
      (\<lambda>s5. Some (unlock_preview (emit (EvQueue p buf (fst (hook_queueBuffer (os_window os p) buf (- 1) (trace s5)))) s5)))"
proof -
  let ?s1 = "upd (mPreviewLock_update (\<lambda>_. True)) s0" and ?y = "yv12_planes a b f"
  let ?s2 = "upd (mYuv420sp_update (\<lambda>_. Some ?y)) ?s1"
  have l: "lock_preview s0 = Some ?s1" using s0 by (simp add: lock_preview_def unlocked_def)
  have c: "preview_convert os ?s1 = Some (?y, ?s2)"
    by (rule preview_convert_frame) (use f arr in \<open>simp_all add: shows_frame_def current_frame_def\<close>)
  obtain w where w: "window_of os p = Some w" using window_of_Some [OF p(2)] by blast
  have even: "(2 * int n + 1) AND NOT 1 = 2 * int n" for n
    using and_not_mask_int [of "2 * int n + 1" 1] by (simp add: mask_eq_exp_minus_1 push_bit_eq_mult drop_bit_eq_div)
  have even': "(2 * int n + 1) AND - 2 = 2 * int n" for n using even [of n] by simp
  let ?s3 = "preview_settings w (2 * int a) (2 * int b) ?s2"
  let ?s4 = "emit (EvDequeue p 0) ?s3"
  obtain buf where buf: "fst (hook_dequeueBuffer_DEPRECATED (os_window os p) (trace ?s3)) = (0, buf)"
    using deq by (metis prod.exhaust_sel)
  have d: "native_window_dequeue_buffer_and_wait w ?s3 = ((0, buf), ?s4)"
    by (simp add: dequeue_eq [OF w] buf)
  have "drawPreviewSurface os s = Option.bind (preview_copy os buf ?y ?s4)
      (\<lambda>s5. Some (unlock_preview (emit (EvQueue p buf (fst (hook_queueBuffer (os_window os p) buf (- 1) (trace s5)))) s5)))"
    using s0(2) by (simp add: drawPreviewSurface_def Let_def ui l c p w even' d dims queue_eq [OF w])
  then show ?thesis using buf
    by (intro exI [of _ ?s4] exI [of _ "trace ?s3"] exI [of _ buf]) (simp add: preview_settings_eq [OF w] tr)
qed


text \<open>The copied size is the one the platform prescribes for the buffer.\<close>

lemma preview_copy_size:
  assumes "0 \<le> stride"
  shows "stride * h + ALIGN (cdiv stride 2) 16 * h div 2 * 2 = yv12_size stride h"
  using assms by (simp add: yv12_size_def yv12_y_size_def yv12_c_size_def yv12_c_stride_def ALIGN_def ac_simps)

lemma ALIGN_16: "ALIGN (16 * int c) 16 = 16 * int c"
  using ALIGN_pow2 [of "16 * int c" 4] by simp

lemma bind_Some_map: "Option.bind x (\<lambda>v. Some (f v)) = map_option f x"
  by (cases x) simp_all

lemma preview_copy_eq:
  assumes "0 \<le> buf_stride buf" "os_mapper_lock os (trace s) (buf_handle buf) = Some dst"
  shows "preview_copy os buf yuv s = map_option
    (\<lambda>m. emit (EvMapUnlock (buf_handle buf) m) (emit (EvMapLock (buf_handle buf) 0x30 (mWidth (cam s)) (mHeight (cam s))) s))
    (memcpy dst 0 yuv 0 (yv12_size (buf_stride buf) (buf_height buf)))"
  using assms by (simp add: preview_copy_def Let_def preview_copy_size [OF assms(1), symmetric] bind_Some_map)

lemma yv12_size_32: "yv12_size (32 * int c) (2 * int b) = 96 * int (c * b)"
proof -
  have "ALIGN (cdiv (32 * int c) 2) 16 = 16 * int c" by (simp add: ALIGN_16)
  then show ?thesis using preview_copy_size [of "32 * int c" "2 * int b"] by (simp add: mult_ac)
qed

lemma yv12_size_nonneg: "0 \<le> stride \<Longrightarrow> 0 \<le> h \<Longrightarrow> 0 \<le> yv12_size stride h"
  by (simp add: yv12_size_def yv12_y_size_def yv12_c_size_def yv12_c_stride_def)

lemma run_ui_shows:
  assumes "run_ui os pt s = Some s0" "unlocked s" "shows_frame os s a b f"
  shows "shows_frame os s0 a b f"
  using run_ui_keeps [OF assms(1,2)] assms(3)
  by (simp add: shows_frame_def current_frame_def keeps_def fixed_def)

lemma memcpy_planes:
  assumes "96 * (c * b) \<le> length dst"
  shows "memcpy dst 0 (yv12_planes (16 * c) b f) 0 (96 * int (c * b)) =
      Some (yv12_planes (16 * c) b f @ drop (96 * (c * b)) dst)"
proof -
  have n: "96 * int (c * b) = int (96 * (c * b))" by simp
  have "96 * int (c * b) \<le> int (length dst)" unfolding n using assms by (simp only: of_nat_le_iff)
  moreover have "nat (96 * int (c * b)) = 96 * (c * b)" unfolding n by (simp only: nat_int)
  ultimately show ?thesis using yv12_planes_length [of "16 * c" b f]
    by (simp only: memcpy_def nat_zero_as_int add_0) simp
qed

text \<open>The window gives buffers of \<open>32 c * 2 b\<close> pixels that can be locked.\<close>

definition gives_buffers :: "nat \<Rightarrow> nat \<Rightarrow> os \<Rightarrow> surface \<Rightarrow> bool" where
  "gives_buffers c b os p \<longleftrightarrow> (\<forall>tr. \<exists>buf. fst (hook_dequeueBuffer_DEPRECATED (os_window os p) tr) = (0, buf) \<and>
     buf_stride buf = 32 * int c \<and> buf_height buf = 2 * int b \<and>
     (\<forall>t. \<exists>dst. os_mapper_lock os t (buf_handle buf) = Some dst \<and> 96 * (c * b) \<le> length dst))"

lemma preview_posts:
  assumes ui: "run_ui os BeforePreviewLock s = Some s0" and s: "unlocked s" "mPreviewSurface (cam s0) \<noteq> 0"
    "arrays_ok (cam s)" "shows_frame os s (16 * c) b f" and p: "mPreviewSurface (cam s) = p" "p \<noteq> 0"
    and give: "gives_buffers c b os p"
  shows "\<exists>s' r t t' buf dst. drawPreviewSurface os s = Some s' \<and>
    fst (hook_dequeueBuffer_DEPRECATED (os_window os p) t) = (0, buf) \<and>
    os_mapper_lock os t' (buf_handle buf) = Some dst \<and> 96 * (c * b) \<le> length dst \<and>
    cam s' = (cam s0)\<lparr>mPreviewLock := False, mYuv420sp := Some (yv12_planes (16 * c) b f)\<rparr> \<and> trace s' = trace s @
     [EvPerform p NATIVE_WINDOW_SET_USAGE [ArgInt preview_usage],
      EvPerform p NATIVE_WINDOW_SET_BUFFERS_DIMENSIONS [ArgInt (32 * int c), ArgInt (2 * int b)],
      EvPerform p NATIVE_WINDOW_SET_SCALING_MODE [ArgInt 2],
      EvPerform p NATIVE_WINDOW_SET_BUFFERS_FORMAT [ArgInt (hal_pixel_format_value HAL_PIXEL_FORMAT_YV12)],
      EvDequeue p 0, EvMapLock (buf_handle buf) 0x30 (32 * int c) (2 * int b),
      EvMapUnlock (buf_handle buf) (yv12_planes (16 * c) b f @ drop (96 * (c * b)) dst), EvQueue p buf r]"
proof -
  have k: "keeps s s0" "trace s0 = trace s" using run_ui_keeps [OF ui s(1)] by auto
  then have u: "unlocked s0" by (simp add: keeps_def)
  have d: "mWidth (cam s) = 2 * int (16 * c)" "mHeight (cam s) = 2 * int b"
    using s(4) by (simp_all add: shows_frame_def)
  have deq: "fst (fst (hook_dequeueBuffer_DEPRECATED (os_window os p) tr)) = 0" for tr
    using give by (metis gives_buffers_def fst_conv)
  obtain s4 t buf where t: "fst (hook_dequeueBuffer_DEPRECATED (os_window os p) t) = (0, buf)"
    and s4: "cam s4 = (cam s0)\<lparr>mPreviewLock := True, mYuv420sp := Some (yv12_planes (16 * c) b f)\<rparr>"
    and t4: "trace s4 = trace s @
       [EvPerform p NATIVE_WINDOW_SET_USAGE [ArgInt preview_usage],
        EvPerform p NATIVE_WINDOW_SET_BUFFERS_DIMENSIONS [ArgInt (2 * int (16 * c)), ArgInt (2 * int b)],
        EvPerform p NATIVE_WINDOW_SET_SCALING_MODE [ArgInt 2],
        EvPerform p NATIVE_WINDOW_SET_BUFFERS_FORMAT [ArgInt (hal_pixel_format_value HAL_PIXEL_FORMAT_YV12)],
        EvDequeue p 0]"
    and draw: "drawPreviewSurface os s = Option.bind (preview_copy os buf (yv12_planes (16 * c) b f) s4)
      (\<lambda>s5. Some (unlock_preview (emit (EvQueue p buf (fst (hook_queueBuffer (os_window os p) buf (- 1) (trace s5)))) s5)))"
    using preview_prefix [OF ui u s(2) run_ui_arrays [OF ui s(3)] run_ui_shows [OF ui s(1,4)] p k(2) d deq] by blast
  have dims: "mWidth (cam s4) = 32 * int c" "mHeight (cam s4) = 2 * int b"
    using d k(1) by (simp_all add: s4 keeps_def fixed_def)
  have buf: "buf_stride buf = 32 * int c" "buf_height buf = 2 * int b"
    using give t unfolding gives_buffers_def by (metis snd_conv)+
  obtain dst where dst: "os_mapper_lock os (trace s4) (buf_handle buf) = Some dst" "96 * (c * b) \<le> length dst"
    using give t unfolding gives_buffers_def by (metis snd_conv)
  have "preview_copy os buf (yv12_planes (16 * c) b f) s4 = Some
      (emit (EvMapUnlock (buf_handle buf) (yv12_planes (16 * c) b f @ drop (96 * (c * b)) dst))
        (emit (EvMapLock (buf_handle buf) 0x30 (32 * int c) (2 * int b)) s4))"
    using dims buf dst(1) memcpy_planes [OF dst(2)] by (simp add: preview_copy_eq yv12_size_32)
  then show ?thesis using t dst
    by (intro exI [of _ t] exI [of _ "trace s4"] exI [of _ buf] exI [of _ dst] exI conjI)
      (auto simp add: draw t4 s4 unlock_preview_def)
qed

subsection \<open>The encoder pictures\<close>

lemma concat_rows: "concat (map (\<lambda>i. take n (drop (i * n) xs)) [0..<k]) = take (k * n) xs"
  by (induction k) (auto simp: take_add [symmetric] add.commute)

text \<open>What an encoder window of the layout \<open>bf\<close> shows of an RGBA picture of \<open>w * h\<close> pixels: nothing new if it
  is larger in one direction, the whole picture if it has its size, otherwise the centre. The rows are
  put one after the other; bytes after them stay.\<close>

definition encoder_picture :: "nat \<Rightarrow> nat \<Rightarrow> mem \<Rightarrow> ANativeWindow_Buffer \<Rightarrow> mem" where
  "encoder_picture w h rgba bf = (let W = nat (nwb_width bf); H = nat (nwb_height bf) in
     if int w < nwb_width bf \<or> int h < nwb_height bf then nwb_bits bf
     else if W = w \<and> H = h then rgba @ drop (w * h * 4) (nwb_bits bf)
     else crop_ref (nwb_bits bf) rgba (((h - H + 1) div 2 * w + (w - W) div 2) * 4) (w * 4) (W * 4) H)"

text \<open>The layouts that can be filled without leaving the picture or the window: larger in one direction (then
  nothing is copied), or narrower by an even number of pixels (or none) with memory for all its pixels.\<close>

definition window_fits :: "nat \<Rightarrow> nat \<Rightarrow> ANativeWindow_Buffer \<Rightarrow> bool" where
  "window_fits w h bf \<longleftrightarrow> int w < nwb_width bf \<or> int h < nwb_height bf \<or>
     0 \<le> nwb_width bf \<and> 0 \<le> nwb_height bf \<and> even (w - nat (nwb_width bf)) \<and>
     nat (nwb_width bf) * nat (nwb_height bf) * 4 \<le> length (nwb_bits bf)"

text \<open>The calls one surface gets, and a list of surfaces, one after the other.\<close>

definition encoder_events :: "os \<Rightarrow> nat \<Rightarrow> nat \<Rightarrow> mem \<Rightarrow> surface \<Rightarrow> trace \<Rightarrow> event list" where
  "encoder_events os w h rgba p tr = (let (r, bf) = os_ANativeWindow_lock os tr p in
     EvWindowLock p r # (if r = 0 then [EvUnlockAndPost p (encoder_picture w h rgba bf)] else []))"

primrec encoders_log :: "os \<Rightarrow> nat \<Rightarrow> nat \<Rightarrow> mem \<Rightarrow> surface list \<Rightarrow> trace \<Rightarrow> trace" where
  "encoders_log os w h rgba [] tr = tr"
| "encoders_log os w h rgba (p # ps) tr = encoders_log os w h rgba ps (tr @ encoder_events os w h rgba p tr)"

definition windows_fit :: "nat \<Rightarrow> nat \<Rightarrow> os \<Rightarrow> surface list \<Rightarrow> bool" where
  "windows_fit w h os ps \<longleftrightarrow> (\<forall>tr. \<forall>p \<in> set ps. fst (os_ANativeWindow_lock os tr p) = 0 \<longrightarrow>
     window_fits w h (snd (os_ANativeWindow_lock os tr p)))"

lemma memcpy_whole: "length src = k \<Longrightarrow> k \<le> length dst \<Longrightarrow> memcpy dst 0 src 0 (int k) = Some (src @ drop k dst)"
  by (simp add: memcpy_def)

lemma encoder_bits:
  assumes "window_fits w h bf" and len: "length rgba = w * h * 4"
  shows "(if int w = nwb_width bf \<and> int h = nwb_height bf then memcpy (nwb_bits bf) 0 rgba 0 (int w * int h * 4)
    else copyFrameCenterGravity (nwb_bits bf) rgba (nwb_width bf) (nwb_height bf) (int w) (int h) 2)
    = Some (encoder_picture w h rgba bf)"
proof (cases "int w < nwb_width bf \<or> int h < nwb_height bf")
  case True
  then show ?thesis by (auto simp: encoder_picture_def copyFrameCenterGravity_def)
next
  case False
  then obtain dw dh where bf: "nwb_width bf = int dw" "nwb_height bf = int dh" "dw \<le> w" "dh \<le> h" "even (w - dw)"
      "dw * dh * 4 \<le> length (nwb_bits bf)"
    using assms(1) by (auto simp: window_fits_def elim!: nonneg_int_cases)
  have "copyFrameCenterGravity (nwb_bits bf) rgba (int dw) (int dh) (int w) (int h) 2 =
     Some (crop_ref (nwb_bits bf) rgba (((h - dh + 1) div 2 * w + (w - dw) div 2) * 4) (w * 4) (dw * 4) dh)"
    using copyFrameCenterGravity_even [OF bf(3,4,5), of 2 "nwb_bits bf" rgba] len bf(6) by (simp add: mult_ac)
  moreover have "memcpy (nwb_bits bf) 0 rgba 0 (int w * int h * 4) = Some (rgba @ drop (w * h * 4) (nwb_bits bf))"
    if "w = dw" "h = dh"
  proof -
    have n: "int w * int h * 4 = int (w * h * 4)" by simp
    show ?thesis unfolding n by (rule memcpy_whole) (use that len bf(6) in \<open>simp_all only:\<close>)
  qed
  ultimately show ?thesis using bf(1-4) by (auto simp: encoder_picture_def)
qed

lemma encoder_post_fits:
  assumes "mWidth (cam s) = int w" "mHeight (cam s) = int h" "length rgba = w * h * 4"
    and "fst (os_ANativeWindow_lock os (trace s) p) = 0 \<longrightarrow> window_fits w h (snd (os_ANativeWindow_lock os (trace s) p))"
  shows "\<exists>s'. encoder_post os rgba p s = Some s' \<and> cam s' = cam s \<and>
    trace s' = trace s @ encoder_events os w h rgba p (trace s)"
proof -
  obtain r bf where l: "os_ANativeWindow_lock os (trace s) p = (r, bf)" by (metis surj_pair)
  show ?thesis
  proof (cases "r = 0")
    case True
    then have "window_fits w h bf" using assms(4) l by simp
    from encoder_bits [OF this assms(3)] show ?thesis using True l assms(1,2)
      by (auto simp: encoder_post_def encoder_events_def Let_def split: if_splits)
  qed (simp add: encoder_post_def encoder_events_def l)
qed

lemma encoder_posts_fit:
  assumes len: "length rgba = w * h * 4"
  shows "mWidth (cam s) = int w \<Longrightarrow> mHeight (cam s) = int h \<Longrightarrow> windows_fit w h os ps \<Longrightarrow>
    \<exists>s'. encoder_posts os rgba ps s = Some s' \<and> cam s' = cam s \<and> trace s' = encoders_log os w h rgba ps (trace s)"
proof (induction ps arbitrary: s)
  case (Cons p ps)
  have "fst (os_ANativeWindow_lock os (trace s) p) = 0 \<longrightarrow> window_fits w h (snd (os_ANativeWindow_lock os (trace s) p))"
    using Cons.prems(3) by (simp add: windows_fit_def)
  from encoder_post_fits [OF Cons.prems(1,2) len this] obtain s1 where s1: "encoder_post os rgba p s = Some s1"
    "cam s1 = cam s" "trace s1 = trace s @ encoder_events os w h rgba p (trace s)" by blast
  have "windows_fit w h os ps" using Cons.prems(3) by (simp add: windows_fit_def)
  then show ?case using Cons.IH [of s1] Cons.prems(1,2) s1 by simp
qed simp

text \<open>The centre of an RGBA picture of \<open>w * h\<close> pixels, \<open>dw * dh\<close> pixels of it; windows that hold
  \<open>W p * H p\<close> pixels and nothing else.\<close>

definition centre :: "nat \<Rightarrow> nat \<Rightarrow> nat \<Rightarrow> nat \<Rightarrow> mem \<Rightarrow> mem" where
  "centre w h dw dh rgba = crop_ref [] rgba (((h - dh + 1) div 2 * w + (w - dw) div 2) * 4) (w * 4) (dw * 4) dh"

definition window_sizes :: "nat \<Rightarrow> nat \<Rightarrow> (surface \<Rightarrow> nat) \<Rightarrow> (surface \<Rightarrow> nat) \<Rightarrow> os \<Rightarrow> bool" where
  "window_sizes w h W H os \<longleftrightarrow> (\<forall>tr p. \<exists>bits. os_ANativeWindow_lock os tr p =
      (0, \<lparr>nwb_width = int (W p), nwb_height = int (H p), nwb_stride = int (W p), nwb_bits = bits\<rparr>) \<and>
     length bits = W p * H p * 4 \<and> W p \<le> w \<and> H p \<le> h \<and> even (w - W p))"

lemma windows_fit_sizes: "window_sizes w h W H os \<Longrightarrow> windows_fit w h os ps"
  unfolding windows_fit_def window_sizes_def
proof (intro allI ballI impI)
  fix tr p
  assume "\<forall>tr p. \<exists>bits. os_ANativeWindow_lock os tr p =
      (0, \<lparr>nwb_width = int (W p), nwb_height = int (H p), nwb_stride = int (W p), nwb_bits = bits\<rparr>) \<and>
     length bits = W p * H p * 4 \<and> W p \<le> w \<and> H p \<le> h \<and> even (w - W p)"
  then obtain bits where "os_ANativeWindow_lock os tr p =
      (0, \<lparr>nwb_width = int (W p), nwb_height = int (H p), nwb_stride = int (W p), nwb_bits = bits\<rparr>)"
     "length bits = W p * H p * 4" "even (w - W p)" by blast
  then show "window_fits w h (snd (os_ANativeWindow_lock os tr p))" by (simp add: window_fits_def)
qed

lemma encoder_events_sizes:
  assumes "window_sizes w h W H os" and len: "length rgba = w * h * 4"
  shows "encoder_events os w h rgba p tr = [EvWindowLock p 0, EvUnlockAndPost p (centre w h (W p) (H p) rgba)]"
proof -
  obtain bits where bits: "os_ANativeWindow_lock os tr p =
        (0, \<lparr>nwb_width = int (W p), nwb_height = int (H p), nwb_stride = int (W p), nwb_bits = bits\<rparr>)"
      "length bits = W p * H p * 4" "W p \<le> w" "H p \<le> h"
    using assms(1) unfolding window_sizes_def by blast
  have "crop_ref [] rgba 0 (w * 4) (w * 4) h = rgba" using len by (simp add: crop_ref_def concat_rows)
  then show ?thesis using bits
    by (auto simp: encoder_events_def encoder_picture_def Let_def centre_def crop_ref_def mult_ac)
qed

lemma encoders_log_sizes:
  assumes "window_sizes w h W H os" "length rgba = w * h * 4"
  shows "encoders_log os w h rgba ps tr =
    tr @ concat (map (\<lambda>p. [EvWindowLock p 0, EvUnlockAndPost p (centre w h (W p) (H p) rgba)]) ps)"
  by (induction ps arbitrary: tr) (simp_all add: encoder_events_sizes [OF assms])

lemma drawEncoder_prefix:
  assumes ui: "run_ui os BeforeEncoderLock s = Some s0" and s0: "unlocked s0" "mEncoderSurfaces (cam s0) \<noteq> []"
    and arr: "arrays_ok (cam s0)" and f: "shows_frame os s0 a b f"
  shows "drawEncoderSurface os s = map_option unlock_encoder
    (encoder_posts os (rgba_frame (os_char_signed os) (4 * (a * b)) f) (mEncoderSurfaces (cam s0))
      (upd (mRGBA8888_update (\<lambda>_. Some (rgba_frame (os_char_signed os) (4 * (a * b)) f)))
        (upd (mEncoderLock_update (\<lambda>_. True)) s0)))"
proof -
  let ?n = "16 * (a * b)" and ?s1 = "upd (mEncoderLock_update (\<lambda>_. True)) s0"
  have size: "mWidth (cam ?s1) * mHeight (cam ?s1) * 4 = int ?n" using f by (simp add: shows_frame_def)
  obtain m where m: "(case mRGBA8888 (cam s0) of
      None \<Rightarrow> new_chars os ?s1 (mWidth (cam ?s1) * mHeight (cam ?s1) * 4) | Some m \<Rightarrow> Some m) = Some m" "length m = ?n"
  proof (cases "mRGBA8888 (cam s0)")
    case None
    show ?thesis by (rule that [of "map (os_uninit os (trace ?s1)) [0..<?n]"])
      (simp_all only: None size new_chars_nat option.case length_map length_upt diff_zero)
  next
    case (Some m)
    have "int (length m) = int ?n" using arr f Some by (simp add: arrays_ok_def shows_frame_def)
    then show ?thesis by (intro that [of m]) (simp_all only: Some option.case of_nat_eq_iff)
  qed
  have r: "Yvyu2RGBA (os_char_signed os) m f (mWidth (cam s0)) (mHeight (cam s0)) =
      Some (rgba_frame (os_char_signed os) (4 * (a * b)) f)"
    using Yvyu2RGBA_frame [of a "2 * b" m f "os_char_signed os"] m(2) f
    by (simp add: shows_frame_def mult_ac)
  have l: "lock_encoder s0 = Some (upd (mEncoderLock_update (\<lambda>_. True)) s0)"
    using s0 by (simp add: lock_encoder_def unlocked_def)
  have cf: "current_frame os (upd (mEncoderLock_update (\<lambda>_. True)) s0) = Some f"
    using f by (simp add: shows_frame_def current_frame_def)
  show ?thesis using s0(2)
    by (simp add: drawEncoderSurface_def ui l cf bind_Some_map m(1) r)
qed


lemma encoders_post:
  assumes ui: "run_ui os BeforeEncoderLock s = Some s0" and s: "unlocked s" "mEncoderSurfaces (cam s0) \<noteq> []"
    "arrays_ok (cam s)" "shows_frame os s a b f" and win: "windows_fit (2 * a) (2 * b) os (mEncoderSurfaces (cam s0))"
  defines "rgba \<equiv> rgba_frame (os_char_signed os) (4 * (a * b)) f"
  shows "\<exists>s'. drawEncoderSurface os s = Some s' \<and>
    cam s' = (cam s0)\<lparr>mEncoderLock := False, mRGBA8888 := Some rgba\<rparr> \<and>
    trace s' = encoders_log os (2 * a) (2 * b) rgba (mEncoderSurfaces (cam s0)) (trace s)"
proof -
  let ?s1 = "upd (mRGBA8888_update (\<lambda>_. Some rgba)) (upd (mEncoderLock_update (\<lambda>_. True)) s0)"
  have k: "keeps s s0" "trace s0 = trace s" using run_ui_keeps [OF ui s(1)] by auto
  then have u: "unlocked s0" by (simp add: keeps_def)
  have f: "shows_frame os s0 a b f" by (rule run_ui_shows [OF ui s(1,4)])
  have d: "mWidth (cam ?s1) = int (2 * a)" "mHeight (cam ?s1) = int (2 * b)" using f by (simp_all add: shows_frame_def)
  have "length rgba = 2 * a * (2 * b) * 4" by (simp add: rgba_def)
  from encoder_posts_fit [OF this d win]
  obtain s' where "encoder_posts os rgba (mEncoderSurfaces (cam s0)) ?s1 = Some s'" "cam s' = cam ?s1"
    "trace s' = encoders_log os (2 * a) (2 * b) rgba (mEncoderSurfaces (cam s0)) (trace ?s1)" by blast
  then show ?thesis using k(2) unfolding rgba_def
    by (simp add: drawEncoder_prefix [OF ui u s(2) run_ui_arrays [OF ui s(3)] f] unlock_encoder_def)
qed

subsection \<open>Properties\<close>

text \<open>A camera for the witnesses: descriptor 3, one mapped buffer, the given surfaces.\<close>

definition open_sys :: "int \<Rightarrow> int \<Rightarrow> surface \<Rightarrow> surface list \<Rightarrow> sys" where
  "open_sys w h p es = \<lparr>cam = (Camera_new (Some ''/dev/video0'') w h)\<lparr>mFD := 3, mPreviewSurface := p,
     mEncoderSurfaces := es, mBufferArray := [Some \<lparr>map_start = 4096, map_length = 0\<rparr>, None, None, None]\<rparr>,
     alive = True, trace = []\<rparr>"

lemma open_sys_simps [simp]:
  "cam (open_sys w h p es) = (Camera_new (Some ''/dev/video0'') w h)\<lparr>mFD := 3, mPreviewSurface := p,
     mEncoderSurfaces := es, mBufferArray := [Some \<lparr>map_start = 4096, map_length = 0\<rparr>, None, None, None]\<rparr>"
  "alive (open_sys w h p es)" "trace (open_sys w h p es) = []" "unlocked (open_sys w h p es)"
  "arrays_ok (cam (open_sys w h p es))"
  by (simp_all add: open_sys_def unlocked_def arrays_ok_def Camera_new_def)

lemma open_sys_run [simp]: "os_ui os pt [] = [] \<Longrightarrow> run_ui os pt (open_sys w h p es) = Some (open_sys w h p es)"
  by (simp add: run_ui_def)

lemma easy_os_simps [simp]:
  "os_ui (easy_os fd n f) pt tr = []" "os_frame (easy_os fd n f) tr x = f"
  "os_window (easy_os fd n f) p = easy_window 2 2" "os_char_signed (easy_os fd n f) = False"
  by (simp_all add: easy_os_def)

lemma easy_window_dequeue: "hook_dequeueBuffer_DEPRECATED (easy_window w h) tr = ((0,
   \<lparr>buf_common = \<lparr>magic = ANDROID_NATIVE_BUFFER_MAGIC, version = 0, reserved = []\<rparr>, buf_width = w,
    buf_height = h, buf_stride = w, buf_format = 0, buf_usage = 0, buf_handle = 1\<rparr>), tr)"
  by (simp add: easy_window_def Let_def)

text \<open>C12: both drawing routines release their lock on every path that returns, whatever the windows
  answer and whatever other threads did before the lock was taken; they leave the descriptor, the
  picture size, the buffers and the index of the current buffer alone, never start the capture,
  keep the encoder list free of null surfaces and log only window calls.\<close>

theorem drawing_contract:
  assumes "drawPreviewSurface os s = Some s1" and "drawEncoderSurface os s1 = Some s2"
    and "unlocked s" and "alive s"
  shows "unlocked s1 \<and> unlocked s2 \<and> fixed (cam s2) = fixed (cam s) \<and>
    (mPeekRun (cam s2) \<longrightarrow> mPeekRun (cam s)) \<and>
    (0 \<notin> set (mEncoderSurfaces (cam s)) \<longrightarrow> 0 \<notin> set (mEncoderSurfaces (cam s2))) \<and> logs s s2"
  using dp.both_keep [OF assms] by (simp add: keeps_def)

theorem drawing_contract_witness:
  "\<exists>s1 s2. drawPreviewSurface (easy_os 3 2 []) (fresh_sys 2 2) = Some s1 \<and>
     drawEncoderSurface (easy_os 3 2 []) s1 = Some s2 \<and> unlocked s2"
proof -
  let ?os = "easy_os 3 2 []" and ?s = "fresh_sys 2 2"
  have a: "unlocked ?s" "alive ?s" by (simp_all add: fresh_sys_def Camera_new_def unlocked_def)
  obtain s1 where s1: "drawPreviewSurface ?os ?s = Some s1" "cam s1 = cam ?s" "alive s1"
    by (auto simp: drawPreviewSurface_def Let_def run_ui_def easy_os_def fresh_sys_def Camera_new_def lock_defs)
  obtain s2 where s2: "drawEncoderSurface ?os s1 = Some s2"
    using s1(2,3) by (auto simp: drawEncoderSurface_def Let_def run_ui_def easy_os_def fresh_sys_def Camera_new_def lock_defs)
  show ?thesis using drawing_contract [OF s1(1) s2 a] s1 s2 by blast
qed

text \<open>C7: when the capture draws a frame of even size whose width is a multiple of 32, and the window
  gives a buffer of that width, height and stride, the buffer that is posted contains exactly the
  YV12 picture of the frame (the rest of the buffer unchanged). The calls on the window are the
  four settings, dequeue, lock, unlock, queue, in this order, and all go to the surface that was
  set before the preview lock was taken.\<close>

theorem preview_posts_frame:
  assumes "run_ui os BeforePreviewLock s = Some s0" and "unlocked s" and "mPreviewSurface (cam s0) \<noteq> 0"
    and "arrays_ok (cam s)" and "shows_frame os s (16 * c) b f"
    and "mPreviewSurface (cam s) = p" and "p \<noteq> 0"
    and deq: "\<And>tr. fst (hook_dequeueBuffer_DEPRECATED (os_window os p) tr) = (0, buf)"
    and buf: "buf_stride buf = 32 * int c" "buf_height buf = 2 * int b" "buf_handle buf = h"
    and map: "\<And>tr. os_mapper_lock os tr h = Some dst" and dst: "96 * (c * b) \<le> length dst"
  shows "\<exists>s' r. drawPreviewSurface os s = Some s' \<and> unlocked s' \<and> trace s' = trace s @
     [EvPerform p NATIVE_WINDOW_SET_USAGE [ArgInt preview_usage],
      EvPerform p NATIVE_WINDOW_SET_BUFFERS_DIMENSIONS [ArgInt (32 * int c), ArgInt (2 * int b)],
      EvPerform p NATIVE_WINDOW_SET_SCALING_MODE [ArgInt 2],
      EvPerform p NATIVE_WINDOW_SET_BUFFERS_FORMAT [ArgInt (hal_pixel_format_value HAL_PIXEL_FORMAT_YV12)],
      EvDequeue p 0, EvMapLock h 0x30 (32 * int c) (2 * int b),
      EvMapUnlock h (yv12_planes (16 * c) b f @ drop (96 * (c * b)) dst), EvQueue p buf r]"
proof -
  have u: "unlocked s0" using run_ui_keeps [OF assms(1,2)] by (simp add: keeps_def)
  have g: "gives_buffers c b os p" unfolding gives_buffers_def by (auto simp: deq buf map dst)
  obtain s' r t t' b' d' where s': "drawPreviewSurface os s = Some s'"
      "fst (hook_dequeueBuffer_DEPRECATED (os_window os p) t) = (0, b')" "os_mapper_lock os t' (buf_handle b') = Some d'"
      "cam s' = (cam s0)\<lparr>mPreviewLock := False, mYuv420sp := Some (yv12_planes (16 * c) b f)\<rparr>" "trace s' = trace s @
     [EvPerform p NATIVE_WINDOW_SET_USAGE [ArgInt preview_usage],
      EvPerform p NATIVE_WINDOW_SET_BUFFERS_DIMENSIONS [ArgInt (32 * int c), ArgInt (2 * int b)],
      EvPerform p NATIVE_WINDOW_SET_SCALING_MODE [ArgInt 2],
      EvPerform p NATIVE_WINDOW_SET_BUFFERS_FORMAT [ArgInt (hal_pixel_format_value HAL_PIXEL_FORMAT_YV12)],
      EvDequeue p 0, EvMapLock (buf_handle b') 0x30 (32 * int c) (2 * int b),
      EvMapUnlock (buf_handle b') (yv12_planes (16 * c) b f @ drop (96 * (c * b)) d'), EvQueue p b' r]"
    using preview_posts [OF assms(1-7) g] by (elim exE conjE) (rule that)
  moreover have "b' = buf" "d' = dst" using s'(2,3) deq [of t] buf(3) map [of t'] by simp_all
  ultimately show ?thesis using u buf(3) by (simp add: unlocked_def)
qed

theorem preview_posts_frame_witness:
  "\<exists>s'. drawPreviewSurface ((easy_os 3 2 (replicate 128 7))\<lparr>os_window := \<lambda>_. easy_window 32 2,
       os_mapper_lock := \<lambda>_ _. Some (replicate 96 0)\<rparr>) (open_sys 32 2 5 []) = Some s' \<and> unlocked s' \<and>
     EvMapUnlock 1 (yv12_planes 16 1 (replicate 128 7)) \<in> set (trace s')"
  (is "\<exists>s'. drawPreviewSurface ?os ?s = Some s' \<and> _ s'")
proof -
  have f: "shows_frame ?os ?s (16 * 1) 1 (replicate 128 7)"
    by (simp add: shows_frame_def current_frame_def Camera_new_def)
  show ?thesis
    using preview_posts_frame [of ?os ?s ?s 1 1 _ 5 _ 1 "replicate 96 0", OF _ _ _ _ f]
    by (auto simp: Camera_new_def easy_window_dequeue arrays_ok_def)
qed

text \<open>C36: the copy into the window buffer is as long as the platform's YV12 layout for the buffer's
  stride and height, whatever the size of the converted picture: if that exceeds the
  \<open>mWidth * mHeight * 3 / 2\<close> bytes of the picture, the copy reads past its end.\<close>

theorem preview_overread:
  assumes "run_ui os BeforePreviewLock s = Some s0" and "unlocked s" and "mPreviewSurface (cam s0) \<noteq> 0"
    and "arrays_ok (cam s)" and "shows_frame os s a b f"
    and "mPreviewSurface (cam s) = p" and "p \<noteq> 0"
    and deq: "\<And>tr. fst (hook_dequeueBuffer_DEPRECATED (os_window os p) tr) = (0, buf)"
    and buf: "0 \<le> buf_stride buf" "int (6 * (a * b)) < yv12_size (buf_stride buf) (buf_height buf)"
  shows "drawPreviewSurface os s = None"
proof -
  have k: "keeps s s0" "trace s0 = trace s" using run_ui_keeps [OF assms(1,2)] by auto
  then have u: "unlocked s0" by (simp add: keeps_def)
  have d: "mWidth (cam s) = 2 * int a" "mHeight (cam s) = 2 * int b"
    using assms(5) by (simp_all add: shows_frame_def)
  have e: "fst (fst (hook_dequeueBuffer_DEPRECATED (os_window os p) tr)) = 0" for tr by (simp add: deq)
  obtain s4 where draw: "drawPreviewSurface os s = Option.bind (preview_copy os buf (yv12_planes a b f) s4)
      (\<lambda>s5. Some (unlock_preview (emit (EvQueue p buf (fst (hook_queueBuffer (os_window os p) buf (- 1) (trace s5)))) s5)))"
    using preview_prefix [OF assms(1) u assms(3) run_ui_arrays [OF assms(1,4)] run_ui_shows [OF assms(1,2,5)]
        assms(6,7) k(2) d e] by (auto simp: deq)
  have "preview_copy os buf (yv12_planes a b f) s4 = None"
  proof (cases "os_mapper_lock os (trace s4) (buf_handle buf)")
    case (Some dst)
    then show ?thesis using buf(2) preview_copy_eq [OF buf(1) Some] by (simp add: memcpy_def yv12_planes_length)
  qed (simp add: preview_copy_def Let_def)
  then show ?thesis by (simp add: draw)
qed

theorem preview_overread_witness:
  "drawPreviewSurface ((easy_os 3 2 (replicate 50688 7))\<lparr>os_window := \<lambda>_. easy_window 176 144\<rparr>)
     (open_sys 176 144 5 []) = None"
  (is "drawPreviewSurface ?os ?s = None")
proof -
  have f: "shows_frame ?os ?s 88 72 (replicate 50688 7)"
    by (simp add: shows_frame_def current_frame_def Camera_new_def)
  have y: "(38016 :: int) < yv12_size 176 144"
    by (simp add: yv12_size_def yv12_y_size_def yv12_c_size_def yv12_c_stride_def)
  show ?thesis
    using preview_overread [of ?os ?s ?s 88 72 _ 5, OF _ _ _ _ f] y
    by (simp add: Camera_new_def easy_window_dequeue arrays_ok_def)
qed

text \<open>C35: if no preview surface was set when the drawing began and another thread sets a valid one just
  before the lock is taken, the drawing goes on with the null window it had read and faults.\<close>

theorem preview_race_null:
  assumes "mPreviewSurface (cam s) = 0" and "alive s" and "unlocked s"
    and "os_ui os BeforePreviewLock (trace s) = [UiSetPreview j]" and "j \<noteq> 0"
    and "Surface_isValid os s (os_getSurface os (trace s) j)"
  shows "run_ui os BeforePreviewLock s \<noteq> None \<and> drawPreviewSurface os s = None"
proof -
  let ?p = "os_getSurface os (trace s) j"
  let ?s0 = "upd (mPreviewLock_update (\<lambda>_. False)) (upd (mPreviewSurface_update (\<lambda>_. ?p)) (upd (mPreviewLock_update (\<lambda>_. True)) s))"
  have r: "run_ui os BeforePreviewLock s = Some ?s0"
    using assms by (simp add: run_ui_def ui_exec_def setPreviewSurface_def lock_defs unlocked_def Let_def)
  have "?p \<noteq> 0" using assms(6) by (simp add: Surface_isValid_def)
  then have "drawPreviewSurface os s = None"
    by (simp add: drawPreviewSurface_def Let_def r lock_preview_def assms(1) window_of_def)
      (simp add: Option.bind_eq_None_conv split_beta)
  then show ?thesis using r by simp
qed

theorem preview_race_null_witness:
  "drawPreviewSurface ((easy_os 3 2 [])\<lparr>os_ui := \<lambda>pt tr. if pt = BeforePreviewLock then [UiSetPreview 7] else []\<rparr>)
     (open_sys 2 2 0 []) = None"
  (is "drawPreviewSurface ?os ?s = None")
  using preview_race_null [of ?s ?os 7] by (simp add: Surface_isValid_def easy_os_def Camera_new_def)

text \<open>C8: drawing a frame of even size goes through the encoder surfaces in the order of the list. For each, the
  window is locked once; if that fails, nothing is posted to it and the next one follows; otherwise one
  buffer is posted that holds, depending on the layout the window has at that moment, what it held
  before (a window wider or higher than the picture), the whole RGBA picture of the current frame (a
  window of exactly its size), or the centre of it (a smaller window). Every window may have a layout and an
  answer of its own, and others at the next frame. The condition is on the windows that can be locked: one that is not
  larger than the picture has to be narrower by an even number of pixels (or none), and its memory has
  to hold all its pixels. The rows are put one after the other whatever stride the window reports.\<close>

theorem encoder_posts_frame:
  assumes "run_ui os BeforeEncoderLock s = Some s0" and "unlocked s" and "mEncoderSurfaces (cam s0) \<noteq> []"
    and "arrays_ok (cam s)" and "shows_frame os s a b f"
    and "windows_fit (2 * a) (2 * b) os (mEncoderSurfaces (cam s0))"
  shows "\<exists>s'. drawEncoderSurface os s = Some s' \<and> unlocked s' \<and> trace s' =
    encoders_log os (2 * a) (2 * b) (rgba_frame (os_char_signed os) (4 * (a * b)) f) (mEncoderSurfaces (cam s0)) (trace s)"
  using encoders_post [OF assms] run_ui_keeps [OF assms(1,2)] by (auto simp: unlocked_def keeps_def)

text \<open>One window of half the width and with padding, one that cannot be locked, one that is too wide.\<close>

theorem encoder_posts_frame_witness:
  "\<exists>s'. drawEncoderSurface ((easy_os 3 2 (replicate 16 128))\<lparr>os_ANativeWindow_lock := \<lambda>tr p.
        if p = 5 then (0, \<lparr>nwb_width = 2, nwb_height = 2, nwb_stride = 16, nwb_bits = replicate 128 0\<rparr>)
        else if p = 6 then (- 19, undefined)
        else (0, \<lparr>nwb_width = 8, nwb_height = 2, nwb_stride = 8, nwb_bits = [7]\<rparr>)\<rparr>) (open_sys 4 2 0 [5, 6, 7]) = Some s' \<and>
     unlocked s' \<and> map (\<lambda>e. case e of EvUnlockAndPost p m \<Rightarrow> (p, length m) | EvWindowLock p r \<Rightarrow> (p, 0)) (trace s') =
       [(5, 0), (5, 128), (6, 0), (7, 0), (7, 1)]"
  (is "\<exists>s'. drawEncoderSurface ?os ?s = Some s' \<and> _ s'")
proof -
  have f: "shows_frame ?os ?s 2 1 (replicate 16 128)"
    by (simp add: shows_frame_def current_frame_def Camera_new_def)
  have w: "windows_fit (2 * 2) (2 * 1) ?os (mEncoderSurfaces (cam ?s))"
    by (simp add: windows_fit_def window_fits_def Camera_new_def)
  show ?thesis
    using encoder_posts_frame [of ?os ?s ?s, OF _ _ _ _ f w]
    by (auto simp: Camera_new_def arrays_ok_def encoder_events_def encoder_picture_def crop_ref_def upt_rec)
qed

text \<open>Without a preview surface and without encoders the drawing touches no frame, calls no window
  and frees both work arrays.\<close>

lemma nothing_to_draw:
  assumes "unlocked s" and "alive s" and "mPreviewSurface (cam s) = 0" and "mEncoderSurfaces (cam s) = []"
    and "\<And>pt tr. os_ui os pt tr = []"
  shows "\<exists>s1 s2. drawPreviewSurface os s = Some s1 \<and> drawEncoderSurface os s1 = Some s2 \<and>
    cam s2 = (cam s)\<lparr>mYuv420sp := None, mRGBA8888 := None\<rparr> \<and> trace s2 = trace s"
proof -
  have c: "cam s = (cam s)\<lparr>mPreviewLock := False, mEncoderLock := False\<rparr>" using assms(1)
    by (cases "cam s") (simp add: unlocked_def)
  let ?s1 = "upd (mPreviewLock_update (\<lambda>_. False)) (upd (mYuv420sp_update (\<lambda>_. None))
      (upd (mPreviewLock_update (\<lambda>_. True)) s))"
  have "drawPreviewSurface os s = Some ?s1"
    using assms by (simp add: drawPreviewSurface_def Let_def run_ui_none lock_defs unlocked_def)
  moreover obtain s1 where "s1 = ?s1" by simp
  ultimately have s1: "drawPreviewSurface os s = Some s1" "cam s1 = (cam s)\<lparr>mYuv420sp := None, mPreviewLock := False\<rparr>"
      "alive s1" "trace s1 = trace s"
    using assms(2) by simp_all
  let ?s2 = "upd (mRGBA8888_update (\<lambda>_. None)) (upd (mEncoderLock_update (\<lambda>_. False))
      (upd (mEncoderLock_update (\<lambda>_. True)) s1))"
  have "drawEncoderSurface os s1 = Some ?s2"
    using assms s1 by (simp add: drawEncoderSurface_def Let_def run_ui_none lock_defs unlocked_def)
  moreover obtain s2 where "s2 = ?s2" by simp
  ultimately have s2: "drawEncoderSurface os s1 = Some s2"
      "cam s2 = (cam s)\<lparr>mYuv420sp := None, mPreviewLock := False, mRGBA8888 := None, mEncoderLock := False\<rparr>"
      "trace s2 = trace s"
    using s1(2,4) by simp_all
  have "cam s2 = (cam s)\<lparr>mYuv420sp := None, mRGBA8888 := None\<rparr>" using c s2(2) by (cases "cam s") simp
  then show ?thesis using s1 s2 by blast
qed


theorem nothing_to_draw_witness:
  "\<exists>s1 s2. drawPreviewSurface (easy_os 3 2 []) (open_sys 2 2 0 []) = Some s1 \<and>
     drawEncoderSurface (easy_os 3 2 []) s1 = Some s2 \<and> trace s2 = []"
  using nothing_to_draw [of "open_sys 2 2 0 []" "easy_os 3 2 []"] by (auto simp: Camera_new_def)

end
