(* ===== verification/Camera_Capture.thy ===== *)
theory Camera_Capture
  imports Draw_Correct
begin

text \<open>
  The capture thread: \<open>Camera::startCapture\<close>. One iteration of its loop is \<open>capture_body\<close>
  (\<open>capture_frame\<close> from the dequeue on),
  with the way it is left as a value; the loop takes fuel, the number of iterations it may
  begin. Other threads act at the loop head, after \<open>select\<close> returns, before drawing and inside
  the drawing routines. A failed \<open>VIDIOC_DQBUF\<close> leaves its argument as \<open>memset\<close> left it.
\<close>

datatype loop_exit = Again bool | Stop | Error

datatype capture_end = NotOpen | OutOfFuel | CaptureStopped | CameraError

definition sys_select :: "os \<Rightarrow> sys \<Rightarrow> int \<times> int \<times> sys" where
  "sys_select os s = (let (r, errno) = os_select os (trace s) (mFD (cam s))
     in (r, errno, emit (EvSelect (mFD (cam s)) r) s))"

definition sys_dqbuf :: "os \<Rightarrow> sys \<Rightarrow> int \<times> int \<times> sys" where
  "sys_dqbuf os s =
     (let (r, errno, index) = os_dqbuf os (trace s) (mFD (cam s));
          index = (if 0 > r then mCurBufIndex (cam s) else index)
      in (r, errno, emit (EvIoctl (mFD (cam s)) (VIDIOC_DQBUF index) r) (upd (mCurBufIndex_update (\<lambda>_. index)) s)))"

definition notify_first :: "os \<Rightarrow> sys \<Rightarrow> sys" where
  "notify_first os s = (let (tv_sec, tv_usec) = os_gettimeofday os (trace s);
     timestampUS = tv_sec * 1000 * 1000 + tv_usec in emit (EvNotifyFirstCapture timestampUS) s)"

definition capture_frame :: "os \<Rightarrow> bool \<Rightarrow> sys \<Rightarrow> (loop_exit \<times> sys) option" where
  "capture_frame os firstCapture s = (
     let s = upd (mCurBufIndex_update (\<lambda>_. 0)) s; (r, errno, s) = sys_dqbuf os s in
     if 0 > r \<and> errno = EAGAIN then Some (Error, s)
     else let s = (if firstCapture then notify_first os s else s) in do {
       s \<leftarrow> run_ui os BeforeDraw s;
       s \<leftarrow> drawPreviewSurface os s;
       s \<leftarrow> drawEncoderSurface os s;
       let (r, s) = sys_ioctl (\<lambda>tr fd. os_qbuf os tr fd (mCurBufIndex (cam s)))
           (VIDIOC_QBUF (mCurBufIndex (cam s))) s;
       if 0 > r then Some (Error, s) else Some (Again False, s)
     })"

definition capture_body :: "os \<Rightarrow> bool \<Rightarrow> sys \<Rightarrow> (loop_exit \<times> sys) option" where
  "capture_body os firstCapture s = (
     let (r, errno, s) = sys_select os s in do {
       s \<leftarrow> run_ui os AfterSelect s;
       if mPeekRun (cam s) = False then Some (Stop, s)
       else if - 1 = r then
         (if EINTR = errno then Some (Again firstCapture, s) else Some (Error, s))
       else if 0 = r then Some (Error, s)
       else capture_frame os firstCapture s
     })"

fun capture_loop :: "nat \<Rightarrow> os \<Rightarrow> bool \<Rightarrow> sys \<Rightarrow> (loop_exit \<times> sys) option" where
  "capture_loop 0 os firstCapture s = Some (Again firstCapture, s)"
| "capture_loop (Suc n) os firstCapture s = do {
     s \<leftarrow> run_ui os AtLoopHead s;
     if \<not> mPeekRun (cam s) then Some (Stop, s)
     else do {
       (x, s) \<leftarrow> capture_body os firstCapture s;
       case x of Again f \<Rightarrow> capture_loop n os f s | _ \<Rightarrow> Some (x, s)
     }
   }"

definition startCapture :: "nat \<Rightarrow> os \<Rightarrow> sys \<Rightarrow> (capture_end \<times> sys) option" where
  "startCapture n os s =
     (if mFD (cam s) < 0 then Some (NotOpen, s)
      else do {
        (x, s) \<leftarrow> capture_loop n os True (upd (mPeekRun_update (\<lambda>_. True)) s);
        case x of
          Again _ \<Rightarrow> Some (OutOfFuel, s)
        | Stop \<Rightarrow> Some (CaptureStopped, emit EvNotifyCaptureStop (upd (mPeekRun_update (\<lambda>_. False)) s))
        | Error \<Rightarrow> Some (CameraError, emit EvNotifyCameraError (upd (mFD_update (\<lambda>_. - 1)) (sys_close s)))
      })"

subsection \<open>The protocol with the driver\<close>

text \<open>
  What the camera log of a capture looks like, window calls left out: iterations of select,
  dequeue, the first-frame notification once, queue; \<open>fd\<close> is the descriptor, the exit the last
  argument.
\<close>

inductive session :: "int \<Rightarrow> bool \<Rightarrow> event list \<Rightarrow> loop_exit \<Rightarrow> bool" for fd where
  fuel: "session fd f [] (Again f)"
| stop_head: "session fd f [] Stop"
| stop_select: "session fd f [EvSelect fd r] Stop"
| select_error: "r = - 1 \<or> r = 0 \<Longrightarrow> session fd f [EvSelect fd r] Error"
| retry: "session fd f L x \<Longrightarrow> session fd f (EvSelect fd (- 1) # L) x"
| dequeue_error: "r < 0 \<Longrightarrow> session fd f [EvSelect fd r', EvIoctl fd (VIDIOC_DQBUF 0) r] Error"
| queue_error: "q < 0 \<Longrightarrow> session fd f (EvSelect fd r # EvIoctl fd (VIDIOC_DQBUF i) d #
    (if f then [EvNotifyFirstCapture t] else []) @ [EvIoctl fd (VIDIOC_QBUF i) q]) Error"
| frame: "0 \<le> q \<Longrightarrow> session fd False L x \<Longrightarrow> session fd f (EvSelect fd r # EvIoctl fd (VIDIOC_DQBUF i) d #
    (if f then [EvNotifyFirstCapture t] else []) @ EvIoctl fd (VIDIOC_QBUF i) q # L) x"

definition device :: "trace \<Rightarrow> event list" where
  "device tr = filter (\<lambda>e. \<not> window_event e) tr"

lemma device_simps [simp]: "device [] = []" "device (a @ b) = device a @ device b"
  "device (e # tr) = (if window_event e then device tr else e # device tr)"
  by (simp_all add: device_def)

lemma keeps_device: "keeps s s' \<Longrightarrow> device (trace s') = device (trace s)"
  by (auto simp: keeps_def logs_def device_def filter_empty_conv list_all_iff)

text \<open>One iteration.\<close>

definition settled :: "sys \<Rightarrow> bool" where
  "settled s \<longleftrightarrow> unlocked s \<and> alive s"

definition same_device :: "Camera \<Rightarrow> Camera \<Rightarrow> bool" where
  "same_device c c' \<longleftrightarrow> mFD c' = mFD c \<and> mWidth c' = mWidth c \<and> mHeight c' = mHeight c \<and>
     mBufferArray c' = mBufferArray c \<and> mCameraDevPath c' = mCameraDevPath c"

lemma keeps_settled: "keeps s s' \<Longrightarrow> settled s' \<and> same_device (cam s) (cam s') \<and> mCurBufIndex (cam s') = mCurBufIndex (cam s)"
  by (simp add: keeps_def settled_def same_device_def fixed_def)

lemma same_device_trans: "same_device a b \<Longrightarrow> same_device b c \<Longrightarrow> same_device a c"
  by (simp add: same_device_def)


definition selects :: "trace \<Rightarrow> nat" where
  "selects tr = length (filter (\<lambda>e. case e of EvSelect fd r \<Rightarrow> True | _ \<Rightarrow> False) tr)"

lemma selects_simps [simp]: "selects [] = 0" "selects (a @ b) = selects a + selects b"
  "selects (EvSelect fd r # tr) = Suc (selects tr)" "selects (EvIoctl fd c r # tr) = selects tr"
  "selects (EvNotifyFirstCapture t # tr) = selects tr"
  by (simp_all add: selects_def)

lemma selects_device: "selects (device tr) = selects tr"
proof (induction tr)
  case (Cons e tr)
  then show ?case by (cases e) (simp_all add: selects_def)
qed simp

lemma dqbuf_eq:
  assumes "sys_dqbuf os (upd (mCurBufIndex_update (\<lambda>_. 0)) s) = (r, errno, s')"
  shows "\<exists>i. s' = emit (EvIoctl (mFD (cam s)) (VIDIOC_DQBUF i) r) (upd (mCurBufIndex_update (\<lambda>_. i)) s) \<and> (r < 0 \<longrightarrow> i = 0) \<and>
    r = fst (os_dqbuf os (trace s) (mFD (cam s))) \<and> errno = fst (snd (os_dqbuf os (trace s) (mFD (cam s))))"
  using assms by (auto simp: sys_dqbuf_def Let_def split_beta upd_def emit_def split: if_splits)

lemma notify_first_simps [simp]: "cam (notify_first os s) = cam s" "alive (notify_first os s) = alive s"
  by (simp_all add: notify_first_def split_beta Let_def)

lemma notify_first_trace: "\<exists>t. trace (notify_first os s) = trace s @ [EvNotifyFirstCapture t]"
  by (simp add: notify_first_def split_beta Let_def)

lemma capture_frame_log:
  assumes "capture_frame os f s = Some (x, s')" and s: "settled s"
  defines "fd \<equiv> mFD (cam s)"
  shows "settled s' \<and> same_device (cam s) (cam s') \<and>
    ((\<exists>r < 0. x = Error \<and> fst (snd (os_dqbuf os (trace s) fd)) = EAGAIN \<and> device (trace s') = device (trace s) @ [EvIoctl fd (VIDIOC_DQBUF 0) r]) \<or>
     (\<exists>i d t q. (q < 0 \<and> x = Error \<or> 0 \<le> q \<and> x = Again False) \<and> d = fst (os_dqbuf os (trace s) fd) \<and>
        (d < 0 \<longrightarrow> i = 0) \<and> device (trace s') = device (trace s) @ EvIoctl fd (VIDIOC_DQBUF i) d # (if f then [EvNotifyFirstCapture t] else []) @ [EvIoctl fd (VIDIOC_QBUF i) q]))"
proof -
  obtain r errno s1 where s1: "sys_dqbuf os (upd (mCurBufIndex_update (\<lambda>_. 0)) s) = (r, errno, s1)"
    by (metis surj_pair)
  then obtain i where i: "s1 = emit (EvIoctl fd (VIDIOC_DQBUF i) r) (upd (mCurBufIndex_update (\<lambda>_. i)) s)" "r < 0 \<longrightarrow> i = 0"
      "r = fst (os_dqbuf os (trace s) fd)" "errno = fst (snd (os_dqbuf os (trace s) fd))"
    using dqbuf_eq unfolding fd_def by blast
  have st1: "settled s1" "same_device (cam s) (cam s1)"
    using s i(1) by (auto simp: settled_def unlocked_def same_device_def)
  show ?thesis
  proof (cases "0 > r \<and> errno = EAGAIN")
    case True
    then have "x = Error" "s' = s1" using assms(1) s1 by (auto simp: capture_frame_def Let_def)
    then show ?thesis using True i st1 by auto
  next
    case False
    let ?s2 = "if f then notify_first os s1 else s1"
    obtain t where t: "trace (notify_first os s1) = trace s1 @ [EvNotifyFirstCapture t]" using notify_first_trace by blast
    obtain s3 s4 s5 where s3: "run_ui os BeforeDraw ?s2 = Some s3" and s4: "drawPreviewSurface os s3 = Some s4"
        and s5: "drawEncoderSurface os s4 = Some s5"
      using assms(1) s1 False by (auto simp: capture_frame_def Let_def Option.bind_eq_Some_conv split: if_splits)
    have st2: "settled ?s2" "same_device (cam s) (cam ?s2)" "mCurBufIndex (cam ?s2) = i"
      using st1 i(1) by (auto simp: settled_def unlocked_def)
    have k3: "keeps ?s2 s3" using run_ui_keeps [OF s3] st2(1) by (simp add: settled_def)
    have k: "keeps ?s2 s5"
      using dp.both_keep [OF s4 s5] keeps_settled [OF k3] k3 by (auto simp: settled_def intro: keeps_trans)
    let ?q = "os_qbuf os (trace s5) (mFD (cam s5)) (mCurBufIndex (cam s5))"
    have s': "s' = emit (EvIoctl (mFD (cam s5)) (VIDIOC_QBUF (mCurBufIndex (cam s5))) ?q) s5"
      and x: "x = (if ?q < 0 then Error else Again False)"
      using assms(1) s1 s3 s4 s5 False
      by (auto simp: capture_frame_def Let_def sys_ioctl_def split: if_splits)
    have e: "settled s5" "same_device (cam s) (cam s5)" "mFD (cam s5) = fd" "mCurBufIndex (cam s5) = i"
      using keeps_settled [OF k] st2 by (auto simp: same_device_def fd_def)
    have "device (trace s5) = device (trace s) @ EvIoctl fd (VIDIOC_DQBUF i) r # (if f then [EvNotifyFirstCapture t] else [])"
    proof -
      have "device (trace s1) = device (trace s) @ [EvIoctl fd (VIDIOC_DQBUF i) r]" by (simp add: i(1))
      then show ?thesis using keeps_device [OF k] t by simp
    qed
    then have d: "device (trace s') = device (trace s) @ EvIoctl fd (VIDIOC_DQBUF i) r #
        (if f then [EvNotifyFirstCapture t] else []) @ [EvIoctl fd (VIDIOC_QBUF i) ?q]"
      by (simp add: s' e(3,4))
    have "settled s' \<and> same_device (cam s) (cam s')" using e by (simp add: s' settled_def unlocked_def)
    moreover have "?q < 0 \<and> x = Error \<or> 0 \<le> ?q \<and> x = Again False" using x by auto
    ultimately show ?thesis using d i(2,3) by blast
  qed
qed

lemma capture_body_log:
  assumes "capture_body os f s = Some (x, s')" and s: "settled s"
  defines "fd \<equiv> mFD (cam s)"
  shows "settled s' \<and> same_device (cam s) (cam s') \<and>
    (\<exists>L. device (trace s') = device (trace s) @ L \<and> selects L = 1 \<and>
      (case x of Again g \<Rightarrow> (\<forall>L' y. session fd g L' y \<longrightarrow> session fd f (L @ L') y) | _ \<Rightarrow> session fd f L x))"
proof -
  obtain r errno s1 where sel: "sys_select os s = (r, errno, s1)" by (metis surj_pair)
  then have s1: "s1 = emit (EvSelect fd r) s" by (auto simp: sys_select_def Let_def split_beta fd_def)
  obtain s2 where s2: "run_ui os AfterSelect s1 = Some s2"
    using assms(1) sel by (auto simp: capture_body_def Let_def Option.bind_eq_Some_conv)
  have k: "keeps s1 s2" "trace s2 = trace s1"
    using run_ui_keeps [OF s2] s s1 by (auto simp: settled_def unlocked_def)
  have st: "settled s2" "same_device (cam s) (cam s2)" using keeps_settled [OF k(1)] by (auto simp: s1 same_device_def)
  have fd2: "mFD (cam s2) = fd" using st(2) by (simp add: same_device_def fd_def)
  have d2: "device (trace s2) = device (trace s) @ [EvSelect fd r]" using k(2) by (simp add: s1)
  consider (stop) "x = Stop" "s' = s2" | (retry) "x = Again f" "s' = s2" "r = - 1"
    | (err) "x = Error" "s' = s2" "r = - 1 \<or> r = 0" | (frame) "capture_frame os f s2 = Some (x, s')"
  proof -
    have b: "(if mPeekRun (cam s2) = False then Some (Stop, s2)
       else if - 1 = r then (if EINTR = errno then Some (Again f, s2) else Some (Error, s2))
       else if 0 = r then Some (Error, s2) else capture_frame os f s2) = Some (x, s')"
      using assms(1) sel s2 by (simp add: capture_body_def)
    consider "\<not> mPeekRun (cam s2)" | "mPeekRun (cam s2)" "r = - 1" | "mPeekRun (cam s2)" "r = 0"
      | "mPeekRun (cam s2)" "r \<noteq> - 1" "r \<noteq> 0" by blast
    then show thesis
    proof cases
      case 1 with b show ?thesis by (intro that(1)) simp_all
    next
      case 2
      show ?thesis
      proof (cases "EINTR = errno")
        case True with b 2 show ?thesis by (intro that(2)) simp_all
      next
        case False with b 2 show ?thesis by (intro that(3)) simp_all
      qed
    next
      case 3 with b show ?thesis by (intro that(3)) simp_all
    next
      case 4 with b show ?thesis by (intro that(4)) simp
    qed
  qed
  then show ?thesis
  proof cases
    case stop then show ?thesis using st d2 by (auto intro: session.stop_select)
  next
    case retry then show ?thesis using st d2 by (auto intro: session.retry)
  next
    case err then show ?thesis using st d2 by (auto intro: session.select_error)
  next
    case frame
    note c = capture_frame_log [OF frame st(1), unfolded fd2]
    then have stf: "settled s'" "same_device (cam s) (cam s')" using same_device_trans [OF st(2)] by auto
    from c consider (deq) q where "q < 0" "x = Error" "device (trace s') = device (trace s2) @ [EvIoctl fd (VIDIOC_DQBUF 0) q]"
      | (queue) i d t q where "q < 0 \<and> x = Error \<or> 0 \<le> q \<and> x = Again False" "device (trace s') = device (trace s2) @
        EvIoctl fd (VIDIOC_DQBUF i) d # (if f then [EvNotifyFirstCapture t] else []) @ [EvIoctl fd (VIDIOC_QBUF i) q]"
      by blast
    then show ?thesis
    proof cases
      case deq
      then show ?thesis using stf d2 by (auto intro: session.dequeue_error)
    next
      case queue
      let ?L = "EvSelect fd r # EvIoctl fd (VIDIOC_DQBUF i) d # (if f then [EvNotifyFirstCapture t] else []) @ [EvIoctl fd (VIDIOC_QBUF i) q]"
      have "device (trace s') = device (trace s) @ ?L" "selects ?L = 1" using queue(2) d2 by simp_all
      moreover have "case x of Again g \<Rightarrow> (\<forall>L' y. session fd g L' y \<longrightarrow> session fd f (?L @ L') y) | _ \<Rightarrow> session fd f ?L x"
        using queue(1) session.frame [of q fd _ _ f r i d t] session.queue_error [of q fd f r i d t] by auto
      ultimately show ?thesis using stf by blast
    qed
  qed
qed

lemma capture_loop_log:
  "capture_loop n os f s = Some (x, s') \<Longrightarrow> settled s \<Longrightarrow> settled s' \<and> same_device (cam s) (cam s') \<and>
     (\<exists>L. device (trace s') = device (trace s) @ L \<and> session (mFD (cam s)) f L x) \<and>
     (x = Stop \<longrightarrow> \<not> mPeekRun (cam s'))"
proof (induction n os f s rule: capture_loop.induct)
  case (1 os f s)
  then show ?case by (auto simp: same_device_def intro: session.fuel)
next
  case (2 n os f s)
  obtain s1 where s1: "run_ui os AtLoopHead s = Some s1" using "2.prems"(1) by (auto simp: Option.bind_eq_Some_conv)
  have k: "keeps s s1" "trace s1 = trace s" using run_ui_keeps [OF s1] "2.prems"(2) by (auto simp: settled_def)
  note st = keeps_settled [OF k(1)]
  have fd: "mFD (cam s1) = mFD (cam s)" using st by (simp add: same_device_def)
  show ?case
  proof (cases "mPeekRun (cam s1)")
    case False
    then have "x = Stop" "s' = s1" using "2.prems"(1) s1 by auto
    then show ?thesis using False st k(2) by (auto intro: session.stop_head)
  next
    case True
    then obtain y s2 where b: "capture_body os f s1 = Some (y, s2)"
      using "2.prems"(1) s1 by (auto simp: Option.bind_eq_Some_conv)
    note c = capture_body_log [OF b, unfolded fd]
    show ?thesis
    proof (cases y)
      case (Again g)
      then have l: "capture_loop n os g s2 = Some (x, s')" using "2.prems"(1) s1 True b by simp
      have st2: "settled s2" "same_device (cam s) (cam s2)" using c st same_device_trans by auto
      from "2.IH" [OF s1 _ b refl Again l st2(1)] True
      have ih: "settled s' \<and> same_device (cam s2) (cam s') \<and>
        (\<exists>L. device (trace s') = device (trace s2) @ L \<and> session (mFD (cam s2)) g L x) \<and> (x = Stop \<longrightarrow> \<not> mPeekRun (cam s'))" by simp
      obtain L where L: "device (trace s2) = device (trace s) @ L"
          "\<And>L' y. session (mFD (cam s)) g L' y \<Longrightarrow> session (mFD (cam s)) f (L @ L') y"
        using c st k(2) Again by auto
      have "mFD (cam s2) = mFD (cam s)" using st2(2) by (simp add: same_device_def)
      then show ?thesis using ih L same_device_trans [OF st2(2)] by auto
    next
      case Stop
      then have "x = Stop" "s' = s2" using "2.prems"(1) s1 True b by auto
      moreover have "\<not> mPeekRun (cam s2)" using b Stop
        by (auto simp: capture_body_def capture_frame_def Let_def Option.bind_eq_Some_conv split_beta split: if_splits)
      ultimately show ?thesis using c st k(2) Stop same_device_trans by auto
    next
      case Error
      then have "x = Error" "s' = s2" using "2.prems"(1) s1 True b by auto
      then show ?thesis using c st k(2) Error same_device_trans by auto
    qed
  qed
qed


text \<open>Facts about every session, by rule induction.\<close>

definition notified :: "trace \<Rightarrow> int list" where
  "notified tr = concat (map (\<lambda>e. case e of EvNotifyFirstCapture t \<Rightarrow> [t] | _ \<Rightarrow> []) tr)"

definition dequeued :: "trace \<Rightarrow> int list" where
  "dequeued tr = concat (map (\<lambda>e. case e of EvIoctl fd (VIDIOC_DQBUF i) r \<Rightarrow> [i] | _ \<Rightarrow> []) tr)"

definition requeued :: "trace \<Rightarrow> int list" where
  "requeued tr = concat (map (\<lambda>e. case e of EvIoctl fd (VIDIOC_QBUF i) r \<Rightarrow> [i] | _ \<Rightarrow> []) tr)"

lemma session_notified: "session fd f L x \<Longrightarrow> length (notified L) \<le> (if f then 1 else 0)"
  by (induction rule: session.induct) (auto simp: notified_def)

lemma session_balance: "session fd f L x \<Longrightarrow>
    dequeued L = requeued L \<or> (x = Error \<and> dequeued L = requeued L @ [0] \<and>
      (\<exists>r < 0. last L = EvIoctl fd (VIDIOC_DQBUF 0) r))"
  by (induction rule: session.induct) (auto simp: dequeued_def requeued_def)

text \<open>The calls on the descriptor, without notifications and window calls. \<open>handed_back\<close>: every dequeue is
  followed at once by the queueing of the same buffer, a queueing comes only there, and nothing but a close
  follows a failed queueing or a dequeue that is not followed by a queueing, which has failed.\<close>

fun request :: "event \<Rightarrow> bool" where
  "request (EvOpen p fd) = True"
| "request (EvClose fd) = True"
| "request (EvIoctl fd cmd r) = True"
| "request (EvMmap fd a l r) = True"
| "request (EvSelect fd r) = True"
| "request _ = False"

definition requests :: "trace \<Rightarrow> event list" where
  "requests tr = filter request tr"

fun handed_back :: "int \<Rightarrow> event list \<Rightarrow> bool" where
  "handed_back fd [] = True"
| "handed_back fd (e # es) = (case e of
     EvSelect g r \<Rightarrow> g = fd \<and> handed_back fd es
   | EvIoctl g (VIDIOC_DQBUF i) r \<Rightarrow> g = fd \<and> (case es of
       EvIoctl h (VIDIOC_QBUF j) q # es' \<Rightarrow> h = fd \<and> j = i \<and> (q < 0 \<longrightarrow> es' = [EvClose fd]) \<and> handed_back fd es'
     | _ \<Rightarrow> r < 0 \<and> es = [EvClose fd])
   | EvClose g \<Rightarrow> g = fd \<and> es = []
   | _ \<Rightarrow> False)"

lemma session_handed_back:
  "session fd f L x \<Longrightarrow> handed_back fd (requests L @ (if x = Error then [EvClose fd] else []))"
  by (induction rule: session.induct) (auto simp: requests_def)

subsection \<open>Enough fuel\<close>

definition stops_after :: "nat \<Rightarrow> os \<Rightarrow> bool" where
  "stops_after k os \<longleftrightarrow> (\<forall>tr. k \<le> selects tr \<longrightarrow> UiStop \<in> set (os_ui os AfterSelect tr))"

lemma ui_exec_peek: "ui_exec os op s = Some t \<Longrightarrow> alive t \<Longrightarrow> op = UiStop \<or> \<not> mPeekRun (cam s) \<Longrightarrow> \<not> mPeekRun (cam t)"
  by (cases op) (auto simp: ui_exec_def setPreviewSurface_def addEncoderSurface_def removeEncoderSurface_def
      stopCapture_def lock_defs Let_def Option.bind_eq_Some_conv split: if_splits)

lemma ui_execs_peek:
  "ui_execs os ops s = Some t \<Longrightarrow> alive t \<Longrightarrow> UiStop \<in> set ops \<or> \<not> mPeekRun (cam s) \<Longrightarrow> \<not> mPeekRun (cam t)"
proof (induction ops arbitrary: s)
  case (Cons op ops)
  then obtain s1 where s1: "ui_exec os op s = Some s1" "ui_execs os ops s1 = Some t"
    by (auto simp: Option.bind_eq_Some_conv)
  have "alive s1" using s1(2) Cons.prems(2) by (cases ops) (auto simp: ui_exec_def Option.bind_eq_Some_conv split: if_splits)
  then have "UiStop \<in> set ops \<or> \<not> mPeekRun (cam s1)" using ui_exec_peek [OF s1(1)] Cons.prems(3) by auto
  then show ?case by (rule Cons.IH [OF s1(2) Cons.prems(2)])
qed simp

lemma run_ui_stops: "run_ui os pt s = Some t \<Longrightarrow> UiStop \<in> set (os_ui os pt (trace s)) \<Longrightarrow> \<not> mPeekRun (cam t)"
  by (auto simp: run_ui_def Option.bind_eq_Some_conv split: if_splits dest: ui_execs_peek)

lemma capture_body_selects:
  assumes "capture_body os f s = Some (x, s')" "settled s"
  shows "selects (trace s') = selects (trace s) + 1"
  using capture_body_log [OF assms] selects_device [of "trace s'"] selects_device [of "trace s"] by auto

lemma capture_body_stops:
  assumes "capture_body os f s = Some (Again g, s')" "stops_after k os"
  shows "selects (trace s) + 1 < k"
proof (rule ccontr)
  assume *: "\<not> ?thesis"
  obtain r errno s1 where sel: "sys_select os s = (r, errno, s1)" by (metis surj_pair)
  then have "selects (trace s1) = selects (trace s) + 1" by (auto simp: sys_select_def Let_def split_beta)
  then have "UiStop \<in> set (os_ui os AfterSelect (trace s1))" using * assms(2) by (simp add: stops_after_def)
  then have "run_ui os AfterSelect s1 = Some u \<Longrightarrow> \<not> mPeekRun (cam u)" for u
    using run_ui_stops by blast
  then show False using assms(1) sel
    by (auto simp: capture_body_def Option.bind_eq_Some_conv split: if_splits)
qed

lemma capture_loop_stops:
  "capture_loop n os f s = Some (Again g, s') \<Longrightarrow> settled s \<Longrightarrow> stops_after k os \<Longrightarrow> n = 0 \<or> selects (trace s) + n < k"
proof (induction n os f s rule: capture_loop.induct)
  case (2 n os f s)
  obtain s1 where s1: "run_ui os AtLoopHead s = Some s1" using "2.prems"(1) by (auto simp: Option.bind_eq_Some_conv)
  have k: "keeps s s1" "trace s1 = trace s" using run_ui_keeps [OF s1] "2.prems"(2) by (auto simp: settled_def)
  have p: "mPeekRun (cam s1)" using "2.prems"(1) s1 by (auto split: if_splits)
  then obtain y s2 where b: "capture_body os f s1 = Some (y, s2)"
    using "2.prems"(1) s1 by (auto simp: Option.bind_eq_Some_conv)
  then obtain h where y: "y = Again h" and l: "capture_loop n os h s2 = Some (Again g, s')"
    using "2.prems"(1) s1 p by (cases y) auto
  have st1: "settled s1" using keeps_settled [OF k(1)] by simp
  have st2: "settled s2" using capture_body_log [OF b st1] by simp
  have "\<not> \<not> mPeekRun (cam s1)" using p by simp
  from "2.IH" [OF s1 this b refl y l st2 "2.prems"(3)] capture_body_selects [OF b st1]
    capture_body_stops [OF b [unfolded y] "2.prems"(3)] k(2)
  show ?case by auto
qed simp

end
