(* ===== verification/Capture_Correct.thy ===== *)
theory Capture_Correct
  imports Camera_Capture
begin

text \<open>
  The capture as a whole: the environment in which it never faults and ends once it is stopped; how it
  ends; its protocol with the driver; what goes wrong when another thread stops it too early, and
  after a failed dequeue.
\<close>

subsection \<open>The environment without faults\<close>

text \<open>
  The environment in which nothing faults; each condition is needed. A driver whose successful dequeue hands out
  one of the four buffers, full frames of \<open>2 a * 2 b\<close> pixels. A preview window that gives buffers
  whose YV12 layout is not larger than the picture and that can be locked, or an error. Encoder windows
  that cannot be locked or are larger than the picture or narrower by an even number of pixels with memory for
  all of their pixels. Other threads may stop the
  capture, set the preview and add and remove encoders whenever they like, but do not set a preview
  just before the preview lock is taken (they may reset it) and do not release the camera.
\<close>

definition ui_safe :: "ui_point \<Rightarrow> ui_op \<Rightarrow> bool" where
  "ui_safe pt op \<longleftrightarrow>
     (case op of UiRelease \<Rightarrow> False | UiSetPreview j \<Rightarrow> pt = BeforePreviewLock \<longrightarrow> j = 0 | _ \<Rightarrow> True)"

definition preview_fits :: "nat \<Rightarrow> nat \<Rightarrow> os \<Rightarrow> ANativeWindowBuffer \<Rightarrow> bool" where
  "preview_fits a b os buf \<longleftrightarrow> 0 \<le> buf_stride buf \<and> 0 \<le> buf_height buf \<and>
     yv12_size (buf_stride buf) (buf_height buf) \<le> int (6 * (a * b)) \<and>
     (\<forall>tr. \<exists>dst. os_mapper_lock os tr (buf_handle buf) = Some dst \<and>
        yv12_size (buf_stride buf) (buf_height buf) \<le> int (length dst))"

definition good_env :: "nat \<Rightarrow> nat \<Rightarrow> os \<Rightarrow> bool" where
  "good_env a b os \<longleftrightarrow>
     (\<forall>tr fd. 0 \<le> fst (os_dqbuf os tr fd) \<longrightarrow> 0 \<le> snd (snd (os_dqbuf os tr fd)) \<and> snd (snd (os_dqbuf os tr fd)) < 4) \<and>
     (\<forall>tr x. 8 * (a * b) \<le> length (os_frame os tr x)) \<and>
     (\<forall>p tr r buf. fst (hook_dequeueBuffer_DEPRECATED (os_window os p) tr) = (r, buf) \<longrightarrow> r = 0 \<longrightarrow>
        preview_fits a b os buf) \<and>
     (\<forall>ps. windows_fit (2 * a) (2 * b) os ps) \<and>
     (\<forall>pt tr. list_all (ui_safe pt) (os_ui os pt tr))"

definition good_cam :: "nat \<Rightarrow> nat \<Rightarrow> sys \<Rightarrow> bool" where
  "good_cam a b s \<longleftrightarrow> settled s \<and> arrays_ok (cam s) \<and> mWidth (cam s) = 2 * int a \<and> mHeight (cam s) = 2 * int b \<and>
     length (mBufferArray (cam s)) = 4 \<and> None \<notin> set (mBufferArray (cam s)) \<and>
     0 \<le> mCurBufIndex (cam s) \<and> mCurBufIndex (cam s) < 4"

lemma good_camI:
  assumes "good_cam a b s" "keeps s s'" "arrays_ok (cam s')"
  shows "good_cam a b s'"
  using assms by (simp add: good_cam_def keeps_def settled_def fixed_def)

lemma good_frame:
  assumes "good_cam a b s" "good_env a b os"
  shows "\<exists>f. shows_frame os s a b f"
proof -
  have "nat (mCurBufIndex (cam s)) < length (mBufferArray (cam s))" using assms(1) by (auto simp: good_cam_def)
  then have "mBufferArray (cam s) ! nat (mCurBufIndex (cam s)) \<noteq> None"
    using assms(1) by (metis good_cam_def nth_mem)
  then obtain bf where "mBufferArray (cam s) ! nat (mCurBufIndex (cam s)) = Some bf" by blast
  then show ?thesis using assms by (simp add: shows_frame_def current_frame_def good_cam_def good_env_def)
qed

lemma ui_exec_good:
  assumes "ui_safe pt op" "good_cam a b s"
  shows "\<exists>s'. ui_exec os op s = Some s' \<and> good_cam a b s' \<and>
    (pt = BeforePreviewLock \<longrightarrow> mPreviewSurface (cam s') \<in> {mPreviewSurface (cam s), 0})"
  using assms
  by (cases op) (auto simp: ui_safe_def ui_exec_def good_cam_def settled_def unlocked_def arrays_ok_def stopCapture_def
      setPreviewSurface_def addEncoderSurface_def removeEncoderSurface_def lock_defs Surface_isValid_def Let_def
      split: option.splits)

lemma ui_execs_good:
  "list_all (ui_safe pt) ops \<Longrightarrow> good_cam a b s \<Longrightarrow> \<exists>s'. ui_execs os ops s = Some s' \<and> good_cam a b s' \<and>
    (pt = BeforePreviewLock \<longrightarrow> mPreviewSurface (cam s') \<in> {mPreviewSurface (cam s), 0})"
proof (induction ops arbitrary: s)
  case (Cons op ops)
  then obtain s1 where s1: "ui_exec os op s = Some s1" "good_cam a b s1"
      "pt = BeforePreviewLock \<longrightarrow> mPreviewSurface (cam s1) \<in> {mPreviewSurface (cam s), 0}"
    using ui_exec_good [of pt op a b s os] by auto
  have "list_all (ui_safe pt) ops" using Cons.prems(1) by simp
  then obtain s2 where "ui_execs os ops s1 = Some s2" "good_cam a b s2"
      "pt = BeforePreviewLock \<longrightarrow> mPreviewSurface (cam s2) \<in> {mPreviewSurface (cam s1), 0}"
    using Cons.IH s1(2) by blast
  then show ?case using s1 by auto
qed simp

lemma run_ui_good_cam:
  assumes "good_env a b os" "good_cam a b s"
  shows "\<exists>s'. run_ui os pt s = Some s' \<and> good_cam a b s' \<and> keeps s s' \<and> trace s' = trace s \<and>
    (pt = BeforePreviewLock \<longrightarrow> mPreviewSurface (cam s') \<in> {mPreviewSurface (cam s), 0})"
proof -
  have "list_all (ui_safe pt) (os_ui os pt (trace s))" using assms(1) by (simp add: good_env_def)
  then obtain s' where s': "ui_execs os (os_ui os pt (trace s)) s = Some s'" "good_cam a b s'"
      "pt = BeforePreviewLock \<longrightarrow> mPreviewSurface (cam s') \<in> {mPreviewSurface (cam s), 0}"
    using ui_execs_good [OF _ assms(2)] by blast
  have "settled s" "settled s'" using assms(2) s'(2) by (simp_all add: good_cam_def)
  then have r: "run_ui os pt s = Some s'" using s'(1) by (simp add: run_ui_def settled_def)
  show ?thesis using r s' run_ui_keeps [OF r] \<open>settled s\<close> by (auto simp: settled_def)
qed

lemma yv12_copy_defined:
  assumes "preview_fits a b os buf" "length yuv = 6 * (a * b)"
  shows "\<exists>dst m. os_mapper_lock os tr (buf_handle buf) = Some dst \<and>
    memcpy dst 0 yuv 0 (yv12_size (buf_stride buf) (buf_height buf)) = Some m"
proof -
  obtain dst where dst: "os_mapper_lock os tr (buf_handle buf) = Some dst"
      "yv12_size (buf_stride buf) (buf_height buf) \<le> int (length dst)"
    using assms(1) unfolding preview_fits_def by blast
  have "0 \<le> yv12_size (buf_stride buf) (buf_height buf)"
    using assms(1) yv12_size_nonneg by (simp add: preview_fits_def)
  moreover have "yv12_size (buf_stride buf) (buf_height buf) \<le> int (length yuv)"
    using assms by (simp only: preview_fits_def)
  ultimately show ?thesis using dst memcpy_defined [of 0 0 "yv12_size (buf_stride buf) (buf_height buf)" dst yuv] by auto
qed

lemma drawPreview_good:
  assumes env: "good_env a b os" and s: "good_cam a b s"
  shows "\<exists>s'. drawPreviewSurface os s = Some s' \<and> good_cam a b s'"
proof -
  obtain s0 where s0: "run_ui os BeforePreviewLock s = Some s0" "good_cam a b s0"
      "mPreviewSurface (cam s0) \<in> {mPreviewSurface (cam s), 0}"
    using run_ui_good_cam [OF env s, of BeforePreviewLock] by blast
  have st: "settled s" "settled s0" using s s0(2) by (simp_all add: good_cam_def)
  let ?s1 = "upd (mPreviewLock_update (\<lambda>_. True)) s0"
  have l: "lock_preview s0 = Some ?s1" using st(2) by (simp add: lock_preview_def settled_def unlocked_def)
  have "\<exists>s'. drawPreviewSurface os s = Some s' \<and> arrays_ok (cam s')"
  proof (cases "mPreviewSurface (cam s0) = 0")
    case True
    then show ?thesis using s0(2) l
      by (simp add: drawPreviewSurface_def Let_def s0(1) unlock_preview_def)
        (auto simp: good_cam_def arrays_ok_def split: option.splits)
  next
    case False
    obtain f where f: "shows_frame os s0 a b f" using good_frame [OF s0(2) env] by blast
    let ?y = "yv12_planes a b f"
    let ?s2 = "upd (mYuv420sp_update (\<lambda>_. Some ?y)) ?s1"
    have a1: "arrays_ok (cam ?s1)" using s0(2) by (simp add: good_cam_def)
    have c2: "preview_convert os ?s1 = Some (?y, ?s2)"
      by (rule preview_convert_frame) (use f a1 in \<open>simp_all add: shows_frame_def current_frame_def\<close>)
    have a2: "arrays_ok (cam ?s2)" using preview_convert_arrays [OF c2 a1] by simp
    obtain w where w: "window_of os (mPreviewSurface (cam s)) = Some w" using window_of_Some [of "mPreviewSurface (cam s)"] False s0(3) by auto
    obtain s3 where s3: "s3 = preview_settings w ((mWidth (cam s) + 1) AND - 2) ((mHeight (cam s) + 1) AND - 2) ?s2"
        "cam s3 = cam ?s2"
      using preview_settings_eq(1) [OF w] by blast
    obtain r buf where deq: "fst (hook_dequeueBuffer_DEPRECATED (os_window os (mPreviewSurface (cam s))) (trace s3)) = (r, buf)"
      by (metis surj_pair)
    have d: "native_window_dequeue_buffer_and_wait w s3 = ((r, buf), emit (EvDequeue (mPreviewSurface (cam s)) r) s3)"
      by (simp add: dequeue_eq [OF w] deq)
    show ?thesis
    proof (cases "r = 0")
      case True
      then have g: "preview_fits a b os buf" using env deq unfolding good_env_def by blast
      obtain dst m where dst: "os_mapper_lock os (trace (emit (EvDequeue (mPreviewSurface (cam s)) r) s3)) (buf_handle buf) = Some dst"
          "memcpy dst 0 ?y 0 (yv12_size (buf_stride buf) (buf_height buf)) = Some m"
        using yv12_copy_defined [OF g yv12_planes_length] by blast
      have "0 \<le> buf_stride buf" using g by (simp add: preview_fits_def)
      from preview_copy_eq [OF this dst(1), of ?y] dst(2)
      obtain s5 where s5: "preview_copy os buf ?y (emit (EvDequeue (mPreviewSurface (cam s)) r) s3) = Some s5" "cam s5 = cam ?s2"
        using s3(2) by simp
      have "drawPreviewSurface os s = Some (unlock_preview (snd (hook_queueBuffer w buf (- 1) s5)))"
        using False True by (simp add: drawPreviewSurface_def Let_def s0(1) l c2 w d s3(1) [symmetric] s5(1) [unfolded True] split_beta)
      then show ?thesis using a2 s5(2) by (simp add: queue_eq [OF w] Let_def unlock_preview_def arrays_ok_def split: option.splits)
    next
      case r: False
      have "drawPreviewSurface os s = Some (unlock_preview (emit (EvDequeue (mPreviewSurface (cam s)) r) s3))"
        using False r by (simp add: drawPreviewSurface_def Let_def s0(1) l c2 w d s3(1) [symmetric])
      then show ?thesis using a2 s3(2) by (simp add: unlock_preview_def arrays_ok_def split: option.splits)
    qed
  qed
  then obtain s' where s': "drawPreviewSurface os s = Some s'" "arrays_ok (cam s')" by blast
  then show ?thesis using good_camI [OF s pv.draw_keeps [OF s'(1)]] st(1) by (auto simp: settled_def)
qed

lemma drawEncoder_good:
  assumes env: "good_env a b os" and s: "good_cam a b s"
  shows "\<exists>s'. drawEncoderSurface os s = Some s' \<and> good_cam a b s'"
proof -
  obtain s0 where s0: "run_ui os BeforeEncoderLock s = Some s0" "good_cam a b s0"
    using run_ui_good_cam [OF env s] by blast
  have st: "settled s" "settled s0" using s s0(2) by (simp_all add: good_cam_def)
  have u: "unlocked s0" and a0: "arrays_ok (cam s0)" and size: "mWidth (cam s0) = 2 * int a" "mHeight (cam s0) = 2 * int b"
    using s0(2) by (simp_all add: good_cam_def settled_def)
  have "\<exists>s'. drawEncoderSurface os s = Some s' \<and> arrays_ok (cam s')"
  proof (cases "mEncoderSurfaces (cam s0) = []")
    case True
    then show ?thesis using u a0
      by (simp add: drawEncoderSurface_def s0(1) lock_encoder_def unlocked_def unlock_encoder_def)
        (auto simp: arrays_ok_def split: option.splits)
  next
    case False
    obtain f where f: "shows_frame os s0 a b f" using good_frame [OF s0(2) env] by blast
    let ?r = "rgba_frame (os_char_signed os) (4 * (a * b)) f"
    let ?s2 = "upd (mRGBA8888_update (\<lambda>_. Some ?r)) (upd (mEncoderLock_update (\<lambda>_. True)) s0)"
    have "length ?r = 2 * a * (2 * b) * 4" "windows_fit (2 * a) (2 * b) os (mEncoderSurfaces (cam s0))"
      using env by (simp_all add: good_env_def)
    from encoder_posts_fit [OF this(1) _ _ this(2), of ?s2] size
    obtain s3 where s3: "encoder_posts os ?r (mEncoderSurfaces (cam s0)) ?s2 = Some s3" "cam s3 = cam ?s2" by auto
    have "arrays_ok (cam s3)" using a0 size s3(2) by (simp add: arrays_ok_def split: option.splits)
    then show ?thesis using s3(1)
      by (simp add: drawEncoder_prefix [OF s0(1) u False a0 f] unlock_encoder_def)
  qed
  then obtain s' where s': "drawEncoderSurface os s = Some s'" "arrays_ok (cam s')" by blast
  then show ?thesis using good_camI [OF s ec.draw_keeps [OF s'(1)]] st(1) by (auto simp: settled_def)
qed


text \<open>The whole capture.\<close>

lemma good_cam_emit [simp]: "good_cam a b (emit e s) = good_cam a b s"
  by (simp add: good_cam_def settled_def unlocked_def)

lemma good_cam_index:
  "good_cam a b s \<Longrightarrow> 0 \<le> i \<Longrightarrow> i < 4 \<Longrightarrow> good_cam a b (upd (mCurBufIndex_update (\<lambda>_. i)) s)"
  by (simp add: good_cam_def settled_def unlocked_def arrays_ok_def split: option.splits)

lemma good_cam_peek: "good_cam a b s \<Longrightarrow> good_cam a b (upd (mPeekRun_update (\<lambda>_. v)) s)"
  by (simp add: good_cam_def settled_def unlocked_def)

lemma capture_frame_good:
  assumes env: "good_env a b os" and s: "good_cam a b s"
  shows "\<exists>x s'. capture_frame os f s = Some (x, s') \<and> good_cam a b s'"
proof -
  obtain r errno s1 where s1: "sys_dqbuf os (upd (mCurBufIndex_update (\<lambda>_. 0)) s) = (r, errno, s1)"
    by (metis surj_pair)
  then have g1: "good_cam a b s1" using env good_cam_index [OF s] unfolding good_env_def
    by (auto simp: sys_dqbuf_def Let_def split_beta good_cam_index)
  show ?thesis
  proof (cases "0 > r \<and> errno = EAGAIN")
    case True
    then show ?thesis using g1 s1 by (simp add: capture_frame_def)
  next
    case False
    let ?s2 = "if f then notify_first os s1 else s1"
    have g2: "good_cam a b ?s2" using g1 by (simp add: good_cam_def settled_def unlocked_def)
    obtain s3 where s3: "run_ui os BeforeDraw ?s2 = Some s3" "good_cam a b s3" using run_ui_good_cam [OF env g2] by blast
    obtain s4 where s4: "drawPreviewSurface os s3 = Some s4" "good_cam a b s4" using drawPreview_good [OF env s3(2)] by blast
    obtain s5 where s5: "drawEncoderSurface os s4 = Some s5" "good_cam a b s5" using drawEncoder_good [OF env s4(2)] by blast
    show ?thesis using s1 s3(1) s4(1) s5 False g1
      by (simp add: capture_frame_def sys_ioctl_def Let_def)
  qed
qed

lemma capture_body_good:
  assumes env: "good_env a b os" and s: "good_cam a b s"
  shows "\<exists>x s'. capture_body os f s = Some (x, s') \<and> good_cam a b s'"
proof -
  obtain r errno s1 where s1: "sys_select os s = (r, errno, s1)" by (metis surj_pair)
  then have "good_cam a b s1" using s by (auto simp: sys_select_def Let_def split_beta)
  then obtain s2 where s2: "run_ui os AfterSelect s1 = Some s2" "good_cam a b s2"
    using run_ui_good_cam [OF env] by blast
  show ?thesis using s1 s2 capture_frame_good [OF env s2(2), of f] by (simp add: capture_body_def)
qed

lemma capture_loop_good:
  "good_env a b os \<Longrightarrow> good_cam a b s \<Longrightarrow> \<exists>x s'. capture_loop n os f s = Some (x, s')"
proof (induction n arbitrary: f s)
  case (Suc n)
  obtain s1 where s1: "run_ui os AtLoopHead s = Some s1" "good_cam a b s1" using run_ui_good_cam [OF Suc.prems] by blast
  obtain x s2 where s2: "capture_body os f s1 = Some (x, s2)" "good_cam a b s2"
    using capture_body_good [OF Suc.prems(1) s1(2)] by blast
  show ?case using s1 s2(1) Suc.IH [OF Suc.prems(1) s2(2)] by (cases x) auto
qed simp

lemma startCapture_good:
  assumes "good_env a b os" "good_cam a b s"
  shows "\<exists>e s'. startCapture n os s = Some (e, s')"
  using capture_loop_good [OF assms(1) good_cam_peek [OF assms(2), of True], of n True]
  by (auto simp: startCapture_def split: loop_exit.split)

text \<open>A good environment and camera for the witnesses: other threads stop the capture at the \<open>k\<close>-th
  call of \<open>select\<close>.\<close>

definition demo_os :: "nat \<Rightarrow> os" where
  "demo_os k = (easy_os 3 4 (replicate 128 7))\<lparr>os_window := \<lambda>_. easy_window 32 2,
     os_mapper_lock := \<lambda>_ _. Some (replicate 96 0),
     os_ui := \<lambda>pt tr. if pt = AfterSelect \<and> k \<le> selects tr then [UiStop] else []\<rparr>"

definition demo_sys :: sys where
  "demo_sys = (open_sys 32 2 5 [6, 7])\<lparr>cam := (cam (open_sys 32 2 5 [6, 7]))
     \<lparr>mBufferArray := replicate 4 (Some \<lparr>map_start = 4096, map_length = 128\<rparr>)\<rparr>\<rparr>"

lemma demo_good: "good_env 16 1 (demo_os k)" "good_cam 16 1 demo_sys"
proof -
  have "os_dqbuf (demo_os k) tr fd = (0, 0, 0)" "os_frame (demo_os k) tr x = replicate 128 7"
    "os_window (demo_os k) p = easy_window 32 2" "os_mapper_lock (demo_os k) tr h = Some (replicate 96 0)"
    "snd (os_ANativeWindow_lock (demo_os k) tr p) = \<lparr>nwb_width = 2, nwb_height = 2, nwb_stride = 2, nwb_bits = replicate 16 0\<rparr>"
    "list_all (ui_safe pt) (os_ui (demo_os k) pt tr)" for tr fd x p h pt
    by (auto simp: demo_os_def easy_os_def ui_safe_def)
  then show "good_env 16 1 (demo_os k)" using yv12_size_32 [of 1 1]
    by (simp add: good_env_def windows_fit_def window_fits_def preview_fits_def easy_window_dequeue)
  show "good_cam 16 1 demo_sys"
    by (simp add: good_cam_def demo_sys_def settled_def arrays_ok_def unlocked_def Camera_new_def)
qed

subsection \<open>Properties\<close>

text \<open>C2: a capture that ends sends exactly one of the two final notifications to the Java object, as its
  last act. If it was stopped, the run flag is false and the descriptor stays open; after an error
  the descriptor is closed and forgotten. The surfaces' locks are free and the camera's
  picture size and buffers are as before.\<close>

theorem startCapture_outcome:
  assumes "startCapture n os s = Some (e, s')" and "settled s" and "0 \<le> mFD (cam s)"
    and "e \<noteq> OutOfFuel"
  shows "\<exists>L. device (trace s') = device (trace s) @ L \<and>
    (e = CaptureStopped \<and> \<not> mPeekRun (cam s') \<and> mFD (cam s') = mFD (cam s) \<and>
       (\<exists>M. L = M @ [EvNotifyCaptureStop] \<and> session (mFD (cam s)) True M Stop) \<or>
     e = CameraError \<and> mFD (cam s') = - 1 \<and>
       (\<exists>M. L = M @ [EvClose (mFD (cam s)), EvNotifyCameraError] \<and> session (mFD (cam s)) True M Error)) \<and>
    unlocked s' \<and> alive s' \<and> mWidth (cam s') = mWidth (cam s) \<and> mHeight (cam s') = mHeight (cam s) \<and>
    mBufferArray (cam s') = mBufferArray (cam s)"
proof -
  let ?s0 = "upd (mPeekRun_update (\<lambda>_. True)) s"
  obtain x s1 where l: "capture_loop n os True ?s0 = Some (x, s1)"
    using assms(1,3) by (auto simp: startCapture_def Option.bind_eq_Some_conv)
  have "settled ?s0" using assms(2) by (simp add: settled_def unlocked_def)
  note c = capture_loop_log [OF l this]
  obtain M where M: "device (trace s1) = device (trace s) @ M" "session (mFD (cam s)) True M x" using c by auto
  have d: "same_device (cam s) (cam s1)" "settled s1" using c by (auto simp: same_device_def)
  show ?thesis
  proof (cases x)
    case (Again g)
    then show ?thesis using assms(1,3,4) l by (simp add: startCapture_def)
  next
    case Stop
    then have "e = CaptureStopped" "s' = emit EvNotifyCaptureStop (upd (mPeekRun_update (\<lambda>_. False)) s1)"
      using assms(1,3) l by (auto simp: startCapture_def)
    then show ?thesis using M d Stop by (auto simp: same_device_def settled_def unlocked_def)
  next
    case Error
    then have "e = CameraError" "s' = emit EvNotifyCameraError (upd (mFD_update (\<lambda>_. - 1)) (sys_close s1))"
      using assms(1,3) l by (auto simp: startCapture_def)
    then show ?thesis using M d Error by (auto simp: same_device_def settled_def unlocked_def sys_close_def)
  qed
qed


theorem startCapture_outcome_witness:
  "\<exists>s'. startCapture 1 (demo_os 0) demo_sys = Some (CaptureStopped, s') \<and> \<not> mPeekRun (cam s')"
proof -
  have ui: "run_ui (demo_os 0) AtLoopHead s = Some s" "run_ui (demo_os 0) AfterSelect s = Some (stopCapture s)"
    if "alive s" for s
    using that by (simp_all add: run_ui_def ui_exec_def demo_os_def stopCapture_def)
  obtain r errno where sel: "os_select (demo_os 0) tr fd = (r, errno)" for tr fd
    by (simp add: demo_os_def easy_os_def)
  obtain s1 where "capture_loop 1 (demo_os 0) True (upd (mPeekRun_update (\<lambda>_. True)) demo_sys) = Some (Stop, s1)"
    by (simp add: ui capture_body_def sys_select_def sel demo_sys_def stopCapture_def)
  then obtain s' where s': "startCapture 1 (demo_os 0) demo_sys = Some (CaptureStopped, s')"
    by (simp add: startCapture_def demo_sys_def del: capture_loop.simps)
  have "settled demo_sys" "0 \<le> mFD (cam demo_sys)" using demo_good(2) by (simp_all add: good_cam_def demo_sys_def)
  from startCapture_outcome [OF s' this] s' show ?thesis by auto
qed

text \<open>C4: the calls a capture makes on its descriptor (windows and notifications left out) keep to the
  protocol \<open>handed_back\<close>: only selects come between the frames; every dequeue is followed at once, before anything else
  is asked of the driver, by the queueing of the same buffer, and a buffer is queued only there; a
  dequeue that is not followed by a queueing has failed and is the last request before the close; a
  failed queueing is too. So the buffers queued are those dequeued, in their order, up to that one
  failed dequeue (logged with index 0). The first-frame notification is sent at most once.\<close>

theorem capture_protocol:
  assumes "startCapture n os s = Some (e, s')" and "settled s" and "0 \<le> mFD (cam s)"
  shows "\<exists>L. device (trace s') = device (trace s) @ L \<and> length (notified L) \<le> 1 \<and>
    handed_back (mFD (cam s)) (requests L) \<and>
    (dequeued L = requeued L \<or> (e = CameraError \<and> dequeued L = requeued L @ [0]))"
proof -
  let ?s0 = "upd (mPeekRun_update (\<lambda>_. True)) s"
  obtain x s1 where l: "capture_loop n os True ?s0 = Some (x, s1)"
    using assms(1,3) by (auto simp: startCapture_def Option.bind_eq_Some_conv)
  have "settled ?s0" using assms(2) by (simp add: settled_def unlocked_def)
  note c = capture_loop_log [OF l this]
  then obtain L where L: "device (trace s1) = device (trace s) @ L"
      "session (mFD (cam s)) True L x" by auto
  have "mFD (cam s1) = mFD (cam s)" using c by (simp add: same_device_def)
  then have e: "\<exists>E. device (trace s') = device (trace s1) @ E \<and> notified E = [] \<and> dequeued E = [] \<and> requeued E = [] \<and>
      requests E = (if x = Error then [EvClose (mFD (cam s))] else []) \<and> (x = Error \<longrightarrow> e = CameraError)"
    using assms(1,3) l by (cases x)
      (auto simp: startCapture_def sys_close_def notified_def dequeued_def requeued_def requests_def)
  have app: "notified (a @ b) = notified a @ notified b" "dequeued (a @ b) = dequeued a @ dequeued b"
    "requeued (a @ b) = requeued a @ requeued b" "requests (a @ b) = requests a @ requests b" for a b
    by (simp_all add: notified_def dequeued_def requeued_def requests_def)
  from e obtain E where E: "device (trace s') = device (trace s) @ (L @ E)" "notified E = []" "dequeued E = []"
      "requeued E = []" "requests E = (if x = Error then [EvClose (mFD (cam s))] else [])" "x = Error \<longrightarrow> e = CameraError"
    using L(1) by auto
  have "dequeued (L @ E) = requeued (L @ E) \<or> (e = CameraError \<and> dequeued (L @ E) = requeued (L @ E) @ [0])"
    using session_balance [OF L(2)] E(3,4,6) by (auto simp: app)
  moreover have "handed_back (mFD (cam s)) (requests (L @ E))"
    using session_handed_back [OF L(2)] by (simp only: app E(5))
  ultimately show ?thesis using E(1,2) session_notified [OF L(2)]
    by (intro exI [of _ "L @ E"]) (simp add: app)
qed


theorem capture_protocol_witness:
  "\<exists>e s'. startCapture 3 (demo_os 9) demo_sys = Some (e, s') \<and> length (notified (device (trace s'))) \<le> 1 \<and>
     handed_back 3 (requests (device (trace s')))"
proof -
  obtain e s' where s': "startCapture 3 (demo_os 9) demo_sys = Some (e, s')"
    using startCapture_good [OF demo_good] by blast
  have "settled demo_sys" "0 \<le> mFD (cam demo_sys)" using demo_good(2) by (simp_all add: good_cam_def demo_sys_def)
  from capture_protocol [OF s' this] s' show ?thesis by (auto simp: demo_sys_def)
qed

lemma startCapture_ends:
  assumes "good_env a b os" "good_cam a b s" "0 \<le> mFD (cam s)" "stops_after k os" "k \<le> n" "0 < n"
  shows "\<exists>e s'. startCapture n os s = Some (e, s') \<and> (e = CaptureStopped \<or> e = CameraError)"
proof -
  let ?s0 = "upd (mPeekRun_update (\<lambda>_. True)) s"
  have g: "good_cam a b ?s0" by (rule good_cam_peek [OF assms(2)])
  obtain x s1 where l: "capture_loop n os True ?s0 = Some (x, s1)" using capture_loop_good [OF assms(1) g] by blast
  have "x \<noteq> Again h" for h
  proof
    assume "x = Again h"
    moreover have "settled ?s0" using g by (simp add: good_cam_def)
    ultimately show False using capture_loop_stops [of n os True ?s0 h s1 k] l assms(4-6) by auto
  qed
  then show ?thesis using l assms(3) by (cases x) (auto simp: startCapture_def)
qed

text \<open>C11: the capture ends once another thread stops it after \<open>select\<close>: if that happens
  at the latest at the \<open>k\<close>-th call of \<open>select\<close>, then \<open>k\<close> iterations are enough, and no memory fault
  happens on the way. The conditions, \<open>good_env\<close> and \<open>good_cam\<close>: the camera is open with four mapped buffers, no lock held, and a picture of
  even width and height; a successful dequeue gives one of the four, with a full frame in it; the buffers the preview window hands out
  (or it answers with an error) can be locked, and their YV12 layout is neither larger than their
  memory nor than the picture (a width that is no multiple of 32 can fail this); an encoder
  window that can be locked is larger than the picture, or not larger, narrower by an even number of
  pixels or none, with memory for all its pixels; and other threads, which may stop the
  capture, set the preview and add and remove encoders at all its points, neither release the camera nor
  set a preview in the moment before the preview lock is taken.\<close>

theorem capture_ends:
  assumes "good_env a b os" and "good_cam a b s" and "0 \<le> mFD (cam s)"
    and "\<And>tr. k \<le> selects tr \<Longrightarrow> UiStop \<in> set (os_ui os AfterSelect tr)" and "k \<le> n" and "0 < n"
  shows "\<exists>e s'. startCapture n os s = Some (e, s') \<and> (e = CaptureStopped \<or> e = CameraError)"
  by (rule startCapture_ends [OF assms(1-3) _ assms(5,6)]) (simp add: stops_after_def assms(4))

theorem capture_ends_witness:
  "\<exists>e s'. startCapture 3 ((demo_os 2)\<lparr>os_ui := \<lambda>pt tr. if pt = AfterSelect \<and> 2 \<le> selects tr then [UiAddEncoder 9, UiStop]
       else if pt = BeforeDraw then [UiSetPreview 0, UiRemoveEncoder 6] else []\<rparr>) demo_sys = Some (e, s') \<and>
     (e = CaptureStopped \<or> e = CameraError)"
  (is "\<exists>e s'. startCapture 3 ?os _ = _ e s' \<and> _")
proof -
  have "good_env 16 1 ?os" using demo_good(1) [of 2] 
    by (simp add: good_env_def ui_safe_def windows_fit_def preview_fits_def)
  then show ?thesis by (rule capture_ends [OF _ demo_good(2), of _ 2]) (simp_all add: demo_sys_def)
qed

text \<open>A stop requested before the capture thread enters \<open>startCapture\<close> is lost: the capture runs
  exactly as if it had not been requested.\<close>

lemma early_stop_lost:
  assumes "0 \<le> mFD (cam s)"
  shows "startCapture n os (stopCapture s) = startCapture n os s"
  using assms by (simp add: startCapture_def stopCapture_def upd_def)

theorem early_stop_lost_witness:
  "startCapture 3 (demo_os 2) (stopCapture demo_sys) = startCapture 3 (demo_os 2) demo_sys"
  by (rule early_stop_lost) (simp add: demo_sys_def)

text \<open>C34: a dequeue that fails with another error than EAGAIN does not end the iteration: the capture
  notifies (if it is the first frame) and goes on, and if nothing faults it asks the driver to queue buffer 0, which
  the driver had not handed out, and does nothing else with the device in between.\<close>

theorem dequeue_error_ignored:
  assumes "capture_frame os f s = Some (x, s')" and "settled s"
    and "\<And>tr fd. \<exists>i. os_dqbuf os tr fd = (- 1, errno, i)" and "errno \<noteq> EAGAIN"
  shows "\<exists>q t. device (trace s') = device (trace s) @ EvIoctl (mFD (cam s)) (VIDIOC_DQBUF 0) (- 1) #
     (if f then [EvNotifyFirstCapture t] else []) @ [EvIoctl (mFD (cam s)) (VIDIOC_QBUF 0) q]"
proof -
  have d: "fst (os_dqbuf os tr fd) = - 1" "fst (snd (os_dqbuf os tr fd)) = errno" for tr fd
    using assms(3) [of tr fd] by auto
  from capture_frame_log [OF assms(1,2)] assms(4) obtain t q where "device (trace s') = device (trace s) @
      EvIoctl (mFD (cam s)) (VIDIOC_DQBUF 0) (- 1) # (if f then [EvNotifyFirstCapture t] else []) @
      [EvIoctl (mFD (cam s)) (VIDIOC_QBUF 0) q]"
    unfolding d by auto
  then show ?thesis by blast
qed

theorem dequeue_error_ignored_witness:
  "\<exists>x s' q. capture_frame ((demo_os 2)\<lparr>os_dqbuf := \<lambda>_ _. (- 1, 5, 0)\<rparr>) False demo_sys = Some (x, s') \<and>
     device (trace s') = [EvIoctl 3 (VIDIOC_DQBUF 0) (- 1), EvIoctl 3 (VIDIOC_QBUF 0) q]"
  (is "\<exists>x s' q. capture_frame ?os False _ = _ x s' \<and> _ s' q")
proof -
  have "good_env 16 1 ?os" using demo_good(1) by (simp add: good_env_def windows_fit_def preview_fits_def)
  then obtain x s' where s': "capture_frame ?os False demo_sys = Some (x, s')"
    using capture_frame_good [OF _ demo_good(2)] by blast
  have "settled demo_sys" using demo_good(2) by (simp add: good_cam_def)
  from dequeue_error_ignored [OF s' this, of 5] s' show ?thesis by (auto simp: EAGAIN_def demo_sys_def)
qed

end
