(* ===== verification/Camera_Jni.thy ===== *)
theory Camera_Jni
  imports Capture_Correct
begin

text \<open>
  The JNI layer (\<open>com_hongdian_usbcamera_Camera.cpp\<close> from \<open>nativeAttachNative\<close> on): the
  Java object keeps the address of the native \<open>Camera\<close> in its int field \<open>mNativeObject\<close>;
  every native method fetches it, does nothing if it is null, and otherwise works on the object.
  \<open>app\<close> is the Java object, the heap of native objects and the log. A method called with the
  address of an object that is gone faults.
\<close>

type_synonym ptr32 = "32 word"

record app =
  jDevPath :: "string option"
  jNativeObject :: int
  objects :: "ptr32 \<Rightarrow> Camera option"
  jLog :: trace

text \<open>What the JNI calls of \<open>nativeAttachNative\<close> and \<open>operator new\<close> return.\<close>

record jni_env =
  je_GetStringUTFChars :: "trace \<Rightarrow> string \<Rightarrow> string option"
  je_new :: "(ptr32 \<Rightarrow> Camera option) \<Rightarrow> ptr32"

definition getDevicePath :: "jni_env \<Rightarrow> app \<Rightarrow> string option option" where
  "getDevicePath env a = (case jDevPath a of None \<Rightarrow> None
     | Some devPath \<Rightarrow> Some (je_GetStringUTFChars env (jLog a) devPath))"

definition getCamera :: "app \<Rightarrow> ptr32" where
  "getCamera a = word_of_int (jNativeObject a)"

definition setCamera :: "ptr32 \<Rightarrow> app \<Rightarrow> app" where
  "setCamera camera a = a\<lparr>jNativeObject := sint camera\<rparr>"

text \<open>Run a member function on the object at an address; its result is kept, and the object is
  gone from the heap if it deleted itself.\<close>

definition on_object :: "ptr32 \<Rightarrow> (sys \<Rightarrow> ('r \<times> sys) option) \<Rightarrow> app \<Rightarrow> ('r \<times> app) option" where
  "on_object p f a = do {
     c \<leftarrow> objects a p;
     (r, s) \<leftarrow> f \<lparr>cam = c, alive = True, trace = jLog a\<rparr>;
     Some (r, a\<lparr>objects := (objects a)(p := if alive s then Some (cam s) else None), jLog := trace s\<rparr>)
   }"

definition nativeAttachNative :: "jni_env \<Rightarrow> int \<Rightarrow> int \<Rightarrow> app \<Rightarrow> app option" where
  "nativeAttachNative env width height a =
     (if getCamera a = 0 then do {
        devPath \<leftarrow> getDevicePath env a;
        if devPath \<noteq> None then
          let camera = je_new env (objects a)
          in Some (setCamera camera (a\<lparr>objects := (objects a)(camera \<mapsto> Camera_new devPath width height)\<rparr>))
        else Some a
      } else Some a)"

definition nativeOpenCamera :: "os \<Rightarrow> app \<Rightarrow> (int \<times> app) option" where
  "nativeOpenCamera os a =
     (if getCamera a \<noteq> 0 then do {
        (fd, a) \<leftarrow> on_object (getCamera a) (openCamera os) a;
        Some (if fd > 0 then 0 else - 1, a)
      } else Some (- 1, a))"

definition nativeStartCapture :: "nat \<Rightarrow> os \<Rightarrow> app \<Rightarrow> (capture_end option \<times> app) option" where
  "nativeStartCapture n os a =
     (if getCamera a \<noteq> 0 then
        on_object (getCamera a) (\<lambda>s. map_option (\<lambda>(e, s). (Some e, s)) (startCapture n os s)) a
      else Some (None, a))"

definition nativeStopCapture :: "app \<Rightarrow> app option" where
  "nativeStopCapture a =
     (if getCamera a \<noteq> 0 then map_option snd (on_object (getCamera a) (\<lambda>s. Some ((), stopCapture s)) a)
      else Some a)"

definition nativeReleaseCamera :: "app \<Rightarrow> app option" where
  "nativeReleaseCamera a =
     (if getCamera a \<noteq> 0 then do {
        (_, a') \<leftarrow> on_object (getCamera a) (\<lambda>s. Some ((), stopCapture s)) a;
        (_, a') \<leftarrow> on_object (getCamera a) (\<lambda>s. Some ((), Camera_delete s)) a';
        Some (setCamera 0 a')
      } else Some a)"

definition nativeSetPreview :: "os \<Rightarrow> nat \<Rightarrow> app \<Rightarrow> app option" where
  "nativeSetPreview os jsurface a =
     (if getCamera a \<noteq> 0
      then map_option snd (on_object (getCamera a) (\<lambda>s. map_option (Pair ()) (setPreviewSurface os jsurface s)) a)
      else Some a)"

definition nativeAddEncoder :: "os \<Rightarrow> nat \<Rightarrow> app \<Rightarrow> app option" where
  "nativeAddEncoder os jsurface a =
     (if getCamera a \<noteq> 0
      then map_option snd (on_object (getCamera a) (\<lambda>s. map_option (Pair ()) (addEncoderSurface os jsurface s)) a)
      else Some a)"

definition nativeRemoveEncoder :: "os \<Rightarrow> nat \<Rightarrow> app \<Rightarrow> app option" where
  "nativeRemoveEncoder os jsurface a =
     (if getCamera a \<noteq> 0
      then map_option snd (on_object (getCamera a) (\<lambda>s. map_option (Pair ()) (removeEncoderSurface os jsurface s)) a)
      else Some a)"

subsection \<open>Loading the library\<close>

text \<open>The ids looked up once, and the environment's lookups by class, name and signature.\<close>

record class_info =
  clazz :: nat
  fid_mDevPath :: nat
  fid_mNativeObject :: nat
  mid_notifyFirstCapture :: nat
  mid_notifyCaptureStop :: nat
  mid_notifyCameraError :: nat

definition PACKAGE_PATH :: string where
  "PACKAGE_PATH = ''com/hongdian/usbcamera/''"

definition CLASS_NAME :: string where
  "CLASS_NAME = ''Camera''"

definition initNativeClassInfo ::
    "(string \<Rightarrow> nat) \<Rightarrow> (nat \<Rightarrow> string \<Rightarrow> string \<Rightarrow> nat) \<Rightarrow> (nat \<Rightarrow> string \<Rightarrow> string \<Rightarrow> nat) \<Rightarrow> class_info" where
  "initNativeClassInfo FindClass GetFieldID GetMethodID =
     (let c = FindClass (PACKAGE_PATH @ CLASS_NAME)
      in \<lparr>clazz = c,
          fid_mDevPath = GetFieldID c ''mDevPath'' ''Ljava/lang/String;'',
          fid_mNativeObject = GetFieldID c ''mNativeObject'' ''I'',
          mid_notifyFirstCapture = GetMethodID c ''notifyFirstCapture'' ''(J)V'',
          mid_notifyCaptureStop = GetMethodID c ''notifyCaptureStop'' ''()V'',
          mid_notifyCameraError = GetMethodID c ''notifyCameraError'' ''()V''\<rparr>)"

datatype native_fn = NativeAttachNative | NativeOpenCamera | NativeStartCapture | NativeStopCapture
  | NativeReleaseCamera | NativeSetPreview | NativeAddEncoder | NativeRemoveEncoder

definition gMethods :: "(string \<times> string \<times> native_fn) list" where
  "gMethods =
     [(''attachNative'', ''(II)V'', NativeAttachNative),
      (''openCamera'', ''()I'', NativeOpenCamera),
      (''startCapture'', ''()V'', NativeStartCapture),
      (''stopCapture'', ''()V'', NativeStopCapture),
      (''releaseCamera'', ''()V'', NativeReleaseCamera),
      (''setPreview'', ''(Landroid/view/Surface;)V'', NativeSetPreview),
      (''addEncoder'', ''(Landroid/view/Surface;)V'', NativeAddEncoder),
      (''removeEncoder'', ''(Landroid/view/Surface;)V'', NativeRemoveEncoder)]"

definition JNI_VERSION_1_4 :: int where
  "JNI_VERSION_1_4 = 0x00010004"

definition JNI_OK :: int where
  "JNI_OK = 0"

text \<open>The result, the ids, and whether the methods were handed to the runtime. \<open>NELEM\<close> is the
  length of the table.\<close>

definition JNI_OnLoad ::
    "(int \<Rightarrow> int) \<Rightarrow> class_info \<Rightarrow> (string \<Rightarrow> (string \<times> string \<times> native_fn) list \<Rightarrow> int \<Rightarrow> int)
     \<Rightarrow> int \<times> class_info option" where
  "JNI_OnLoad GetEnv info registerNativeMethods =
     (if GetEnv JNI_VERSION_1_4 \<noteq> JNI_OK then (- 1, None)
      else if registerNativeMethods (PACKAGE_PATH @ CLASS_NAME) gMethods (int (length gMethods)) \<noteq> 0
      then (- 1, Some info)
      else (JNI_VERSION_1_4, Some info))"

subsection \<open>Addresses in the int field\<close>

lemma getCamera_setCamera [simp]: "getCamera (setCamera p a) = p"
  by (simp add: getCamera_def setCamera_def)

lemma setCamera_fields [simp]: "objects (setCamera p a) = objects a" "jLog (setCamera p a) = jLog a"
  "jDevPath (setCamera p a) = jDevPath a"
  by (simp_all add: setCamera_def)

subsection \<open>The life of the native object\<close>

text \<open>The Java calls of one thread, in any order.\<close>

datatype java_call = JAttach int int | JOpen | JStart nat | JStop | JRelease | JSetPreview nat
  | JAddEncoder nat | JRemoveEncoder nat

fun java_exec :: "jni_env \<Rightarrow> os \<Rightarrow> java_call \<Rightarrow> app \<Rightarrow> app option" where
  "java_exec env os (JAttach w h) a = nativeAttachNative env w h a"
| "java_exec env os JOpen a = map_option snd (nativeOpenCamera os a)"
| "java_exec env os (JStart n) a = map_option snd (nativeStartCapture n os a)"
| "java_exec env os JStop a = nativeStopCapture a"
| "java_exec env os JRelease a = nativeReleaseCamera a"
| "java_exec env os (JSetPreview j) a = nativeSetPreview os j a"
| "java_exec env os (JAddEncoder j) a = nativeAddEncoder os j a"
| "java_exec env os (JRemoveEncoder j) a = nativeRemoveEncoder os j a"

text \<open>\<open>new\<close> returns a fresh non-null address.\<close>

definition fresh_new :: "jni_env \<Rightarrow> bool" where
  "fresh_new env \<longleftrightarrow> (\<forall>h. (\<exists>p. p \<noteq> 0 \<and> h p = None) \<longrightarrow> je_new env h \<noteq> 0 \<and> h (je_new env h) = None)"

inductive java_reach :: "jni_env \<Rightarrow> os \<Rightarrow> string option \<Rightarrow> app \<Rightarrow> bool" for env os path where
  start: "java_reach env os path \<lparr>jDevPath = path, jNativeObject = 0, objects = (\<lambda>_. None), jLog = []\<rparr>"
| step: "java_reach env os path a \<Longrightarrow> java_exec env os call a = Some a' \<Longrightarrow> java_reach env os path a'"

text \<open>The camera is unlocked and is the only native object, or there is none and the field is null.\<close>

definition app_inv :: "app \<Rightarrow> bool" where
  "app_inv a \<longleftrightarrow> dom (objects a) = (if getCamera a = 0 then {} else {getCamera a}) \<and>
     (case objects a (getCamera a) of None \<Rightarrow> True | Some c \<Rightarrow> \<not> mPreviewLock c \<and> \<not> mEncoderLock c)"


lemma for_loop_alive:
  assumes "for_loop 0 n f u = Some u'" "\<And>i u u'. f i u = Some u' \<Longrightarrow> alive (snd u') = alive (snd u)"
  shows "alive (snd u') = alive (snd u)"
proof (cases "0 \<le> n")
  case True
  show ?thesis
  proof (rule for_loop_partial [where I = "\<lambda>_ v. alive (snd v) = alive (snd u)", OF assms(1) True])
    show "alive (snd v') = alive (snd u)" if "alive (snd v) = alive (snd u)" "f i v = Some v'" for i v v'
      using assms(2) [OF that(2)] that(1) by simp
  qed simp
qed (use assms(1) in simp)

lemma map_buffer_alive: "map_buffer os i u = Some u' \<Longrightarrow> alive (snd u') = alive (snd u)"
  by (auto simp: map_buffer_def sys_call_defs Option.bind_eq_Some_conv split: if_splits)

lemma queue_buffer_alive: "queue_buffer os i u = Some u' \<Longrightarrow> alive (snd u') = alive (snd u)"
  by (auto simp: queue_buffer_def sys_call_defs split: if_splits)

lemma open_setup_alive:
  assumes "open_setup os s = Some (ok, s')"
  shows "alive s' = alive s"
proof -
  obtain ok1 n s1 where s1: "open_config os s = (ok1, n, s1)" by (cases "open_config os s") auto
  have c1: "alive s1 = alive s"
    using s1 by (auto simp: open_config_def sys_call_defs split: if_splits)
  show ?thesis
  proof (cases ok1)
    case False
    then show ?thesis using assms s1 c1 by (simp add: open_setup_def)
  next
    case True
    then obtain ok2 s2 where s2: "for_loop 0 n (map_buffer os) (True, s1) = Some (ok2, s2)"
      using assms s1 by (auto simp: open_setup_def Option.bind_eq_Some_conv)
    have c2: "alive s2 = alive s1" using for_loop_alive [OF s2 map_buffer_alive] by simp
    show ?thesis
    proof (cases ok2)
      case False
      then show ?thesis using assms s1 s2 c1 c2 True by (simp add: open_setup_def)
    next
      case ok2: True
      obtain ok3 s3 where s3: "for_loop 0 BUFFER_NR (queue_buffer os) (True, s2) = Some (ok3, s3)"
        using assms s1 s2 True ok2 by (auto simp: open_setup_def Option.bind_eq_Some_conv)
      have c3: "alive s3 = alive s2" using for_loop_alive [OF s3 queue_buffer_alive] by simp
      have "alive s' = alive s3"
        using assms s1 s2 s3 True ok2 by (auto simp: open_setup_def sys_ioctl_def Let_def split: if_splits)
      then show ?thesis using c1 c2 c3 by simp
    qed
  qed
qed

lemma openCamera_settled:
  assumes "openCamera os s = Some (r, s')" "settled s"
  shows "settled s'"
proof -
  have keep: "settled t'" if "open_setup os t = Some (ok, t')" "settled t" for ok t t'
    using open_setup_ok [OF that(1)] open_setup_alive [OF that(1)] that(2) open_frame_fields [of "cam t" "cam t'"]
    by (simp add: settled_def unlocked_def)
  let ?s0 = "upd (mFD_update (\<lambda>_. os_open os (trace s) (mCameraDevPath (cam s))))
      (emit (EvOpen (mCameraDevPath (cam s)) (os_open os (trace s) (mCameraDevPath (cam s)))) s)"
  have s0: "settled ?s0" using assms(2) by (simp add: settled_def unlocked_def)
  from openCamera_cases [OF assms(1)] show ?thesis
  proof (elim disjE conjE exE)
    assume "s' = ?s0" then show ?thesis using s0 by simp
  next
    assume "open_setup os ?s0 = Some (True, s')" then show ?thesis using keep s0 by blast
  next
    fix s1 assume *: "open_setup os ?s0 = Some (False, s1)"
      and s': "s' = upd (mFD_update (\<lambda>_. - 1)) (emit (EvClose (os_open os (trace s) (mCameraDevPath (cam s)))) s1)"
    show ?thesis using keep [OF * s0] by (simp add: s' settled_def unlocked_def)
  qed
qed

lemma startCapture_settled:
  assumes "startCapture n os s = Some (e, s')" "settled s"
  shows "settled s'"
proof (cases "mFD (cam s) < 0")
  case False
  then obtain x s1 where l: "capture_loop n os True (upd (mPeekRun_update (\<lambda>_. True)) s) = Some (x, s1)"
    using assms(1) by (auto simp: startCapture_def Option.bind_eq_Some_conv)
  have "settled (upd (mPeekRun_update (\<lambda>_. True)) s)" using assms(2) by (simp add: settled_def unlocked_def)
  from capture_loop_log [OF l this] assms(1) l False show ?thesis
    by (cases x) (auto simp: startCapture_def settled_def unlocked_def sys_close_def)
qed (use assms in \<open>simp add: startCapture_def\<close>)

lemma app_inv_object:
  assumes "app_inv a" "getCamera a \<noteq> 0"
  shows "\<exists>c. objects a = [getCamera a \<mapsto> c] \<and> \<not> mPreviewLock c \<and> \<not> mEncoderLock c"
proof -
  have d: "dom (objects a) = {getCamera a}" using assms by (simp add: app_inv_def)
  then obtain c where c: "objects a (getCamera a) = Some c" by auto
  have "objects a = [getCamera a \<mapsto> c]"
  proof
    show "objects a p = [getCamera a \<mapsto> c] p" for p using d c by (cases "p = getCamera a") (auto simp: dom_def)
  qed
  moreover have "\<not> mPreviewLock c \<and> \<not> mEncoderLock c" using assms(1) c by (simp add: app_inv_def)
  ultimately show ?thesis by blast
qed

lemma on_object_inv:
  assumes "on_object (getCamera a) f a = Some (r, a')" "app_inv a" "getCamera a \<noteq> 0"
    and keep: "\<And>s r s'. settled s \<Longrightarrow> f s = Some (r, s') \<Longrightarrow> settled s'"
  shows "app_inv a' \<and> jNativeObject a' = jNativeObject a"
proof -
  obtain c where c: "objects a = [getCamera a \<mapsto> c]" "\<not> mPreviewLock c" "\<not> mEncoderLock c"
    using app_inv_object [OF assms(2,3)] by blast
  let ?s = "\<lparr>cam = c, alive = True, trace = jLog a\<rparr>"
  obtain s' where s': "f ?s = Some (r, s')" and a': "a' = a\<lparr>objects := (objects a)(getCamera a := if alive s' then Some (cam s') else None), jLog := trace s'\<rparr>"
    using assms(1) c(1) by (auto simp: on_object_def Option.bind_eq_Some_conv)
  have "settled ?s" using c by (simp add: settled_def unlocked_def)
  from keep [OF this s'] show ?thesis using c(1) assms(3)
    by (auto simp: a' app_inv_def getCamera_def settled_def unlocked_def)
qed

lemma surface_ops_settled:
  assumes "settled s"
  shows "setPreviewSurface os j s = Some s' \<Longrightarrow> settled s'" "addEncoderSurface os j s = Some s' \<Longrightarrow> settled s'"
    "removeEncoderSurface os j s = Some s' \<Longrightarrow> settled s'"
  using assms surface_ops_keep keeps_settled by (metis settled_def)+

lemma surface_ops_defined:
  assumes "settled s"
  shows "\<exists>s'. setPreviewSurface os j s = Some s'" "\<exists>s'. addEncoderSurface os j s = Some s'"
    "\<exists>s'. removeEncoderSurface os j s = Some s'"
  using assms by (simp_all add: setPreviewSurface_def addEncoderSurface_def removeEncoderSurface_def Let_def
      lock_defs settled_def unlocked_def)

lemma on_object_defined:
  assumes "app_inv a" "getCamera a \<noteq> 0" "\<And>s. settled s \<Longrightarrow> \<exists>r s'. f s = Some (r, s')"
  shows "\<exists>r a'. on_object (getCamera a) f a = Some (r, a')"
proof -
  obtain c where c: "objects a = [getCamera a \<mapsto> c]" "\<not> mPreviewLock c" "\<not> mEncoderLock c"
    using app_inv_object [OF assms(1,2)] by blast
  have "settled \<lparr>cam = c, alive = True, trace = jLog a\<rparr>" using c by (simp add: settled_def unlocked_def)
  from assms(3) [OF this] show ?thesis using c(1) by (auto simp: on_object_def)
qed

lemma nativeReleaseCamera_eq:
  assumes "objects a = [getCamera a \<mapsto> c]" "getCamera a \<noteq> 0"
  shows "nativeReleaseCamera a = Some (setCamera 0 (a\<lparr>objects := (\<lambda>_. None),
    jLog := jLog a @ (if mFD c > 0 then [EvClose (mFD c)] else [])\<rparr>))"
  using assms
  by (auto simp: nativeReleaseCamera_def on_object_def stopCapture_def Camera_delete_def Let_def fun_eq_iff setCamera_def)

lemma java_exec_inv:
  assumes "java_exec env os call a = Some a'" "app_inv a" "fresh_new env"
  shows "app_inv a'"
proof (cases "getCamera a = 0")
  case True
  show ?thesis
  proof (cases call)
    case (JAttach w h)
    have d: "dom (objects a) = {}" using assms(2) True by (simp add: app_inv_def)
    have "(1 :: ptr32) \<noteq> 0" "objects a 1 = None" using d by auto
    then have "je_new env (objects a) \<noteq> 0" using assms(3) unfolding fresh_new_def by blast
    then show ?thesis using assms(1,2) True JAttach d
      by (auto simp: nativeAttachNative_def Let_def app_inv_def Camera_new_def Option.bind_eq_Some_conv split: if_splits)
  qed (use assms True in \<open>auto simp: nativeOpenCamera_def nativeStartCapture_def nativeStopCapture_def
      nativeReleaseCamera_def nativeSetPreview_def nativeAddEncoder_def nativeRemoveEncoder_def\<close>)
next
  case False
  note inv = on_object_inv [OF _ assms(2) False]
  show ?thesis
  proof (cases call)
    case JOpen
    then obtain r b where "on_object (getCamera a) (openCamera os) a = Some (r, b)" "a' = b"
      using assms(1) False by (auto simp: nativeOpenCamera_def Option.bind_eq_Some_conv)
    then show ?thesis using inv [of "openCamera os"] openCamera_settled by blast
  next
    case (JStart n)
    then obtain r where "on_object (getCamera a) (\<lambda>s. map_option (\<lambda>(e, s). (Some e, s)) (startCapture n os s)) a = Some (r, a')"
      using assms(1) False by (auto simp: nativeStartCapture_def)
    from inv [OF this] startCapture_settled show ?thesis by fastforce
  next
    case JStop
    then obtain r where r: "on_object (getCamera a) (\<lambda>s. Some ((), stopCapture s)) a = Some (r, a')"
      using assms(1) False by (auto simp: nativeStopCapture_def)
    have "settled s'" if "settled s" "Some ((), stopCapture s) = Some (q, s')" for s and q :: unit and s'
      using that by (auto simp: stopCapture_def settled_def unlocked_def)
    from inv [OF r this] show ?thesis by simp
  next
    case JRelease
    obtain c where "objects a = [getCamera a \<mapsto> c]" using app_inv_object [OF assms(2) False] by blast
    from nativeReleaseCamera_eq [OF this False] JRelease assms(1) show ?thesis by (auto simp: app_inv_def)
  next
    case (JSetPreview j)
    then obtain r where "on_object (getCamera a) (\<lambda>s. map_option (Pair ()) (setPreviewSurface os j s)) a = Some (r, a')"
      using assms(1) False by (auto simp: nativeSetPreview_def)
    from inv [OF this] surface_ops_settled(1) show ?thesis by fastforce
  next
    case (JAddEncoder j)
    then obtain r where "on_object (getCamera a) (\<lambda>s. map_option (Pair ()) (addEncoderSurface os j s)) a = Some (r, a')"
      using assms(1) False by (auto simp: nativeAddEncoder_def)
    from inv [OF this] surface_ops_settled(2) show ?thesis by fastforce
  next
    case (JRemoveEncoder j)
    then obtain r where "on_object (getCamera a) (\<lambda>s. map_option (Pair ()) (removeEncoderSurface os j s)) a = Some (r, a')"
      using assms(1) False by (auto simp: nativeRemoveEncoder_def)
    from inv [OF this] surface_ops_settled(3) show ?thesis by fastforce
  qed (use assms False in \<open>auto simp: nativeAttachNative_def\<close>)
qed

lemma java_reach_inv: "java_reach env os path a \<Longrightarrow> fresh_new env \<Longrightarrow> app_inv a"
proof (induction rule: java_reach.induct)
  case start
  show ?case by (simp add: app_inv_def getCamera_def)
qed (use java_exec_inv in blast)


lemma nativeOpenCamera_zero:
  assumes "objects a = [getCamera a \<mapsto> c]" "getCamera a \<noteq> 0" "driver_grants os n" "0 \<le> n"
    "n \<le> int (length (mBufferArray c))" "\<And>tr p. os_open os tr p = 0"
  shows "\<exists>a' c'. nativeOpenCamera os a = Some (- 1, a') \<and> objects a' = [getCamera a' \<mapsto> c'] \<and> getCamera a' = getCamera a \<and>
    mFD c' = 0 \<and> closes (jLog a') = closes (jLog a)"
proof -
  let ?s = "\<lparr>cam = c, alive = True, trace = jLog a\<rparr>"
  have z: "0 \<le> os_open os (trace ?s) (mCameraDevPath (cam ?s))" by (simp add: assms(6))
  obtain s' where s': "openCamera os ?s = Some (0, s')"
    using openCamera_grants [OF assms(3,4) _ z] assms(5,6) by auto
  let ?s0 = "upd (mFD_update (\<lambda>_. 0)) (emit (EvOpen (mCameraDevPath c) 0) ?s)"
  have o: "open_setup os ?s0 = Some (True, s')"
    using openCamera_cases [OF s'] by (auto simp: assms(6))
  have f: "mFD (cam s') = 0" "closes (trace s') = closes (jLog a)" "alive s'"
    using open_setup_ok [OF o] open_setup_closes [OF o] open_setup_alive [OF o] by simp_all
  then show ?thesis using s' assms(1,2)
    by (auto simp: nativeOpenCamera_def on_object_def getCamera_def intro!: exI [of _ "cam s'"])
qed

lemma native_calls_defined:
  assumes inv: "app_inv a"
  shows "nativeStopCapture a \<noteq> None \<and> nativeReleaseCamera a \<noteq> None \<and> nativeSetPreview os j a \<noteq> None \<and>
    nativeAddEncoder os j a \<noteq> None \<and> nativeRemoveEncoder os j a \<noteq> None"
proof (cases "getCamera a = 0")
  case True
  then show ?thesis by (simp add: nativeStopCapture_def nativeReleaseCamera_def nativeSetPreview_def
      nativeAddEncoder_def nativeRemoveEncoder_def)
next
  case False
  note def = on_object_defined [OF inv False]
  obtain c where c: "objects a = [getCamera a \<mapsto> c]" using app_inv_object [OF inv False] by blast
  have "nativeStopCapture a \<noteq> None" using c False by (simp add: nativeStopCapture_def on_object_def)
  moreover have "nativeReleaseCamera a \<noteq> None" using nativeReleaseCamera_eq [OF c False] by simp
  moreover have "nativeSetPreview os j a \<noteq> None"
    using def [of "\<lambda>s. map_option (Pair ()) (setPreviewSurface os j s)"] surface_ops_defined(1) False
    by (fastforce simp: nativeSetPreview_def)
  moreover have "nativeAddEncoder os j a \<noteq> None"
    using def [of "\<lambda>s. map_option (Pair ()) (addEncoderSurface os j s)"] surface_ops_defined(2) False
    by (fastforce simp: nativeAddEncoder_def)
  moreover have "nativeRemoveEncoder os j a \<noteq> None"
    using def [of "\<lambda>s. map_option (Pair ()) (removeEncoderSurface os j s)"] surface_ops_defined(3) False
    by (fastforce simp: nativeRemoveEncoder_def)
  ultimately show ?thesis by simp
qed

subsection \<open>Properties\<close>

text \<open>The state after \<open>attachNative\<close>, for the witnesses: \<open>new\<close> takes address 4096.\<close>

definition addresses :: "ptr32 list" where
  "addresses = map word_of_int [1..2 ^ 32 - 1]"

definition demo_jni :: jni_env where
  "demo_jni = \<lparr>je_GetStringUTFChars = (\<lambda>_ s. Some s),
     je_new = (\<lambda>h. case find (\<lambda>p. h p = None) (4096 # addresses) of Some p \<Rightarrow> p | None \<Rightarrow> 0)\<rparr>"

lemma addresses_set: "set addresses = UNIV - {0}"
proof
  have "word_of_int i \<noteq> (0 :: ptr32)" if "1 \<le> i" "i \<le> 2 ^ 32 - 1" for i
  proof
    assume "word_of_int i = (0 :: ptr32)"
    then have "uint (word_of_int i :: ptr32) = 0" by simp
    then have "i mod 2 ^ 32 = 0" by (simp add: uint_word_of_int)
    then show False using that by simp
  qed
  then show "set addresses \<subseteq> UNIV - {0}" by (auto simp: addresses_def)
next
  show "UNIV - {0} \<subseteq> set addresses"
  proof
    fix p :: ptr32 assume "p \<in> UNIV - {0}"
    then have "uint p \<noteq> 0" by (simp add: uint_0_iff)
    moreover have "0 \<le> uint p" "uint p < 2 ^ 32" using uint_lt2p [of p] by simp_all
    ultimately have "1 \<le> uint p" "uint p \<le> 2 ^ 32 - 1" by linarith+
    then have "word_of_int (uint p) \<in> set addresses" unfolding addresses_def set_map set_upto by (intro imageI) simp
    then show "p \<in> set addresses" by simp
  qed
qed

lemma demo_fresh: "fresh_new demo_jni"
  unfolding fresh_new_def
proof (intro allI impI)
  fix h :: "ptr32 \<Rightarrow> Camera option" assume h: "\<exists>p. p \<noteq> 0 \<and> h p = None"
  then have "find (\<lambda>p. h p = None) (4096 # addresses) \<noteq> None"
    unfolding find_None_iff using addresses_set by auto
  then obtain p where p: "find (\<lambda>p. h p = None) (4096 # addresses) = Some p" by blast
  then have "p \<in> set (4096 # addresses)" "h p = None" unfolding find_Some_iff by (metis nth_mem)+
  moreover have "je_new demo_jni h = p"
    unfolding demo_jni_def jni_env.select_convs p by (rule option.case(2))
  moreover have "set (4096 # addresses) = UNIV - {0}" unfolding list.set(2) addresses_set by (simp add: insert_absorb)
  ultimately show "je_new demo_jni h \<noteq> 0 \<and> h (je_new demo_jni h) = None" by (metis Diff_iff singletonI)
qed

definition demo_app :: app where
  "demo_app = \<lparr>jDevPath = Some ''/dev/video0'', jNativeObject = 4096,
     objects = [4096 \<mapsto> Camera_new (Some ''/dev/video0'') 2 2], jLog = []\<rparr>"

lemma demo_reach:
  "java_reach demo_jni os (Some ''/dev/video0'') demo_app"
proof -
  let ?a = "\<lparr>jDevPath = Some ''/dev/video0'', jNativeObject = 0, objects = (\<lambda>_. None), jLog = []\<rparr>"
  have "java_exec demo_jni os (JAttach 2 2) ?a = Some demo_app"
    by (simp add: nativeAttachNative_def getDevicePath_def demo_jni_def demo_app_def getCamera_def setCamera_def)
  from java_reach.step [OF java_reach.start this] show ?thesis .
qed

text \<open>C9: after any sequence of calls by one thread the int field is null and no native camera exists, or
  it holds the address of the only native camera, which is unlocked: there is no leak, no dangling
  address and no second object.\<close>

theorem jni_single_object:
  assumes "java_reach env os path a" and "fresh_new env"
  shows "dom (objects a) = (if getCamera a = 0 then {} else {getCamera a}) \<and>
    (\<forall>c. objects a (getCamera a) = Some c \<longrightarrow> \<not> mPreviewLock c \<and> \<not> mEncoderLock c)"
  using java_reach_inv [OF assms] by (auto simp: app_inv_def)

theorem jni_single_object_witness:
  "dom (objects demo_app) = (if getCamera demo_app = 0 then {} else {getCamera demo_app})"
  using jni_single_object [OF demo_reach [of "easy_os 3 4 []"] demo_fresh] by blast

text \<open>C16: in such a state no call that stops, releases, sets a preview, adds or removes an encoder can
  fault or block, whether a native object exists or not.\<close>

theorem jni_calls_defined:
  assumes "java_reach env os path a" and "fresh_new env"
  shows "nativeStopCapture a \<noteq> None \<and> nativeReleaseCamera a \<noteq> None \<and> nativeSetPreview os j a \<noteq> None \<and>
    nativeAddEncoder os j a \<noteq> None \<and> nativeRemoveEncoder os j a \<noteq> None"
  by (rule native_calls_defined [OF java_reach_inv [OF assms]])

theorem jni_calls_defined_witness:
  "nativeStopCapture demo_app \<noteq> None \<and> nativeReleaseCamera demo_app \<noteq> None \<and>
   nativeSetPreview (easy_os 3 4 []) 7 demo_app \<noteq> None"
  using jni_calls_defined [OF demo_reach demo_fresh] by blast

text \<open>Releasing deletes the native object, nulls the int field and closes a descriptor greater than
  0; every later call except a new attach does nothing, and opening reports failure.\<close>

lemma jni_release:
  assumes "objects a = [getCamera a \<mapsto> c]" and "getCamera a \<noteq> 0"
  shows "\<exists>a'. nativeReleaseCamera a = Some a' \<and> getCamera a' = 0 \<and> objects a' = (\<lambda>_. None) \<and>
    closes (jLog a') = closes (jLog a) @ (if mFD c > 0 then [mFD c] else []) \<and>
    nativeReleaseCamera a' = Some a' \<and> nativeOpenCamera os a' = Some (- 1, a') \<and>
    nativeStartCapture n os a' = Some (None, a') \<and> nativeStopCapture a' = Some a' \<and>
    nativeSetPreview os j a' = Some a' \<and> nativeAddEncoder os j a' = Some a' \<and> nativeRemoveEncoder os j a' = Some a'"
  by (simp add: nativeReleaseCamera_eq [OF assms])
    (simp add: nativeReleaseCamera_def nativeOpenCamera_def nativeStartCapture_def
      nativeStopCapture_def nativeSetPreview_def nativeAddEncoder_def nativeRemoveEncoder_def)

theorem jni_release_witness:
  "\<exists>a'. nativeReleaseCamera demo_app = Some a' \<and> getCamera a' = 0 \<and> nativeReleaseCamera a' = Some a'"
proof -
  have "objects demo_app = [getCamera demo_app \<mapsto> Camera_new (Some ''/dev/video0'') 2 2]" "getCamera demo_app \<noteq> 0"
    by (simp_all add: demo_app_def getCamera_def)
  from jni_release [OF this] show ?thesis by blast
qed

text \<open>When \<open>open\<close> returns descriptor 0, the camera is opened but \<open>openCamera\<close> reports failure to
  Java, and releasing the camera does not close the descriptor.\<close>

lemma jni_fd_zero:
  assumes "objects a = [getCamera a \<mapsto> c]" and "getCamera a \<noteq> 0" and "driver_grants os n" and "0 \<le> n"
    and "n \<le> int (length (mBufferArray c))" and "\<And>tr p. os_open os tr p = 0"
  shows "\<exists>a' a''. nativeOpenCamera os a = Some (- 1, a') \<and> nativeReleaseCamera a' = Some a'' \<and>
    closes (jLog a'') = closes (jLog a)"
proof -
  obtain a' c' where a': "nativeOpenCamera os a = Some (- 1, a')" "objects a' = [getCamera a' \<mapsto> c']"
      "getCamera a' = getCamera a" "mFD c' = 0" "closes (jLog a') = closes (jLog a)"
    using nativeOpenCamera_zero [OF assms] by blast
  then show ?thesis using nativeReleaseCamera_eq [OF a'(2)] assms(2) by simp
qed

theorem jni_fd_zero_witness:
  "\<exists>a' a''. nativeOpenCamera (easy_os 0 4 []) demo_app = Some (- 1, a') \<and> nativeReleaseCamera a' = Some a'' \<and>
     closes (jLog a'') = []"
proof -
  have "objects demo_app = [getCamera demo_app \<mapsto> Camera_new (Some ''/dev/video0'') 2 2]" "getCamera demo_app \<noteq> 0"
    by (simp_all add: demo_app_def getCamera_def)
  from jni_fd_zero [OF this easy_os_grants, of 4 0 "[]"] show ?thesis
    by (simp add: Camera_new_def BUFFER_NR_def easy_os_def demo_app_def)
qed

text \<open>The library loads exactly when the runtime offers JNI 1.4 and accepts the method table, which it
  gets once, for the Java class, with its full length; the names in the table are distinct.\<close>

lemma JNI_OnLoad_result:
  "(fst (JNI_OnLoad GetEnv info register) = JNI_VERSION_1_4 \<longleftrightarrow>
     GetEnv JNI_VERSION_1_4 = JNI_OK \<and> register ''com/hongdian/usbcamera/Camera'' gMethods 8 = 0) \<and>
   distinct (map fst gMethods)"
  by (auto simp: JNI_OnLoad_def JNI_VERSION_1_4_def PACKAGE_PATH_def CLASS_NAME_def gMethods_def)

end
