(* ===== verification/Java_Client.thy ===== *)
theory Java_Client
  imports Camera_Jni
begin

text \<open>
  The Java half of the camera (\<open>Camera.java\<close>): the list of clients behind \<open>mClientLock\<close>, the
  native calls made while it is held, and the notifications. A \<open>LinkedList\<close> is removed from by
  reference, here the identity \<open>cid\<close>; its iterator stops when the next index reaches the size
  and throws if the list was changed behind it. \<open>getSurface\<close> may return another surface every
  time it is called. A fault of the native code is None.
\<close>

record client =
  cid :: nat
  isEncoder :: bool
  getSurface :: "nat \<Rightarrow> nat"

record java_camera =
  mClients :: "client list"
  mClientLock :: bool
  surfaceCalls :: nat
  native :: app

datatype 'a java_result = Returned 'a | Thrown 'a

definition client_remove :: "client \<Rightarrow> client list \<Rightarrow> client list" where
  "client_remove c cs = (case find (\<lambda>d. cid d = cid c) cs of None \<Rightarrow> cs | Some d \<Rightarrow> remove1 d cs)"

definition addClient :: "os \<Rightarrow> client \<Rightarrow> java_camera \<Rightarrow> java_camera option" where
  "addClient os c j = (let surface = getSurface c (surfaceCalls j) in do {
     n \<leftarrow> (if isEncoder c then nativeAddEncoder os surface (native j) else nativeSetPreview os surface (native j));
     Some (j\<lparr>mClients := mClients j @ [c], surfaceCalls := surfaceCalls j + 1, native := n\<rparr>)
   })"

definition removeClient :: "os \<Rightarrow> client \<Rightarrow> java_camera \<Rightarrow> java_camera option" where
  "removeClient os c j =
     (if isEncoder c then let surface = getSurface c (surfaceCalls j) in do {
        n \<leftarrow> nativeRemoveEncoder os surface (native j);
        Some (j\<lparr>mClients := client_remove c (mClients j), surfaceCalls := surfaceCalls j + 1, native := n\<rparr>)
      } else do {
        n \<leftarrow> nativeSetPreview os 0 (native j);
        Some (j\<lparr>mClients := client_remove c (mClients j), native := n\<rparr>)
      })"

text \<open>The three notifications visit the clients in order; what a client does is its own.\<close>

datatype notification = OnFirstCapture int | OnCaptureStop | OnCameraError

definition notifyFirstCapture :: "int \<Rightarrow> java_camera \<Rightarrow> (nat \<times> notification) list" where
  "notifyFirstCapture timestampUS j = map (\<lambda>c. (cid c, OnFirstCapture timestampUS)) (mClients j)"

definition notifyCaptureStop :: "java_camera \<Rightarrow> (nat \<times> notification) list" where
  "notifyCaptureStop j = map (\<lambda>c. (cid c, OnCaptureStop)) (mClients j)"

definition notifyCameraError :: "java_camera \<Rightarrow> (nat \<times> notification) list" where
  "notifyCameraError j = map (\<lambda>c. (cid c, OnCameraError)) (mClients j)"

text \<open>
  The loop of \<open>release\<close>: the list, the iterator's next index, and whether the list was changed
  since the iterator was made. False is the ConcurrentModificationException.
\<close>

function release_loop :: "client list \<Rightarrow> nat \<Rightarrow> bool \<Rightarrow> bool \<times> client list" where
  "release_loop cs nextIndex modified =
     (if nextIndex < length cs then
        if modified then (False, cs)
        else release_loop (client_remove (cs ! nextIndex) cs) (nextIndex + 1) True
      else (True, cs))"
  by pat_completeness auto
termination
  by (relation "measure (\<lambda>(cs, i, m). if m then 0 else 1)") auto

declare release_loop.simps [simp del]

definition release :: "java_camera \<Rightarrow> java_camera java_result option" where
  "release j = (let (ok, cs) = release_loop (mClients j) 0 False in
     if \<not> ok then Some (Thrown (j\<lparr>mClients := cs, mClientLock := True\<rparr>))
     else do {
       n \<leftarrow> nativeReleaseCamera (native j);
       Some (Returned (j\<lparr>mClients := cs, native := n\<rparr>))
     })"

definition java_start :: "os \<Rightarrow> java_camera \<Rightarrow> (int \<times> bool \<times> java_camera) option" where
  "java_start os j = do {
     (rc, n) \<leftarrow> nativeOpenCamera os (native j);
     Some (rc, rc = 0, j\<lparr>native := n\<rparr>)
   }"

text \<open>The native methods declared in Java, and the private methods called from C++, as JNI
  signatures.\<close>

definition java_natives :: "(string \<times> string) list" where
  "java_natives =
     [(''attachNative'', ''(II)V''), (''openCamera'', ''()I''), (''startCapture'', ''()V''),
      (''stopCapture'', ''()V''), (''releaseCamera'', ''()V''),
      (''setPreview'', ''(Landroid/view/Surface;)V''), (''addEncoder'', ''(Landroid/view/Surface;)V''),
      (''removeEncoder'', ''(Landroid/view/Surface;)V'')]"

definition java_callbacks :: "(string \<times> string) list" where
  "java_callbacks =
     [(''notifyFirstCapture'', ''(J)V''), (''notifyCaptureStop'', ''()V''), (''notifyCameraError'', ''()V'')]"

subsection \<open>Lemmas\<close>

lemma client_remove_first [simp]: "client_remove c (c # cs) = cs"
  by (simp add: client_remove_def)

lemma release_loop_eq:
  "release_loop cs 0 False = (length cs < 3, drop 1 cs)"
  by (cases cs) (auto simp: release_loop.simps)

subsection \<open>Properties\<close>

text \<open>C40: \<open>release\<close> empties a list of one client, leaves the second of two, and with three or more
  throws after removing the first: the client lock stays held and the native camera is not released.\<close>

theorem release_clients:
  "(if length (mClients j) < 3
    then release j = map_option (\<lambda>n. Returned (j\<lparr>mClients := drop 1 (mClients j), native := n\<rparr>)) (nativeReleaseCamera (native j))
    else release j = Some (Thrown (j\<lparr>mClients := drop 1 (mClients j), mClientLock := True\<rparr>)))"
  by (simp add: release_def release_loop_eq bind_Some_map)

text \<open>The method table registered by the library is exactly the list of native methods the Java class
  declares, name by name and signature by signature, and the class information looks up exactly
  the callbacks the class has.\<close>

lemma natives_match_java:
  "map (\<lambda>(name, sig, fn). (name, sig)) gMethods = java_natives \<and>
   (let info = initNativeClassInfo FindClass GetFieldID GetMethodID in
     [mid_notifyFirstCapture info, mid_notifyCaptureStop info, mid_notifyCameraError info] =
     map (\<lambda>(name, sig). GetMethodID (FindClass ''com/hongdian/usbcamera/Camera'') name sig) java_callbacks)"
  by (simp add: gMethods_def java_natives_def java_callbacks_def initNativeClassInfo_def PACKAGE_PATH_def CLASS_NAME_def Let_def)

text \<open>A client that makes a new surface for every call of \<open>getSurface\<close>, as the encoder of
  \<open>MainActivity\<close> does, is never removed from the native list: after adding and removing it, the
  surface it was added with is still drawn to.\<close>

lemma encoder_client_stays:
  assumes "addClient os c j = Some j1" and "removeClient os c j1 = Some j2" and "isEncoder c"
    and "objects (native j) = [getCamera (native j) \<mapsto> k]" and "getCamera (native j) \<noteq> 0"
    and "\<And>n. getSurface c n \<noteq> 0" and "\<And>n m. n \<noteq> m \<Longrightarrow> getSurface c n \<noteq> getSurface c m"
    and "\<And>tr n. os_getSurface os tr n = n" and "\<And>tr p. os_getIGraphicBufferProducer os tr p \<noteq> 0"
    and "\<not> mEncoderLock k"
  shows "\<exists>k'. objects (native j2) (getCamera (native j2)) = Some k' \<and>
    getSurface c (surfaceCalls j) \<in> set (mEncoderSurfaces k')"
proof -
  let ?s = "getSurface c (surfaceCalls j)"
  obtain k1 where k1: "native j1 = (native j)\<lparr>objects := [getCamera (native j) \<mapsto> k1]\<rparr>" "\<not> mEncoderLock k1"
      "?s \<in> set (mEncoderSurfaces k1)" "surfaceCalls j1 = surfaceCalls j + 1"
  proof -
    let ?k1 = "(mEncoderSurfaces_update (\<lambda>l. l @ [?s]) k)\<lparr>mEncoderLock := False\<rparr>"
    have "native j1 = (native j)\<lparr>objects := [getCamera (native j) \<mapsto> ?k1]\<rparr> \<and> surfaceCalls j1 = surfaceCalls j + 1"
      using assms(1) assms(3-6,8-10)
      by (auto simp: addClient_def nativeAddEncoder_def on_object_def addEncoderSurface_def Surface_isValid_def
          lock_defs Let_def)
    then show thesis using that [of ?k1] by simp
  qed
  have g: "getCamera ((native j)\<lparr>objects := h\<rparr>) = getCamera (native j)" for h by (simp add: getCamera_def)
  have ne: "getSurface c (surfaceCalls j) \<noteq> getSurface c (Suc (surfaceCalls j))" using assms(7) by simp
  let ?k2 = "(mEncoderSurfaces_update (filter (\<lambda>e. \<not> compare_ptr CmpEq e (getSurface c (surfaceCalls j1)))) k1)\<lparr>mEncoderLock := False\<rparr>"
  have n2: "nativeRemoveEncoder os (getSurface c (surfaceCalls j1)) (native j1) =
      Some ((native j)\<lparr>objects := [getCamera (native j) \<mapsto> ?k2]\<rparr>)"
    using assms(5,8,9) assms(6) [of "surfaceCalls j1"] k1(1,2)
    by (simp add: nativeRemoveEncoder_def on_object_def removeEncoderSurface_def Surface_isValid_def lock_defs Let_def g
        del: neq0_conv)
  have "native j2 = (native j)\<lparr>objects := [getCamera (native j) \<mapsto> ?k2]\<rparr>"
    using assms(2,3) n2 by (auto simp: removeClient_def Let_def)
  moreover have "?s \<in> set (mEncoderSurfaces ?k2)" using k1(3,4) ne by simp
  ultimately show ?thesis by (simp add: g)
qed

theorem encoder_client_stays_witness:
  "\<exists>j1 j2 k'. addClient (easy_os 3 4 []) \<lparr>cid = 1, isEncoder = True, getSurface = Suc\<rparr>
       \<lparr>mClients = [], mClientLock = False, surfaceCalls = 0, native = demo_app\<rparr> = Some j1 \<and>
     removeClient (easy_os 3 4 []) \<lparr>cid = 1, isEncoder = True, getSurface = Suc\<rparr> j1 = Some j2 \<and>
     objects (native j2) (getCamera (native j2)) = Some k' \<and> 1 \<in> set (mEncoderSurfaces k')"
  (is "\<exists>j1 j2 k'. addClient ?os ?c ?j = Some j1 \<and> _ j1 j2 k'")
proof -
  have o: "objects (native ?j) = [getCamera (native ?j) \<mapsto> Camera_new (Some ''/dev/video0'') 2 2]" "getCamera (native ?j) \<noteq> 0"
    by (simp_all add: demo_app_def getCamera_def)
  have "nativeAddEncoder ?os 1 demo_app \<noteq> None"
    using native_calls_defined [OF java_reach_inv [OF demo_reach demo_fresh]] by blast
  then obtain n where n: "nativeAddEncoder ?os 1 demo_app = Some n" by blast
  let ?j1 = "\<lparr>mClients = [?c], mClientLock = False, surfaceCalls = 1, native = n\<rparr>"
  obtain j1 where "j1 = ?j1" by simp
  then have j1: "addClient ?os ?c ?j = Some j1" "java_exec demo_jni ?os (JAddEncoder 1) demo_app = Some (native j1)"
      "surfaceCalls j1 = 1"
    using n by (simp_all add: addClient_def)
  have r: "java_reach demo_jni ?os (Some ''/dev/video0'') (native j1)" by (rule java_reach.step [OF demo_reach j1(2)])
  have "nativeRemoveEncoder ?os 2 (native j1) \<noteq> None"
    using native_calls_defined [OF java_reach_inv [OF r demo_fresh]] by blast
  then obtain j2 where j2: "removeClient ?os ?c j1 = Some j2" by (auto simp: removeClient_def j1(3) numeral_2_eq_2)
  have "os_getSurface ?os tr n = n" "os_getIGraphicBufferProducer ?os tr p \<noteq> 0" for tr n p by (simp_all add: easy_os_def)
  from encoder_client_stays [OF j1(1) j2 _ o _ _ this] j1(1) j2 show ?thesis
    by (fastforce simp: Camera_new_def)
qed

end
