(* ===== verification/Camera_Session.thy ===== *)
theory Camera_Session
  imports Camera_Jni
begin

text \<open>
  The whole life of a camera as the Java class drives it: attach, open, set the surfaces, capture until
  another thread stops, release. The lemmas follow the descriptor and the mapped buffers through the
  components, from \<open>openCamera\<close> to the capture thread to the destructor.
\<close>

subsection \<open>The descriptor during a capture\<close>

lemma closes_device: "closes (device tr) = closes tr"
proof (induction tr)
  case (Cons e tr)
  then show ?case by (cases e) (simp_all add: closes_def)
qed simp

lemma session_closes: "session fd f L x \<Longrightarrow> closes L = []"
  by (induction rule: session.induct) (auto simp: closes_def)

lemma startCapture_closes:
  assumes "startCapture n os s = Some (e, s')" "settled s" "0 \<le> mFD (cam s)"
  shows "closes (trace s') = closes (trace s) @ (if e = CameraError then [mFD (cam s)] else []) \<and>
    mFD (cam s') = (if e = CameraError then - 1 else mFD (cam s))"
proof -
  let ?s0 = "upd (mPeekRun_update (\<lambda>_. True)) s"
  obtain x s1 where l: "capture_loop n os True ?s0 = Some (x, s1)"
    using assms(1,3) by (auto simp: startCapture_def Option.bind_eq_Some_conv)
  have "settled ?s0" using assms(2) by (simp add: settled_def unlocked_def)
  note c = capture_loop_log [OF l this]
  then obtain L where L: "device (trace s1) = device (trace s) @ L" "session (mFD (cam s)) True L x" by auto
  have "closes (trace s1) = closes (trace s)"
    using arg_cong [OF L(1), of closes] session_closes [OF L(2)] by (simp add: closes_device)
  moreover have "mFD (cam s1) = mFD (cam s)" using c by (simp add: same_device_def)
  ultimately show ?thesis using assms(1,3) l
    by (cases x) (auto simp: startCapture_def sys_close_def closes_def)
qed

subsection \<open>The camera after opening\<close>

lemma open_setup_grants_mapped:
  assumes "driver_grants os n" "0 \<le> n" "n \<le> int (length (mBufferArray (cam s)))"
  shows "\<exists>s'. open_setup os s = Some (True, s') \<and> mapped_upto n (cam s')"
proof -
  obtain s1 where s1: "open_config os s = (True, n, s1)" "cam s1 = cam s" using open_config_grants [OF assms(1)] by blast
  obtain s2 where s2: "for_loop 0 n (map_buffer os) (True, s1) = Some (True, s2)"
    using map_buffers_grants [OF assms(1,2), of s1] assms(3) s1 by auto
  obtain s3 where s3: "for_loop 0 BUFFER_NR (queue_buffer os) (True, s2) = Some (True, s3)"
    using queue_buffers_grants [OF assms(1), of BUFFER_NR s2] by (auto simp: BUFFER_NR_def)
  have q: "\<not> os_streamon os tr fd < 0" for tr fd using assms(1) by (simp add: driver_grants_def not_less)
  have "cam s3 = cam s2" using queue_buffers_ok [OF s3] by (simp add: BUFFER_NR_def)
  then show ?thesis using s1 s2 s3 q map_buffers_ok [OF s2 assms(2)]
    by (simp add: open_setup_def sys_ioctl_def Let_def)
qed

lemma openCamera_good:
  assumes "driver_grants os 4" "\<And>tr q. os_open os tr q = fd" "0 \<le> fd"
    and s: "cam s = Camera_new p (2 * int a) (2 * int b)" "settled s"
  shows "\<exists>s'. openCamera os s = Some (fd, s') \<and> good_cam a b s' \<and> mFD (cam s') = fd \<and> closes (trace s') = closes (trace s)"
proof -
  let ?s0 = "upd (mFD_update (\<lambda>_. fd)) (emit (EvOpen (mCameraDevPath (cam s)) fd) s)"
  obtain s' where s': "open_setup os ?s0 = Some (True, s')" "mapped_upto 4 (cam s')"
    using open_setup_grants_mapped [OF assms(1), of ?s0] s(1) by (auto simp: Camera_new_def BUFFER_NR_def)
  note o = open_setup_ok [OF s'(1)]
  then have o1: "mFD (cam s') = fd" "open_frame (cam ?s0) (cam s')" "length (mBufferArray (cam s')) = 4"
    using s(1) by (simp_all add: Camera_new_def BUFFER_NR_def)
  have "openCamera os s = Some (fd, s')"
    using s'(1) assms(2,3) o1(1) by (simp add: openCamera_def sys_open_def Let_def)
  moreover have "settled s'" using openCamera_settled [OF calculation s(2)] .
  moreover have "None \<notin> set (mBufferArray (cam s'))"
    using s'(2) o1(3) by (fastforce simp: mapped_upto_def in_set_conv_nth)
  moreover have "mCurBufIndex (cam s') = 0"
    using o1(2) s(1) by (cases "cam s'") (simp add: open_frame_def Camera_new_def)
  ultimately show ?thesis using open_frame_fields [OF o1(2)] o1 s(1) open_setup_closes [OF s'(1)]
    by (simp add: good_cam_def arrays_ok_def Camera_new_def)
qed

lemma surface_ops_good:
  assumes "good_cam c b s"
  shows "\<exists>s'. setPreviewSurface os j s = Some s' \<and> good_cam c b s' \<and> mFD (cam s') = mFD (cam s) \<and> trace s' = trace s"
    and "\<exists>s'. addEncoderSurface os j s = Some s' \<and> good_cam c b s' \<and> mFD (cam s') = mFD (cam s) \<and> trace s' = trace s"
  using assms
  by (auto simp: good_cam_def settled_def unlocked_def arrays_ok_def setPreviewSurface_def addEncoderSurface_def
      lock_defs Surface_isValid_def Let_def split: option.splits)

subsection \<open>The calls on the only object\<close>

text \<open>The Java object holds the native camera of the system state \<open>s\<close>, and its log is the history.\<close>

definition app_holds :: "app \<Rightarrow> sys \<Rightarrow> bool" where
  "app_holds a s \<longleftrightarrow> objects a = [getCamera a \<mapsto> cam s] \<and> getCamera a \<noteq> 0 \<and> jLog a = trace s \<and> alive s"

lemma on_object_holds:
  assumes "app_holds a s" "f s = Some (r, s')" "alive s'"
  shows "\<exists>a'. on_object (getCamera a) f a = Some (r, a') \<and> app_holds a' s'"
proof -
  have "f \<lparr>cam = cam s, alive = True, trace = trace s\<rparr> = Some (r, s')"
    using assms(1,2) by (cases s) (simp add: app_holds_def)
  then show ?thesis using assms by (auto simp: on_object_def app_holds_def getCamera_def)
qed

lemma attach_holds:
  assumes "fresh_new env" "je_GetStringUTFChars env [] path = Some p"
  shows "\<exists>a s. nativeAttachNative env w h \<lparr>jDevPath = Some path, jNativeObject = 0, objects = (\<lambda>_. None), jLog = []\<rparr> = Some a \<and>
    app_holds a s \<and> cam s = Camera_new (Some p) w h \<and> settled s \<and> trace s = []"
proof -
  let ?a = "\<lparr>jDevPath = Some path, jNativeObject = 0, objects = (\<lambda>_. None), jLog = []\<rparr>"
  let ?p = "je_new env (\<lambda>_. None)"
  let ?b = "setCamera ?p (?a\<lparr>objects := [?p \<mapsto> Camera_new (Some p) w h]\<rparr>)"
  have "?p \<noteq> 0" using assms(1) unfolding fresh_new_def by (metis one_neq_zero)
  then have "app_holds ?b \<lparr>cam = Camera_new (Some p) w h, alive = True, trace = []\<rparr>" by (simp add: app_holds_def)
  moreover have "nativeAttachNative env w h ?a = Some ?b"
    using assms(2) by (simp add: nativeAttachNative_def getDevicePath_def getCamera_def Let_def)
  ultimately show ?thesis by (fastforce simp: settled_def unlocked_def Camera_new_def)
qed

lemma holds_release:
  assumes "app_holds a s"
  shows "\<exists>a'. nativeReleaseCamera a = Some a' \<and> getCamera a' = 0 \<and> objects a' = (\<lambda>_. None) \<and>
    closes (jLog a') = closes (trace s) @ (if mFD (cam s) > 0 then [mFD (cam s)] else [])"
  using assms nativeReleaseCamera_eq [of a "cam s"] by (simp add: app_holds_def)

lemma holds_capture:
  assumes "app_holds a s" "startCapture n os s = Some (e, s')" "settled s"
  shows "\<exists>a'. nativeStartCapture n os a = Some (Some e, a') \<and> app_holds a' s'"
proof -
  have "alive s'" using startCapture_settled [OF assms(2,3)] by (simp add: settled_def)
  from on_object_holds [OF assms(1) _ this, of "\<lambda>s. map_option (\<lambda>(e, s). (Some e, s)) (startCapture n os s)"]
  show ?thesis using assms(1,2) by (simp add: nativeStartCapture_def app_holds_def)
qed

lemma holds_surfaces:
  assumes "app_holds a s" "good_cam c b s"
  shows "\<exists>a' s'. nativeSetPreview os j a = Some a' \<and> app_holds a' s' \<and> good_cam c b s' \<and> mFD (cam s') = mFD (cam s) \<and>
      trace s' = trace s"
    and "\<exists>a' s'. nativeAddEncoder os j a = Some a' \<and> app_holds a' s' \<and> good_cam c b s' \<and> mFD (cam s') = mFD (cam s) \<and>
      trace s' = trace s"
proof -
  have n: "getCamera a \<noteq> 0" using assms(1) by (simp add: app_holds_def)
  obtain s1 s2 where 1: "setPreviewSurface os j s = Some s1" "good_cam c b s1" "mFD (cam s1) = mFD (cam s)" "trace s1 = trace s"
    and 2: "addEncoderSurface os j s = Some s2" "good_cam c b s2" "mFD (cam s2) = mFD (cam s)" "trace s2 = trace s"
    using surface_ops_good [OF assms(2)] by blast
  have al: "alive s1" "alive s2" using 1(2) 2(2) by (simp_all add: good_cam_def settled_def)
  from on_object_holds [OF assms(1) _ al(1), of "\<lambda>s. map_option (Pair ()) (setPreviewSurface os j s)"] 1 n
  show "\<exists>a' s'. nativeSetPreview os j a = Some a' \<and> app_holds a' s' \<and> good_cam c b s' \<and> mFD (cam s') = mFD (cam s) \<and>
      trace s' = trace s" by (auto simp: nativeSetPreview_def)
  from on_object_holds [OF assms(1) _ al(2), of "\<lambda>s. map_option (Pair ()) (addEncoderSurface os j s)"] 2 n
  show "\<exists>a' s'. nativeAddEncoder os j a = Some a' \<and> app_holds a' s' \<and> good_cam c b s' \<and> mFD (cam s') = mFD (cam s) \<and>
      trace s' = trace s" by (auto simp: nativeAddEncoder_def)
qed

end
