(* ===== verification/Frame_Delivery.thy ===== *)
theory Frame_Delivery
  imports Capture_Correct
begin

text \<open>
  From the driver to the windows: with windows of fixed sizes without padding (\<open>steady_env\<close>), every frame
  the driver hands out during a capture appears, converted, in the preview and in every encoder
  window, in the order of the frames. The environment may end the capture at any moment.
\<close>

subsection \<open>Frames and pictures in the log\<close>

text \<open>The frames a stretch of the log hands out: the content of the dequeued buffer when it is dequeued.
  \<open>B\<close> are the mapped buffers, \<open>tr\<close> the log before.\<close>

primrec shots :: "os \<Rightarrow> buffer option list \<Rightarrow> trace \<Rightarrow> event list \<Rightarrow> mem list" where
  "shots os B tr [] = []"
| "shots os B tr (e # es) = (case e of
     EvIoctl fd (VIDIOC_DQBUF i) r \<Rightarrow> (if r < 0 then [] else [os_frame os (tr @ [e]) (map_start (the (B ! nat i)))])
   | _ \<Rightarrow> []) @ shots os B (tr @ [e]) es"

text \<open>The pictures posted: to the preview (None) \<open>n\<close> bytes of them, to an encoder window all of it.\<close>

definition pictures :: "nat \<Rightarrow> event list \<Rightarrow> (surface option \<times> mem) list" where
  "pictures n tr = concat (map (\<lambda>e. case e of EvMapUnlock h m \<Rightarrow> [(None, take n m)]
     | EvUnlockAndPost p m \<Rightarrow> [(Some p, m)] | _ \<Rightarrow> []) tr)"

text \<open>What one frame has to look like in the preview \<open>p\<close>, if there is one, and the encoders \<open>es\<close>.\<close>

definition renderings :: "nat \<Rightarrow> nat \<Rightarrow> (surface \<Rightarrow> nat) \<Rightarrow> (surface \<Rightarrow> nat) \<Rightarrow> bool \<Rightarrow> surface \<Rightarrow> surface list \<Rightarrow>
    mem \<Rightarrow> (surface option \<times> mem) list" where
  "renderings c b W H sgnd p es f = (if p = 0 then [] else [(None, yv12_planes (16 * c) b f)]) @
     map (\<lambda>q. (Some q, centre (32 * c) (2 * b) (W q) (H q) (rgba_frame sgnd (4 * (16 * c * b)) f))) es"

text \<open>Documented behaviour: a buffer that is out keeps its content until it is queued again, and a
  dequeue fails with EAGAIN only; windows of fixed, unpadded sizes that can always be locked.\<close>

definition steady_env :: "nat \<Rightarrow> nat \<Rightarrow> (surface \<Rightarrow> nat) \<Rightarrow> (surface \<Rightarrow> nat) \<Rightarrow> surface \<Rightarrow> os \<Rightarrow> bool" where
  "steady_env c b W H p os \<longleftrightarrow> good_env (16 * c) b os \<and> (p \<noteq> 0 \<longrightarrow> gives_buffers c b os p) \<and>
     window_sizes (32 * c) (2 * b) W H os \<and> (\<forall>pt tr. set (os_ui os pt tr) \<subseteq> {UiStop}) \<and>
     (\<forall>tr fd. 0 \<le> fst (os_dqbuf os tr fd) \<or> fst (snd (os_dqbuf os tr fd)) = EAGAIN) \<and>
     (\<forall>tr fd i r es x. list_all (\<lambda>e. window_event e \<or> (\<exists>t. e = EvNotifyFirstCapture t)) es \<longrightarrow>
        os_frame os (tr @ EvIoctl fd (VIDIOC_DQBUF i) r # es) x = os_frame os (tr @ [EvIoctl fd (VIDIOC_DQBUF i) r]) x)"

lemma shots_append: "shots os B tr (x @ y) = shots os B tr x @ shots os B (tr @ x) y"
  by (induction x arbitrary: tr) simp_all

lemma shots_windows: "list_all window_event es \<Longrightarrow> shots os B tr es = []"
proof (induction es arbitrary: tr)
  case (Cons e es)
  then show ?case by (cases e) simp_all
qed simp

lemma pictures_simps [simp]: "pictures n [] = []" "pictures n (x @ y) = pictures n x @ pictures n y"
  "pictures n (EvMapUnlock h m # tr) = (None, take n m) # pictures n tr"
  "pictures n (EvUnlockAndPost p m # tr) = (Some p, m) # pictures n tr"
  "pictures n (EvPerform p q a # tr) = pictures n tr" "pictures n (EvDequeue p r # tr) = pictures n tr"
  "pictures n (EvMapLock h u i j # tr) = pictures n tr" "pictures n (EvQueue p bf r # tr) = pictures n tr"
  "pictures n (EvWindowLock p r # tr) = pictures n tr" "pictures n (EvIoctl fd cmd r # tr) = pictures n tr"
  "pictures n (EvSelect fd r # tr) = pictures n tr" "pictures n (EvNotifyFirstCapture t # tr) = pictures n tr"
  by (simp_all add: pictures_def)

lemma pictures_posts:
  "pictures n (concat (map (\<lambda>p. [EvWindowLock p r, EvUnlockAndPost p (m p)]) ps)) = map (\<lambda>p. (Some p, m p)) ps"
  by (induction ps) simp_all

subsection \<open>One frame\<close>

text \<open>The state draws: its camera is in order and has the surfaces \<open>p\<close> and \<open>es\<close>.\<close>

definition drawing :: "nat \<Rightarrow> nat \<Rightarrow> surface \<Rightarrow> surface list \<Rightarrow> sys \<Rightarrow> bool" where
  "drawing c b p es s \<longleftrightarrow> good_cam (16 * c) b s \<and> mPreviewSurface (cam s) = p \<and> mEncoderSurfaces (cam s) = es"

lemma ui_execs_stopped:
  "set ops \<subseteq> {UiStop} \<Longrightarrow> ui_execs os ops s = Some s' \<Longrightarrow> s' = s \<or> s' = stopCapture s"
proof (induction ops arbitrary: s)
  case (Cons op ops)
  have "stopCapture (stopCapture s) = stopCapture s" by (simp add: stopCapture_def upd_def)
  then show ?case using Cons.IH [of "stopCapture s"] Cons.prems by (auto simp: ui_exec_def split: if_splits)
qed simp

lemma run_ui_drawing:
  assumes "steady_env c b W H q os" "drawing c b p es s"
  shows "\<exists>s'. run_ui os pt s = Some s' \<and> drawing c b p es s' \<and> trace s' = trace s \<and> fixed (cam s') = fixed (cam s)"
proof -
  obtain s' where s': "run_ui os pt s = Some s'" "good_cam (16 * c) b s'" "keeps s s'" "trace s' = trace s"
    using run_ui_good_cam [of "16 * c" b os s pt] assms by (auto simp: drawing_def steady_env_def)
  have "set (os_ui os pt (trace s)) \<subseteq> {UiStop}" using assms(1) by (simp add: steady_env_def)
  then have "s' = s \<or> s' = stopCapture s"
    using s'(1) ui_execs_stopped by (auto simp: run_ui_def Option.bind_eq_Some_conv split: if_splits)
  then show ?thesis using s' assms(2) by (auto simp: drawing_def stopCapture_def keeps_def)
qed

lemma drawing_frame:
  assumes "drawing c b p es s" "good_env (16 * c) b os"
  shows "shows_frame os s (16 * c) b (os_frame os (trace s) (map_start (the (mBufferArray (cam s) ! nat (mCurBufIndex (cam s))))))"
proof -
  obtain f where f: "shows_frame os s (16 * c) b f" using good_frame assms unfolding drawing_def by blast
  have "rd (mBufferArray (cam s)) (mCurBufIndex (cam s)) = Some (mBufferArray (cam s) ! nat (mCurBufIndex (cam s)))"
    using assms(1) by (simp add: drawing_def good_cam_def)
  then have "f = os_frame os (trace s) (map_start (the (mBufferArray (cam s) ! nat (mCurBufIndex (cam s)))))"
    using f by (auto simp: shows_frame_def current_frame_def Option.bind_eq_Some_conv)
  then show ?thesis using f by simp
qed

lemma preview_delivers:
  assumes env: "steady_env c b W H p os" and s: "drawing c b p es s" and f: "shows_frame os s (16 * c) b f"
  shows "\<exists>s' ev. drawPreviewSurface os s = Some s' \<and> drawing c b p es s' \<and> fixed (cam s') = fixed (cam s) \<and>
    trace s' = trace s @ ev \<and> list_all window_event ev \<and>
    pictures (96 * (c * b)) ev = (if p = 0 then [] else [(None, yv12_planes (16 * c) b f)])"
proof -
  have good: "good_env (16 * c) b os" and st: "unlocked s" "alive s" "arrays_ok (cam s)"
    using env s by (simp_all add: steady_env_def drawing_def good_cam_def settled_def)
  obtain s0 where s0: "run_ui os BeforePreviewLock s = Some s0" "drawing c b p es s0" "trace s0 = trace s"
    using run_ui_drawing [OF env s] by blast
  obtain s' where s': "drawPreviewSurface os s = Some s'" "good_cam (16 * c) b s'"
    using drawPreview_good [OF good] s unfolding drawing_def by blast
  have k: "fixed (cam s') = fixed (cam s)" using pv.draw_keeps [OF s'(1) st(1,2)] by (simp add: keeps_def)
  have "mPreviewSurface (cam s') = p \<and> mEncoderSurfaces (cam s') = es \<and> (\<exists>ev. trace s' = trace s @ ev \<and> list_all window_event ev \<and>
    pictures (96 * (c * b)) ev = (if p = 0 then [] else [(None, yv12_planes (16 * c) b f)]))"
  proof (cases "p = 0")
    case True
    then show ?thesis using s0 s'(1)
      by (auto simp: drawPreviewSurface_def Let_def lock_defs drawing_def intro!: exI [of _ "[]"] split: if_splits)
  next
    case False
    have p: "mPreviewSurface (cam s0) \<noteq> 0" "mPreviewSurface (cam s) = p" "gives_buffers c b os p"
      using False s s0(2) env by (simp_all add: drawing_def steady_env_def)
    obtain t r bf dst where t: "drawPreviewSurface os s = Some t"
        "cam t = (cam s0)\<lparr>mPreviewLock := False, mYuv420sp := Some (yv12_planes (16 * c) b f)\<rparr>" "trace t = trace s @
     [EvPerform p NATIVE_WINDOW_SET_USAGE [ArgInt preview_usage],
      EvPerform p NATIVE_WINDOW_SET_BUFFERS_DIMENSIONS [ArgInt (32 * int c), ArgInt (2 * int b)],
      EvPerform p NATIVE_WINDOW_SET_SCALING_MODE [ArgInt 2],
      EvPerform p NATIVE_WINDOW_SET_BUFFERS_FORMAT [ArgInt (hal_pixel_format_value HAL_PIXEL_FORMAT_YV12)],
      EvDequeue p 0, EvMapLock (buf_handle bf) 0x30 (32 * int c) (2 * int b),
      EvMapUnlock (buf_handle bf) (yv12_planes (16 * c) b f @ drop (96 * (c * b)) dst), EvQueue p bf r]"
      using preview_posts [OF s0(1) st(1) p(1) st(3) f p(2) False p(3)] by (elim exE conjE) (rule that)
    have "t = s'" using t(1) s'(1) by simp
    then show ?thesis using t(2,3) s0(2) False by (simp add: drawing_def yv12_planes_length)
  qed
  then show ?thesis using s' k by (auto simp: drawing_def)
qed

lemma encoders_deliver:
  assumes env: "steady_env c b W H p os" and s: "drawing c b p es s" and f: "shows_frame os s (16 * c) b f"
  shows "\<exists>s' ev. drawEncoderSurface os s = Some s' \<and> drawing c b p es s' \<and> fixed (cam s') = fixed (cam s) \<and>
    trace s' = trace s @ ev \<and> list_all window_event ev \<and> pictures n ev = map (\<lambda>q. (Some q,
      centre (32 * c) (2 * b) (W q) (H q) (rgba_frame (os_char_signed os) (4 * (16 * c * b)) f))) es"
proof -
  have good: "good_env (16 * c) b os" and st: "unlocked s" "alive s" "arrays_ok (cam s)"
      and win: "window_sizes (2 * (16 * c)) (2 * b) W H os"
    using env s by (simp_all add: steady_env_def drawing_def good_cam_def settled_def)
  obtain s0 where s0: "run_ui os BeforeEncoderLock s = Some s0" "drawing c b p es s0" "trace s0 = trace s"
    using run_ui_drawing [OF env s] by blast
  obtain s' where s': "drawEncoderSurface os s = Some s'" "good_cam (16 * c) b s'"
    using drawEncoder_good [OF good] s unfolding drawing_def by blast
  have k: "fixed (cam s') = fixed (cam s)" using ec.draw_keeps [OF s'(1) st(1,2)] by (simp add: keeps_def)
  let ?pic = "\<lambda>q. centre (32 * c) (2 * b) (W q) (H q) (rgba_frame (os_char_signed os) (4 * (16 * c * b)) f)"
  have "mPreviewSurface (cam s') = p \<and> mEncoderSurfaces (cam s') = es \<and>
    trace s' = trace s @ concat (map (\<lambda>q. [EvWindowLock q 0, EvUnlockAndPost q (?pic q)]) es)"
  proof (cases "es = []")
    case True
    then show ?thesis using s0 s'(1)
      by (auto simp: drawEncoderSurface_def lock_defs drawing_def split: if_splits)
  next
    case False
    then have e: "mEncoderSurfaces (cam s0) \<noteq> []" using s0(2) by (simp add: drawing_def)
    have len: "length (rgba_frame (os_char_signed os) (4 * (16 * c * b)) f) = 2 * (16 * c) * (2 * b) * 4" by simp
    note log = encoders_log_sizes [OF win len, unfolded mult.assoc [symmetric], simplified, unfolded mult.assoc]
    show ?thesis using encoders_post [OF s0(1) st(1) e st(3) f windows_fit_sizes [OF win]] s'(1) s0(2)
      by (auto simp: drawing_def log mult.assoc)
  qed
  moreover have "list_all window_event (concat (map (\<lambda>q. [EvWindowLock q 0, EvUnlockAndPost q (m q)]) es))" for m :: "nat \<Rightarrow> mem"
    by (induction es) simp_all
  ultimately show ?thesis using s' k by (auto simp: drawing_def pictures_posts)
qed

text \<open>The frames handed out between two states are the pictures posted between them, rendered.\<close>

definition delivers :: "nat \<Rightarrow> nat \<Rightarrow> (surface \<Rightarrow> nat) \<Rightarrow> (surface \<Rightarrow> nat) \<Rightarrow> surface \<Rightarrow> surface list \<Rightarrow> os \<Rightarrow> sys \<Rightarrow> sys \<Rightarrow> bool" where
  "delivers c b W H p es os s s' \<longleftrightarrow> drawing c b p es s' \<and> mBufferArray (cam s') = mBufferArray (cam s) \<and>
     (\<exists>L. trace s' = trace s @ L \<and> pictures (96 * (c * b)) L =
        concat (map (renderings c b W H (os_char_signed os) p es) (shots os (mBufferArray (cam s)) (trace s) L)))"

lemma delivers_drawing: "delivers c b W H p es os s s' \<Longrightarrow> drawing c b p es s'"
  by (simp add: delivers_def)

lemma delivers_quiet:
  assumes "drawing c b p es s'" "mBufferArray (cam s') = mBufferArray (cam s)" "trace s' = trace s @ L"
    "pictures (96 * (c * b)) L = []" "shots os (mBufferArray (cam s)) (trace s) L = []"
  shows "delivers c b W H p es os s s'"
  unfolding delivers_def using assms by (intro conjI exI [of _ L]) simp_all

text \<open>From the dequeue to the queue.\<close>

lemma capture_frame_delivers:
  assumes env: "steady_env c b W H p os" and s: "drawing c b p es s" and run: "capture_frame os first s = Some (x, s')"
  shows "delivers c b W H p es os s s'"
proof -
  have good: "good_env (16 * c) b os" using env by (simp add: steady_env_def)
  obtain r errno s1 where d: "sys_dqbuf os (upd (mCurBufIndex_update (\<lambda>_. 0)) s) = (r, errno, s1)" by (metis surj_pair)
  obtain i where i: "s1 = emit (EvIoctl (mFD (cam s)) (VIDIOC_DQBUF i) r) (upd (mCurBufIndex_update (\<lambda>_. i)) s)" "r < 0 \<longrightarrow> i = 0"
    and r: "r = fst (os_dqbuf os (trace s) (mFD (cam s)))" "errno = fst (snd (os_dqbuf os (trace s) (mFD (cam s))))"
    using dqbuf_eq [OF d] by blast
  have "0 \<le> mCurBufIndex (cam s1) \<and> mCurBufIndex (cam s1) < 4"
    using d good by (auto simp: sys_dqbuf_def Let_def split_beta good_env_def)
  then have i4: "0 \<le> i \<and> i < 4" by (simp add: i(1))
  have s1: "drawing c b p es s1" using s i4 by (simp add: i(1) drawing_def good_cam_index)
  show ?thesis
  proof (cases "r < 0")
    case True
    then have "errno = EAGAIN" using env r by (metis steady_env_def not_le)
    then have "s' = s1" using run d True by (auto simp: capture_frame_def)
    then have "trace s' = trace s @ [EvIoctl (mFD (cam s)) (VIDIOC_DQBUF i) r]" by (simp add: i(1))
    then show ?thesis by (rule delivers_quiet [rotated 2]) (use \<open>s' = s1\<close> s1 True in \<open>simp_all add: i(1)\<close>)
  next
    case False
    let ?B = "mBufferArray (cam s)" and ?e = "EvIoctl (mFD (cam s)) (VIDIOC_DQBUF i) r"
    define f where "f = os_frame os (trace s @ [?e]) (map_start (the (?B ! nat i)))"
    let ?s2 = "if first then notify_first os s1 else s1"
    obtain es2 where es2: "trace ?s2 = trace s @ ?e # es2" "\<forall>e \<in> set es2. \<exists>t. e = EvNotifyFirstCapture t"
      using notify_first_trace [of os s1] by (cases first) (auto simp: i(1))
    have s2: "drawing c b p es ?s2" "fixed (cam ?s2) = fixed (cam s1)"
      using s1 by (simp_all add: drawing_def good_cam_def settled_def unlocked_def)
    obtain s3 where "run_ui os BeforeDraw ?s2 = Some s3" "drawing c b p es s3" "trace s3 = trace ?s2"
        "fixed (cam s3) = fixed (cam ?s2)"
      using run_ui_drawing [OF env s2(1)] by blast
    note s3 = this(1,2) this(3) [unfolded es2(1)] this(4) [unfolded s2(2)]
    have same: "os_frame os (trace s @ ?e # es2 @ ev) y = os_frame os (trace s @ [?e]) y" if "list_all window_event ev" for ev y
    proof -
      have "list_all (\<lambda>e. window_event e \<or> (\<exists>t. e = EvNotifyFirstCapture t)) (es2 @ ev)"
        using es2(2) that by (auto simp: list_all_iff)
      then show ?thesis using env unfolding steady_env_def by blast
    qed
    have seen: "shows_frame os t (16 * c) b f"
      if "drawing c b p es t" "trace t = trace s @ ?e # es2 @ ev" "list_all window_event ev" "fixed (cam t) = fixed (cam s1)" for t ev
      using drawing_frame [OF that(1) good] that same [OF that(3)] by (simp add: f_def i(1) fixed_def)
    obtain s4 ev4 where s4: "drawPreviewSurface os s3 = Some s4" "drawing c b p es s4" "fixed (cam s4) = fixed (cam s1)"
        "trace s4 = trace s @ ?e # es2 @ ev4" "list_all window_event ev4"
        "pictures (96 * (c * b)) ev4 = (if p = 0 then [] else [(None, yv12_planes (16 * c) b f)])"
      using preview_delivers [OF env s3(2) seen [OF s3(2), of "[]"]] s3 by auto
    obtain s5 ev5 where s5: "drawEncoderSurface os s4 = Some s5" "drawing c b p es s5" "fixed (cam s5) = fixed (cam s1)"
        "trace s5 = trace s @ ?e # es2 @ ev4 @ ev5" "list_all window_event ev5"
        "pictures (96 * (c * b)) ev5 = map (\<lambda>q. (Some q, centre (32 * c) (2 * b) (W q) (H q)
           (rgba_frame (os_char_signed os) (4 * (16 * c * b)) f))) es"
      using encoders_deliver [OF env s4(2) seen [OF s4(2,4,5,3)], where n = "96 * (c * b)"] s4 by auto
    obtain q where s': "s' = emit (EvIoctl (mFD (cam s5)) (VIDIOC_QBUF (mCurBufIndex (cam s5))) q) s5"
      using run d False s3(1) s4(1) s5(1) by (auto simp: capture_frame_def Let_def sys_ioctl_def split: if_splits)
    let ?L = "?e # es2 @ ev4 @ ev5 @ [EvIoctl (mFD (cam s5)) (VIDIOC_QBUF (mCurBufIndex (cam s5))) q]"
    have n: "shots os ?B tr es2 = [] \<and> pictures (96 * (c * b)) es2 = []" for tr
      using es2(2) by (induction es2 arbitrary: tr) auto
    have "shots os ?B (trace s) ?L = [f]"
      using False by (simp add: shots_append shots_windows s4(5) s5(5) n f_def)
    moreover have "pictures (96 * (c * b)) ?L = renderings c b W H (os_char_signed os) p es f"
      by (simp add: s4(6) s5(6) n renderings_def)
    moreover have "mBufferArray (cam s5) = ?B" using s5(3) by (simp add: fixed_def i(1))
    moreover have "trace s' = trace s @ ?L" using s5(4) by (simp add: s')
    ultimately show ?thesis using s5(2)
      unfolding delivers_def by (intro conjI exI [of _ ?L]) (simp_all add: s' drawing_def)
  qed
qed

subsection \<open>The whole capture\<close>

lemma delivers_trans:
  assumes "delivers c b W H p es os s s'" "delivers c b W H p es os s' s''"
  shows "delivers c b W H p es os s s''"
proof -
  obtain L L' where "trace s' = trace s @ L" "trace s'' = trace s' @ L'"
    "pictures (96 * (c * b)) L = concat (map (renderings c b W H (os_char_signed os) p es) (shots os (mBufferArray (cam s)) (trace s) L))"
    "pictures (96 * (c * b)) L' = concat (map (renderings c b W H (os_char_signed os) p es) (shots os (mBufferArray (cam s')) (trace s') L'))"
    using assms unfolding delivers_def by blast
  then show ?thesis using assms by (auto simp: delivers_def shots_append intro!: exI [of _ "L @ L'"])
qed

lemma run_ui_delivers:
  assumes "steady_env c b W H q os" "drawing c b p es s"
  shows "\<exists>s'. run_ui os pt s = Some s' \<and> delivers c b W H p es os s s'"
proof -
  obtain s' where s': "run_ui os pt s = Some s'" "drawing c b p es s'" "trace s' = trace s" "fixed (cam s') = fixed (cam s)"
    using run_ui_drawing [OF assms] by blast
  then have "delivers c b W H p es os s s'" by (intro delivers_quiet [where L = "[]"]) (simp_all add: fixed_def)
  then show ?thesis using s'(1) by blast
qed

lemma capture_body_delivers:
  assumes env: "steady_env c b W H p os" and s: "drawing c b p es s" and run: "capture_body os first s = Some (x, s')"
  shows "delivers c b W H p es os s s'"
proof -
  have good: "good_env (16 * c) b os" using env by (simp add: steady_env_def)
  obtain r errno s1 where sel: "sys_select os s = (r, errno, s1)" by (metis surj_pair)
  then have s1: "s1 = emit (EvSelect (mFD (cam s)) r) s" by (auto simp: sys_select_def Let_def split_beta)
  have d1: "delivers c b W H p es os s s1" by (rule delivers_quiet [where L = "[EvSelect (mFD (cam s)) r]"]) (use s in \<open>simp_all add: s1 drawing_def\<close>)
  obtain s2 where s2: "run_ui os AfterSelect s1 = Some s2" "delivers c b W H p es os s1 s2"
    using run_ui_delivers [OF env delivers_drawing [OF d1]] by blast
  have d2: "delivers c b W H p es os s s2" by (rule delivers_trans [OF d1 s2(2)])
  have "s' = s2 \<or> capture_frame os first s2 = Some (x, s')"
    using run sel s2(1) by (auto simp: capture_body_def split: if_splits)
  then show ?thesis
  proof
    assume "capture_frame os first s2 = Some (x, s')"
    from capture_frame_delivers [OF env delivers_drawing [OF d2] this] show ?thesis by (rule delivers_trans [OF d2])
  qed (use d2 in simp)
qed

lemma capture_loop_delivers:
  assumes env: "steady_env c b W H p os"
  shows "drawing c b p es s \<Longrightarrow> capture_loop n os first s = Some (x, s') \<Longrightarrow> delivers c b W H p es os s s'"
proof (induction n arbitrary: first s)
  case 0
  then show ?case by (intro delivers_quiet [where L = "[]"]) simp_all
next
  case (Suc n)
  have good: "good_env (16 * c) b os" using env by (simp add: steady_env_def)
  obtain s1 where s1: "run_ui os AtLoopHead s = Some s1" "delivers c b W H p es os s s1"
    using run_ui_delivers [OF env Suc.prems(1)] by blast
  show ?case
  proof (cases "mPeekRun (cam s1)")
    case False
    then show ?thesis using Suc.prems(2) s1 by simp
  next
    case True
    then obtain y s2 where s2: "capture_body os first s1 = Some (y, s2)"
      using Suc.prems(2) s1(1) by (auto simp: Option.bind_eq_Some_conv)
    have d2: "delivers c b W H p es os s s2"
      by (rule delivers_trans [OF s1(2) capture_body_delivers [OF env delivers_drawing [OF s1(2)] s2]])
    have "s' = s2 \<or> (\<exists>g. capture_loop n os g s2 = Some (x, s'))"
      using Suc.prems(2) s1(1) s2 True by (cases y) auto
    then show ?thesis using Suc.IH [OF delivers_drawing [OF d2]] d2 delivers_trans by blast
  qed
qed

subsection \<open>Property\<close>

text \<open>C5: a capture of frames of \<open>32 c * 2 b\<close> pixels never faults and delivers every frame: the pictures posted during it are,
  frame by frame in the order in which the driver hands them out, the YV12 picture of the frame in the
  preview, if there is one, and then the centre of its RGBA picture in each encoder window, in the
  order of the list. No frame is left out, shown twice or mixed with another, whenever the capture is
  stopped or ended by an error. The conditions, \<open>steady_env\<close> and \<open>good_cam\<close>: the camera is open with four mapped
  buffers and no lock held; the driver hands out one of the four with a full frame in it, leaves it alone until it is
  queued again and fails a dequeue only for want of a frame (EAGAIN); other threads
  at most stop the capture; the preview window always gives a buffer of exactly the picture's
  height, with a stride of exactly its width, that can be locked and is large enough; and every encoder
  window can always be locked, has a constant size no larger than the picture and narrower by an even number
  of pixels or none, and no padding (its stride is its width and its memory exactly its pixels: the code
  ignores the stride, so a padded window would show the rows displaced).\<close>

theorem capture_delivers_every_frame:
  assumes "steady_env c b W H p os" and "good_cam (16 * c) b s" and "mPreviewSurface (cam s) = p"
    and "mEncoderSurfaces (cam s) = es"
  shows "\<exists>e s' L. startCapture n os s = Some (e, s') \<and> trace s' = trace s @ L \<and> pictures (96 * (c * b)) L =
    concat (map (renderings c b W H (os_char_signed os) p es) (shots os (mBufferArray (cam s)) (trace s) L))"
proof -
  obtain e s' where r: "startCapture n os s = Some (e, s')"
    using startCapture_good [of "16 * c" b os s n] assms(1,2) by (auto simp: steady_env_def)
  show ?thesis
  proof (cases "mFD (cam s) < 0")
    case True
    then show ?thesis by (intro exI [of _ NotOpen] exI [of _ s] exI [of _ "[]"]) (simp add: startCapture_def)
  next
    case False
    let ?s0 = "upd (mPeekRun_update (\<lambda>_. True)) s"
    obtain x s1 where l: "capture_loop n os True ?s0 = Some (x, s1)"
      using r False by (auto simp: startCapture_def Option.bind_eq_Some_conv)
    have "drawing c b p es ?s0" using assms good_cam_peek [OF assms(2)] by (simp add: drawing_def)
    from capture_loop_delivers [OF assms(1) this l] obtain L where L: "trace s1 = trace s @ L"
      "pictures (96 * (c * b)) L = concat (map (renderings c b W H (os_char_signed os) p es) (shots os (mBufferArray (cam s)) (trace s) L))"
      by (auto simp: delivers_def)
    obtain E where "trace s' = trace s1 @ E" "pictures (96 * (c * b)) E = []" "\<And>tr. shots os (mBufferArray (cam s)) tr E = []"
      using r l False by (cases x) (auto simp: startCapture_def sys_close_def pictures_def)
    then show ?thesis using r L by (intro exI [of _ e] exI [of _ s'] exI [of _ "L @ E"]) (simp add: shots_append)
  qed
qed

theorem capture_delivers_every_frame_witness:
  "\<exists>e s'. startCapture 3 (demo_os 2) demo_sys = Some (e, s') \<and> pictures 96 (trace s') =
     concat (map (renderings 1 1 (\<lambda>_. 2) (\<lambda>_. 2) False 5 [6, 7])
       (shots (demo_os 2) (mBufferArray (cam demo_sys)) [] (trace s')))"
proof -
  have "steady_env 1 1 (\<lambda>_. 2) (\<lambda>_. 2) 5 (demo_os 2)"
    using demo_good(1) [of 2] by (auto simp: steady_env_def gives_buffers_def window_sizes_def demo_os_def easy_os_def
      easy_window_dequeue)
  note env = this
  have "good_cam (16 * 1) 1 demo_sys" using demo_good(2) by simp
  from capture_delivers_every_frame [OF env this, of "[6, 7]" 3] show ?thesis
    by (auto simp: demo_sys_def demo_os_def easy_os_def)
qed

end
