(* ===== verification/Weak_Pointer.thy ===== *)
theory Weak_Pointer
  imports Strong_Pointer
begin

text \<open>
  Weak references: the template \<open>wp\<close> of \<open>utils/RefBase.h\<close> and its promotion to \<open>sp\<close>.
  The counters behind \<open>weakref_type\<close> are in \<open>RefBase.cpp\<close>, which the repository does not
  contain: \<open>createWeak\<close>, \<open>incWeak\<close>, \<open>decWeak\<close> and \<open>attemptIncStrong\<close> are
  arguments of the operations (\<open>weak_ops\<close>). A weak cell holds \<open>m_ptr\<close> and \<open>m_refs\<close>; the
  constructors leave \<open>m_refs\<close> unset for a null pointer (None), and reading it is a fault.
\<close>

type_synonym rptr = nat

record 'h weak_ops =
  createWeak :: "ptr \<Rightarrow> 'h \<Rightarrow> (rptr \<times> 'h) option"
  incWeak :: "rptr \<Rightarrow> 'h \<Rightarrow> 'h option"
  decWeak :: "rptr \<Rightarrow> 'h \<Rightarrow> 'h option"
  attemptIncStrong :: "rptr \<Rightarrow> 'h \<Rightarrow> (bool \<times> 'h) option"

type_synonym weak_cell = "ptr \<times> rptr option"

record 'h wp_state = "'h sp_state" +
  wps :: "nat \<rightharpoonup> weak_cell"

definition wset :: "nat \<Rightarrow> weak_cell \<Rightarrow> 'h wp_state \<Rightarrow> 'h wp_state" where
  "wset i c st = st\<lparr>wps := (wps st)(i \<mapsto> c)\<rparr>"

definition wobjs_step :: "('h \<Rightarrow> 'h option) \<Rightarrow> 'h wp_state \<Rightarrow> 'h wp_state option" where
  "wobjs_step f st = map_option (\<lambda>h. st\<lparr>objs := h\<rparr>) (f (objs st))"

text \<open>\<open>if (m_ptr) m_refs->f(this)\<close> on a cell.\<close>

definition if_cell :: "weak_cell \<Rightarrow> (rptr \<Rightarrow> 'h \<Rightarrow> 'h option) \<Rightarrow> 'h wp_state \<Rightarrow> 'h wp_state option" where
  "if_cell c f st = (if fst c \<noteq> 0 then do { r \<leftarrow> snd c; wobjs_step (f r) st } else Some st)"

text \<open>\<open>other ? other->createWeak(this) : 0\<close>\<close>

definition weak_refs_of :: "'h weak_ops \<Rightarrow> ptr \<Rightarrow> 'h wp_state \<Rightarrow> (rptr \<times> 'h wp_state) option" where
  "weak_refs_of W p st = (if p \<noteq> 0
     then map_option (\<lambda>(r, h). (r, st\<lparr>objs := h\<rparr>)) (createWeak W p (objs st)) else Some (0, st))"

subsection \<open>Constructors, destructor, assignment\<close>

definition wp_init :: "nat \<Rightarrow> 'h wp_state \<Rightarrow> 'h wp_state" where
  "wp_init i st = wset i (0, None) st"

definition wp_from_ptr :: "'h weak_ops \<Rightarrow> nat \<Rightarrow> ptr \<Rightarrow> 'h wp_state \<Rightarrow> 'h wp_state option" where
  "wp_from_ptr W i other st =
     (if other \<noteq> 0 then do { (r, st) \<leftarrow> weak_refs_of W other st; Some (wset i (other, Some r) st) }
      else Some (wset i (0, None) st))"

definition wp_copy :: "'h weak_ops \<Rightarrow> nat \<Rightarrow> nat \<Rightarrow> 'h wp_state \<Rightarrow> 'h wp_state option" where
  "wp_copy W i other st = do {
     c \<leftarrow> wps st other;
     let st = wset i c st;
     if_cell c (incWeak W) st
   }"

definition wp_from_sp :: "'h weak_ops \<Rightarrow> nat \<Rightarrow> nat \<Rightarrow> 'h wp_state \<Rightarrow> 'h wp_state option" where
  "wp_from_sp W i other st = do { p \<leftarrow> sps st other; wp_from_ptr W i p st }"

definition wp_destroy :: "'h weak_ops \<Rightarrow> nat \<Rightarrow> 'h wp_state \<Rightarrow> 'h wp_state option" where
  "wp_destroy W i st = do {
     c \<leftarrow> wps st i;
     st \<leftarrow> if_cell c (decWeak W) st;
     Some (st\<lparr>wps := (wps st)(i := None)\<rparr>)
   }"

definition wp_assign_ptr :: "'h weak_ops \<Rightarrow> nat \<Rightarrow> ptr \<Rightarrow> 'h wp_state \<Rightarrow> 'h wp_state option" where
  "wp_assign_ptr W i other st = do {
     (newRefs, st) \<leftarrow> weak_refs_of W other st;
     c \<leftarrow> wps st i;
     st \<leftarrow> if_cell c (decWeak W) st;
     Some (wset i (other, Some newRefs) st)
   }"

definition wp_assign :: "'h weak_ops \<Rightarrow> nat \<Rightarrow> nat \<Rightarrow> 'h wp_state \<Rightarrow> 'h wp_state option" where
  "wp_assign W i other st = do {
     otherCell \<leftarrow> wps st other;
     st \<leftarrow> if_cell otherCell (incWeak W) st;
     c \<leftarrow> wps st i;
     st \<leftarrow> if_cell c (decWeak W) st;
     Some (wset i otherCell st)
   }"

definition wp_assign_sp :: "'h weak_ops \<Rightarrow> nat \<Rightarrow> nat \<Rightarrow> 'h wp_state \<Rightarrow> 'h wp_state option" where
  "wp_assign_sp W i other st = do { p \<leftarrow> sps st other; wp_assign_ptr W i p st }"

definition set_object_and_refs :: "'h weak_ops \<Rightarrow> nat \<Rightarrow> ptr \<Rightarrow> rptr \<Rightarrow> 'h wp_state \<Rightarrow> 'h wp_state option" where
  "set_object_and_refs W i other rs st = do {
     st \<leftarrow> (if other \<noteq> 0 then wobjs_step (incWeak W rs) st else Some st);
     c \<leftarrow> wps st i;
     st \<leftarrow> if_cell c (decWeak W) st;
     Some (wset i (other, Some rs) st)
   }"

text \<open>The template versions for a class \<open>U\<close>, whose pointers convert by \<open>conv\<close>. The copy takes the
  counter block only if the pointer is not null.\<close>

definition wp_from_ptr_conv :: "(ptr \<Rightarrow> ptr) \<Rightarrow> 'h weak_ops \<Rightarrow> nat \<Rightarrow> ptr \<Rightarrow> 'h wp_state \<Rightarrow> 'h wp_state option" where
  "wp_from_ptr_conv conv W i other st =
     (if other \<noteq> 0 then do { (r, st) \<leftarrow> weak_refs_of W other st; Some (wset i (conv other, Some r) st) }
      else Some (wset i (conv other, None) st))"

definition wp_copy_conv :: "(ptr \<Rightarrow> ptr) \<Rightarrow> 'h weak_ops \<Rightarrow> nat \<Rightarrow> nat \<Rightarrow> 'h wp_state \<Rightarrow> 'h wp_state option" where
  "wp_copy_conv conv W i other st = do {
     (p, rs) \<leftarrow> wps st other;
     if conv p \<noteq> 0 then do { r \<leftarrow> rs; wobjs_step (incWeak W r) (wset i (conv p, Some r) st) }
     else Some (wset i (conv p, None) st)
   }"

definition wp_from_sp_conv :: "(ptr \<Rightarrow> ptr) \<Rightarrow> 'h weak_ops \<Rightarrow> nat \<Rightarrow> nat \<Rightarrow> 'h wp_state \<Rightarrow> 'h wp_state option" where
  "wp_from_sp_conv conv W i other st = do { p \<leftarrow> sps st other; wp_from_ptr W i (conv p) st }"

definition wp_assign_ptr_conv :: "(ptr \<Rightarrow> ptr) \<Rightarrow> 'h weak_ops \<Rightarrow> nat \<Rightarrow> ptr \<Rightarrow> 'h wp_state \<Rightarrow> 'h wp_state option" where
  "wp_assign_ptr_conv conv W i other st = do {
     (newRefs, st) \<leftarrow> weak_refs_of W other st;
     c \<leftarrow> wps st i;
     st \<leftarrow> if_cell c (decWeak W) st;
     Some (wset i (conv other, Some newRefs) st)
   }"

definition wp_assign_conv :: "(ptr \<Rightarrow> ptr) \<Rightarrow> 'h weak_ops \<Rightarrow> nat \<Rightarrow> nat \<Rightarrow> 'h wp_state \<Rightarrow> 'h wp_state option" where
  "wp_assign_conv conv W i other st = do {
     otherCell \<leftarrow> wps st other;
     st \<leftarrow> if_cell otherCell (incWeak W) st;
     c \<leftarrow> wps st i;
     st \<leftarrow> if_cell c (decWeak W) st;
     Some (wset i (conv (fst otherCell), snd otherCell) st)
   }"

definition wp_assign_sp_conv :: "(ptr \<Rightarrow> ptr) \<Rightarrow> 'h weak_ops \<Rightarrow> nat \<Rightarrow> nat \<Rightarrow> 'h wp_state \<Rightarrow> 'h wp_state option" where
  "wp_assign_sp_conv conv W i other st = do { p \<leftarrow> sps st other; wp_assign_ptr_conv conv W i p st }"

lemma wp_conv_same: "wp_from_ptr_conv (\<lambda>p. p) = wp_from_ptr" "wp_from_sp_conv (\<lambda>p. p) = wp_from_sp"
  "wp_assign_ptr_conv (\<lambda>p. p) = wp_assign_ptr" "wp_assign_conv (\<lambda>p. p) = wp_assign"
  "wp_assign_sp_conv (\<lambda>p. p) = wp_assign_sp"
  by (simp_all add: fun_eq_iff wp_from_ptr_conv_def wp_from_ptr_def wp_from_sp_conv_def wp_from_sp_def
      wp_assign_ptr_conv_def wp_assign_ptr_def wp_assign_conv_def wp_assign_def wp_assign_sp_conv_def wp_assign_sp_def)

text \<open>Converting a copy of a null pointer drops the counter block that a plain copy keeps.\<close>

lemma wp_copy_conv_null:
  assumes "wps st j = Some (0, Some r)"
  shows "wp_copy_conv (\<lambda>p. p) W i j st = Some (wset i (0, None) st) \<and> wp_copy W i j st = Some (wset i (0, Some r) st)"
  using assms by (simp add: wp_copy_conv_def wp_copy_def if_cell_def)

text \<open>Promotion: the result cell \<open>j\<close> is a fresh \<open>sp\<close>.\<close>

definition wp_promote :: "'h weak_ops \<Rightarrow> nat \<Rightarrow> nat \<Rightarrow> 'h wp_state \<Rightarrow> 'h wp_state option" where
  "wp_promote W i j st = do {
     c \<leftarrow> wps st i;
     let st = st\<lparr>sps := (sps st)(j \<mapsto> 0)\<rparr>;
     if fst c \<noteq> 0 then do {
       r \<leftarrow> snd c;
       (ok, h) \<leftarrow> attemptIncStrong W r (objs st);
       let st = st\<lparr>objs := h\<rparr>;
       Some (if ok then st\<lparr>sps := (sps st)(j \<mapsto> fst c)\<rparr> else st)
     } else Some st
   }"

definition wp_clear :: "'h weak_ops \<Rightarrow> nat \<Rightarrow> 'h wp_state \<Rightarrow> 'h wp_state option" where
  "wp_clear W i st = do {
     c \<leftarrow> wps st i;
     if fst c \<noteq> 0 then do {
       r \<leftarrow> snd c;
       st \<leftarrow> wobjs_step (decWeak W r) st;
       Some (wset i (0, snd c) st)
     } else Some st
   }"

subsection \<open>Comparison of two weak pointers\<close>

text \<open>The short circuits decide whether an unset \<open>m_refs\<close> is read.\<close>

definition wp_eq :: "weak_cell \<Rightarrow> weak_cell \<Rightarrow> bool option" where
  "wp_eq a b = (if fst a = fst b then do { r \<leftarrow> snd a; q \<leftarrow> snd b; Some (r = q) } else Some False)"

definition wp_gt :: "weak_cell \<Rightarrow> weak_cell \<Rightarrow> bool option" where
  "wp_gt a b = (if fst a = fst b then do { r \<leftarrow> snd a; q \<leftarrow> snd b; Some (r > q) } else Some (fst a > fst b))"

definition wp_lt :: "weak_cell \<Rightarrow> weak_cell \<Rightarrow> bool option" where
  "wp_lt a b = (if fst a = fst b then do { r \<leftarrow> snd a; q \<leftarrow> snd b; Some (r < q) } else Some (fst a < fst b))"

definition wp_ne :: "weak_cell \<Rightarrow> weak_cell \<Rightarrow> bool option" where
  "wp_ne a b = do { r \<leftarrow> snd a; q \<leftarrow> snd b; Some (r \<noteq> q) }"

definition wp_le :: "weak_cell \<Rightarrow> weak_cell \<Rightarrow> bool option" where
  "wp_le a b = map_option Not (wp_gt a b)"

definition wp_ge :: "weak_cell \<Rightarrow> weak_cell \<Rightarrow> bool option" where
  "wp_ge a b = map_option Not (wp_lt a b)"

subsection \<open>Moving references between arrays\<close>

text \<open>
  \<open>ReferenceMover::move_references\<close>: the cells are moved as raw memory, then \<open>renameRefs\<close>
  (outside the repository) calls the renamer for the indices it chooses; the renamer names the
  object of the moved cell, the old and the new position.
\<close>

definition move_cells :: "nat \<Rightarrow> nat \<Rightarrow> nat \<Rightarrow> 'c list \<Rightarrow> 'c list option" where
  "move_cells d s n cs = (if d + n \<le> length cs \<and> s + n \<le> length cs
     then Some (take d cs @ take n (drop s cs) @ drop (d + n) cs) else None)"

definition move_references ::
    "(nat \<Rightarrow> nat list) \<Rightarrow> ('c \<Rightarrow> ptr) \<Rightarrow> nat \<Rightarrow> nat \<Rightarrow> nat \<Rightarrow> 'c list \<Rightarrow> ('c list \<times> (ptr \<times> nat \<times> nat) list) option" where
  "move_references renameRefs get d s n cs = do {
     cs \<leftarrow> move_cells d s n cs;
     Some (cs, map (\<lambda>i. (get (cs ! (d + i)), s + i, d + i)) (renameRefs n))
   }"

subsection \<open>Lemmas\<close>

lemma move_cells_nth:
  assumes "move_cells d s n cs = Some cs'" "i < n"
  shows "cs' ! (d + i) = cs ! (s + i)"
proof -
  have "d + n \<le> length cs" "s + n \<le> length cs" and cs': "cs' = take d cs @ take n (drop s cs) @ drop (d + n) cs"
    using assms(1) by (auto simp: move_cells_def split: if_splits)
  then show ?thesis using assms(2) splice_nth [of d n cs s cs "d + i"] by simp
qed

lemma wp_order_total:
  assumes "snd a = Some r" "snd b = Some q"
  shows "wp_lt a b = Some (fst a < fst b \<or> fst a = fst b \<and> r < q)"
    "wp_gt a b = wp_lt b a" "wp_eq a b = Some (a = b)" "wp_ne a b = Some (r \<noteq> q)"
  using assms by (cases a; cases b; auto simp: wp_lt_def wp_gt_def wp_eq_def wp_ne_def)+

subsection \<open>Properties\<close>

text \<open>Clearing a copy of a weak pointer drops its weak reference and nulls its object pointer but
  keeps its counter block, so that afterwards the copy and the original are neither equal nor
  unequal: \<open>==\<close> compares both members, \<open>!=\<close> only the counter block.\<close>

lemma wp_clear_compare:
  assumes "wps st i = Some (p, Some r)" and "p \<noteq> 0" and "wps st j = Some (p, Some r)" and "i \<noteq> j"
    and "decWeak W r (objs st) = Some h"
  shows "\<exists>st' a b. wp_clear W j st = Some st' \<and> objs st' = h \<and> wps st' i = Some a \<and> wps st' j = Some b \<and>
    wp_eq a b = Some False \<and> wp_ne a b = Some False"
  using assms by (simp add: wp_clear_def wobjs_step_def wset_def wp_eq_def wp_ne_def)

theorem wp_clear_compare_witness:
  "\<exists>st' :: nat wp_state. \<exists>a b. wp_clear \<lparr>createWeak = (\<lambda>_ h. Some (7, h + 1)), incWeak = (\<lambda>_ h. Some (h + 1)),
      decWeak = (\<lambda>_ h. Some (h - 1)), attemptIncStrong = (\<lambda>_ h. Some (False, h))\<rparr> 2
      \<lparr>objs = 2, sps = Map.empty, wps = [1 \<mapsto> (5, Some 7), 2 \<mapsto> (5, Some 7)]\<rparr> = Some st' \<and>
     wps st' 1 = Some a \<and> wps st' 2 = Some b \<and> wp_eq a b = Some False \<and> wp_ne a b = Some False"
  (is "\<exists>st' a b. wp_clear ?W 2 ?st = _ st' \<and> _ st' a b")
proof -
  have "wps ?st 1 = Some (5, Some 7)" "(5 :: ptr) \<noteq> 0" "wps ?st 2 = Some (5, Some 7)" "(1 :: nat) \<noteq> 2"
    "decWeak ?W 7 (objs ?st) = Some 1"
    by simp_all
  from wp_clear_compare [OF this] show ?thesis by blast
qed

text \<open>Promotion gives a strong pointer to the object exactly when the counter block grants a strong
  reference, and the reference it grants is the only one taken.\<close>

lemma wp_promote_result:
  assumes "wps st i = Some (p, Some r)" "p \<noteq> 0" "attemptIncStrong W r (objs st) = Some (ok, h)"
  shows "\<exists>st'. wp_promote W i j st = Some st' \<and> objs st' = h \<and> sps st' j = Some (if ok then p else 0) \<and> wps st' = wps st"
  using assms by (simp add: wp_promote_def)

text \<open>A cell made from a null pointer has no counter block, and comparing two such cells reads it.\<close>

lemma wp_null_compare:
  "wp_from_ptr W i 0 st = Some (wset i (0, None) st)" "wp_eq (0, None) (0, None) = None"
  by (simp_all add: wp_from_ptr_def wp_eq_def)

text \<open>Self-assignment keeps the cell and leaves the counters balanced.\<close>

lemma wp_self_assign:
  assumes "wps st i = Some (p, Some r)" "p \<noteq> 0" "incWeak W r (objs st) = Some h" "decWeak W r h = Some (objs st)"
  shows "wp_assign W i i st = Some (st\<lparr>objs := objs st, wps := (wps st)(i \<mapsto> (p, Some r))\<rparr>)"
  using assms by (simp add: wp_assign_def if_cell_def wobjs_step_def wset_def)

text \<open>The renamer sees, for each cell moved, the object it holds.\<close>

lemma move_references_names:
  assumes "move_references rn get d s n cs = Some (cs', ren)" "set (rn n) \<subseteq> {..<n}"
  shows "ren = map (\<lambda>i. (get (cs ! (s + i)), s + i, d + i)) (rn n)"
proof -
  have m: "move_cells d s n cs = Some cs'" and ren: "ren = map (\<lambda>i. (get (cs' ! (d + i)), s + i, d + i)) (rn n)"
    using assms(1) by (auto simp: move_references_def Option.bind_eq_Some_conv)
  have "cs' ! (d + i) = cs ! (s + i)" if "i \<in> set (rn n)" for i
    using that assms(2) by (intro move_cells_nth [OF m]) auto
  then show ?thesis unfolding ren by (intro map_cong) simp_all
qed

end
