(* ===== verification/Bit_Sets.thy ===== *)
theory Bit_Sets
  imports Cam_Prelude
begin

text \<open>
  Bit sets of the platform headers: \<open>BitSet32\<close> of \<open>utils/BitSet.h\<close>, whose bit 0 is the
  highest bit of the word, and the bit masks of \<open>cutils/bitops.h\<close>, arrays of words whose bit 0
  is the lowest bit of the first word. Both are related to sets of numbers. The compiler's
  counting builtins are written out over the bits; \<open>clz\<close> and \<open>ctz\<close> of 0 are undefined (None).
\<close>

type_synonym bitset = "32 word"

definition popcount :: "32 word \<Rightarrow> nat" where
  "popcount v = length (filter (bit v) [0..<32])"

definition clz :: "32 word \<Rightarrow> nat option" where
  "clz v = find (\<lambda>n. bit v (31 - n)) [0..<32]"

definition ctz :: "32 word \<Rightarrow> nat option" where
  "ctz v = find (bit v) [0..<32]"

subsection \<open>BitSet32\<close>

definition valueForBit :: "nat \<Rightarrow> 32 word" where
  "valueForBit n = drop_bit n 0x80000000"

definition bs_new :: bitset where
  "bs_new = 0"

definition bs_clear :: "bitset \<Rightarrow> bitset" where
  "bs_clear v = 0"

definition bs_count :: "bitset \<Rightarrow> nat" where
  "bs_count v = popcount v"

definition bs_isEmpty :: "bitset \<Rightarrow> bool" where
  "bs_isEmpty v \<longleftrightarrow> v = 0"

definition bs_isFull :: "bitset \<Rightarrow> bool" where
  "bs_isFull v \<longleftrightarrow> v = 0xffffffff"

definition bs_hasBit :: "bitset \<Rightarrow> nat \<Rightarrow> bool" where
  "bs_hasBit v n \<longleftrightarrow> v AND valueForBit n \<noteq> 0"

definition bs_markBit :: "bitset \<Rightarrow> nat \<Rightarrow> bitset" where
  "bs_markBit v n = v OR valueForBit n"

definition bs_clearBit :: "bitset \<Rightarrow> nat \<Rightarrow> bitset" where
  "bs_clearBit v n = v AND NOT (valueForBit n)"

definition bs_firstMarkedBit :: "bitset \<Rightarrow> nat option" where
  "bs_firstMarkedBit v = clz v"

definition bs_firstUnmarkedBit :: "bitset \<Rightarrow> nat option" where
  "bs_firstUnmarkedBit v = clz (NOT v)"

definition bs_lastMarkedBit :: "bitset \<Rightarrow> nat option" where
  "bs_lastMarkedBit v = map_option (\<lambda>n. 31 - n) (ctz v)"

definition bs_clearFirstMarkedBit :: "bitset \<Rightarrow> (nat \<times> bitset) option" where
  "bs_clearFirstMarkedBit v = map_option (\<lambda>n. (n, bs_clearBit v n)) (bs_firstMarkedBit v)"

definition bs_markFirstUnmarkedBit :: "bitset \<Rightarrow> (nat \<times> bitset) option" where
  "bs_markFirstUnmarkedBit v = map_option (\<lambda>n. (n, bs_markBit v n)) (bs_firstUnmarkedBit v)"

definition bs_clearLastMarkedBit :: "bitset \<Rightarrow> (nat \<times> bitset) option" where
  "bs_clearLastMarkedBit v = map_option (\<lambda>n. (n, bs_clearBit v n)) (bs_lastMarkedBit v)"

definition bs_getIndexOfBit :: "bitset \<Rightarrow> nat \<Rightarrow> nat" where
  "bs_getIndexOfBit v n = popcount (v AND NOT (drop_bit n 0xffffffff))"

definition bs_eq :: "bitset \<Rightarrow> bitset \<Rightarrow> bool" where
  "bs_eq v w \<longleftrightarrow> v = w"

definition bs_and :: "bitset \<Rightarrow> bitset \<Rightarrow> bitset" where
  "bs_and v w = v AND w"

definition bs_or :: "bitset \<Rightarrow> bitset \<Rightarrow> bitset" where
  "bs_or v w = v OR w"

subsection \<open>Bit masks\<close>

definition BITS_TO_WORDS :: "nat \<Rightarrow> nat" where
  "BITS_TO_WORDS x = (x + 32 - 1) div 32"

definition BIT_IN_WORD :: "nat \<Rightarrow> nat" where
  "BIT_IN_WORD x = x mod 32"

definition BIT_WORD :: "nat \<Rightarrow> nat" where
  "BIT_WORD x = x div 32"

definition BIT_MASK :: "nat \<Rightarrow> 32 word" where
  "BIT_MASK x = push_bit (BIT_IN_WORD x) 1"

definition bitmask_init :: "32 word list \<Rightarrow> nat \<Rightarrow> 32 word list option" where
  "bitmask_init bitmask num_bits =
     memcpy bitmask 0 (replicate (BITS_TO_WORDS num_bits) 0) 0 (int (BITS_TO_WORDS num_bits))"

text \<open>The loop of \<open>bitmask_ffz\<close> from word \<open>i\<close>: the first word with a zero bit decides.\<close>

function bitmask_ffz_from :: "32 word list \<Rightarrow> nat \<Rightarrow> nat \<Rightarrow> int option" where
  "bitmask_ffz_from bitmask num_bits i =
     (if i < BITS_TO_WORDS num_bits then do {
        w \<leftarrow> rd bitmask (int i);
        case ctz (NOT w) of
          Some b \<Rightarrow> Some (if 32 * i + b \<ge> num_bits then - 1 else int (32 * i + b))
        | None \<Rightarrow> bitmask_ffz_from bitmask num_bits (i + 1)
      } else Some (- 1))"
  by pat_completeness auto
termination
  by (relation "measure (\<lambda>(m, n, i). BITS_TO_WORDS n - i)") auto

declare bitmask_ffz_from.simps [simp del]

definition bitmask_ffz :: "32 word list \<Rightarrow> nat \<Rightarrow> int option" where
  "bitmask_ffz bitmask num_bits = bitmask_ffz_from bitmask num_bits 0"

definition bitmask_weight :: "32 word list \<Rightarrow> nat \<Rightarrow> nat option" where
  "bitmask_weight bitmask num_bits =
     for_loop 0 (int (BITS_TO_WORDS num_bits)) (\<lambda>i weight. do { w \<leftarrow> rd bitmask i; Some (weight + popcount w) }) 0"

definition bitmask_set :: "32 word list \<Rightarrow> nat \<Rightarrow> 32 word list option" where
  "bitmask_set bitmask b = do {
     w \<leftarrow> rd bitmask (int (BIT_WORD b));
     wr bitmask (int (BIT_WORD b)) (w OR BIT_MASK b)
   }"

definition bitmask_clear :: "32 word list \<Rightarrow> nat \<Rightarrow> 32 word list option" where
  "bitmask_clear bitmask b = do {
     w \<leftarrow> rd bitmask (int (BIT_WORD b));
     wr bitmask (int (BIT_WORD b)) (w AND NOT (BIT_MASK b))
   }"

definition bitmask_test :: "32 word list \<Rightarrow> nat \<Rightarrow> bool option" where
  "bitmask_test bitmask b = do { w \<leftarrow> rd bitmask (int (BIT_WORD b)); Some (w AND BIT_MASK b \<noteq> 0) }"

subsection \<open>Sets\<close>

definition bs_set :: "bitset \<Rightarrow> nat set" where
  "bs_set v = {n. n < 32 \<and> bit v (31 - n)}"

lemma bit_single: "bit (push_bit i (1 :: 32 word)) j = (i = j \<and> j < 32)"
  by (auto simp: bit_push_bit_iff bit_1_iff simp del: push_bit_of_1)

lemma valueForBit_bit: "n < 32 \<Longrightarrow> valueForBit n = push_bit (31 - n) 1"
proof (rule bit_word_eqI)
  fix k
  assume n: "n < 32" "k < LENGTH(32)"
  have "bit (2 ^ 31 :: 32 word) j \<longleftrightarrow> j = 31" for j unfolding bit_exp_iff by auto
  then have "bit (0x80000000 :: 32 word) j \<longleftrightarrow> j = 31" for j by simp
  then have "bit (valueForBit n) k \<longleftrightarrow> n + k = 31" by (simp only: valueForBit_def bit_drop_bit_eq comp_def)
  moreover have "n + k = 31 \<longleftrightarrow> 31 - n = k" using n(1) by arith
  ultimately show "bit (valueForBit n) k \<longleftrightarrow> bit (push_bit (31 - n) (1 :: 32 word)) k" using n(2) by (simp only: bit_single) simp
qed

lemma and_single: "i < 32 \<Longrightarrow> (v AND push_bit i 1 \<noteq> 0) = bit (v :: 32 word) i"
  by (metis and_exp_eq_0_iff_not_bit push_bit_of_1)

lemma hasBit_iff: "n < 32 \<Longrightarrow> bs_hasBit v n = (n \<in> bs_set v)"
  by (simp add: bs_hasBit_def valueForBit_bit and_single bs_set_def del: push_bit_of_1)

lemma bs_set_ops:
  "bs_set (bs_clear v) = {}" "bs_set bs_new = {}" "bs_set (bs_and v w) = bs_set v \<inter> bs_set w"
  "bs_set (bs_or v w) = bs_set v \<union> bs_set w"
  "n < 32 \<Longrightarrow> bs_set (bs_markBit v n) = insert n (bs_set v)"
  "n < 32 \<Longrightarrow> bs_set (bs_clearBit v n) = bs_set v - {n}"
proof -
  show "n < 32 \<Longrightarrow> bs_set (bs_markBit v n) = insert n (bs_set v)"
    by (auto simp: bs_set_def bs_markBit_def valueForBit_bit bit_or_iff bit_single simp del: push_bit_of_1)
  show "n < 32 \<Longrightarrow> bs_set (bs_clearBit v n) = bs_set v - {n}"
    by (auto simp: bs_set_def bs_clearBit_def valueForBit_bit bit_and_iff bit_not_iff bit_single simp del: push_bit_of_1)
qed (auto simp: bs_set_def bs_clear_def bs_new_def bs_and_def bs_or_def bit_and_iff bit_or_iff)

lemma popcount_card: "popcount v = card {i. i < 32 \<and> bit v i}"
proof -
  have "popcount v = card (set (filter (bit v) [0..<32]))" unfolding popcount_def
    by (rule distinct_card [symmetric]) simp
  also have "set (filter (bit v) [0..<32]) = {i. i < 32 \<and> bit v i}" by auto
  finally show ?thesis .
qed

lemma card_reverse: "card {n. n < (32 :: nat) \<and> P (31 - n)} = card {i. i < 32 \<and> P i}"
proof (rule bij_betw_same_card [of "\<lambda>n. 31 - n"])
  show "bij_betw (\<lambda>n. 31 - n) {n. n < 32 \<and> P (31 - n)} {i. i < 32 \<and> P i}"
    by (rule bij_betw_byWitness [of _ "\<lambda>n. 31 - n"]) auto
qed

lemma count_card: "bs_count v = card (bs_set v)"
  unfolding bs_count_def popcount_card bs_set_def card_reverse ..

lemma find_upt_Some: "find P [0..<n] = Some k \<longleftrightarrow> k < n \<and> P k \<and> (\<forall>j < k. \<not> P j)"
  by (auto simp: find_Some_iff)

lemma find_upt_None: "find P [0..<n] = None \<longleftrightarrow> (\<forall>j < n. \<not> P j)"
  by (auto simp: find_None_iff)

lemma first_marked: "bs_firstMarkedBit v = Some n \<longleftrightarrow> n \<in> bs_set v \<and> (\<forall>m \<in> bs_set v. n \<le> m)"
  unfolding bs_firstMarkedBit_def clz_def find_upt_Some bs_set_def
  by (auto simp: Ball_def) (metis leD less_trans not_le)+

lemma first_unmarked: "bs_firstUnmarkedBit v = Some n \<longleftrightarrow> n < 32 \<and> n \<notin> bs_set v \<and> (\<forall>m < n. m \<in> bs_set v)"
  by (auto simp: bs_firstUnmarkedBit_def clz_def find_upt_Some bs_set_def bit_not_iff)

lemma last_marked: "bs_lastMarkedBit v = Some n \<longleftrightarrow> n \<in> bs_set v \<and> (\<forall>m \<in> bs_set v. m \<le> n)"
proof -
  have "bs_lastMarkedBit v = Some n \<longleftrightarrow> (\<exists>k. n = 31 - k \<and> k < 32 \<and> bit v k \<and> (\<forall>j < k. \<not> bit v j))"
    by (auto simp: bs_lastMarkedBit_def ctz_def find_upt_Some)
  also have "\<dots> \<longleftrightarrow> n < 32 \<and> bit v (31 - n) \<and> (\<forall>j < 31 - n. \<not> bit v j)"
  proof
    assume "n < 32 \<and> bit v (31 - n) \<and> (\<forall>j < 31 - n. \<not> bit v j)"
    then show "\<exists>k. n = 31 - k \<and> k < 32 \<and> bit v k \<and> (\<forall>j < k. \<not> bit v j)" by (intro exI [of _ "31 - n"]) auto
  qed auto
  also have "\<dots> \<longleftrightarrow> n \<in> bs_set v \<and> (\<forall>m \<in> bs_set v. m \<le> n)"
  proof -
    have "(\<forall>j < 31 - n. \<not> bit v j) \<longleftrightarrow> (\<forall>m \<in> bs_set v. m \<le> n)" if "n < 32"
    proof
      assume *: "\<forall>j < 31 - n. \<not> bit v j"
      show "\<forall>m \<in> bs_set v. m \<le> n"
      proof (rule ballI, rule ccontr)
        fix m assume "m \<in> bs_set v" "\<not> m \<le> n"
        then have "31 - m < 31 - n" "bit v (31 - m)" by (auto simp: bs_set_def)
        then show False using * by blast
      qed
    next
      assume *: "\<forall>m \<in> bs_set v. m \<le> n"
      show "\<forall>j < 31 - n. \<not> bit v j"
      proof (intro allI impI notI)
        fix j assume j: "j < 31 - n" "bit v j"
        then have "31 - j \<in> bs_set v" by (simp add: bs_set_def)
        then show False using * j(1) by auto
      qed
    qed
    then show ?thesis by (auto simp: bs_set_def)
  qed
  finally show ?thesis .
qed

lemma index_card: "n < 32 \<Longrightarrow> bs_getIndexOfBit v n = card {m \<in> bs_set v. m < n}"
proof -
  assume n: "n < 32"
  have full: "bit (drop_bit n (0xffffffff :: 32 word)) i \<longleftrightarrow> i + n < 32" for i
  proof -
    have m: "(0xffffffff :: 32 word) = - 1" by simp
    show ?thesis unfolding m bit_drop_bit_eq comp_def bit_minus_1_iff possible_bit_word by (simp add: add.commute numeral_eq_Suc)
  qed
  have "bs_getIndexOfBit v n = card {i. i < 32 \<and> bit v i \<and> \<not> i + n < 32}"
    unfolding bs_getIndexOfBit_def popcount_card
    by (rule arg_cong [where f = card]) (auto simp: bit_and_iff bit_not_iff full)
  also have "\<dots> = card {m. m < 32 \<and> bit v (31 - m) \<and> \<not> (31 - m) + n < 32}"
    using card_reverse [of "\<lambda>i. bit v i \<and> \<not> i + n < 32"] by simp
  also have "{m. m < 32 \<and> bit v (31 - m) \<and> \<not> (31 - m) + n < 32} = {m \<in> bs_set v. m < n}"
    by (auto simp: bs_set_def)
  finally show ?thesis .
qed


subsection \<open>Bit masks as sets\<close>

definition bm_set :: "32 word list \<Rightarrow> nat set" where
  "bm_set m = {b. b < 32 * length m \<and> bit (m ! (b div 32)) (b mod 32)}"

lemma BIT_MASK_bit: "bit (BIT_MASK b) j = (j = b mod 32)"
proof -
  have "b mod 32 < 32" by simp
  then show ?thesis unfolding BIT_MASK_def BIT_IN_WORD_def using bit_single [of "b mod 32" j] by auto
qed

lemma bitmask_test_iff: "b < 32 * length m \<Longrightarrow> bitmask_test m b = Some (b \<in> bm_set m)"
proof -
  assume b: "b < 32 * length m"
  then have i: "b div 32 < length m" by (simp add: div_less_iff_less_mult)
  have "(m ! (b div 32) AND BIT_MASK b \<noteq> 0) = bit (m ! (b div 32)) (b mod 32)"
    unfolding BIT_MASK_def BIT_IN_WORD_def by (rule and_single) simp
  then show ?thesis using b i by (simp add: bitmask_test_def BIT_WORD_def bm_set_def)
qed

lemma bitmask_set_insert:
  assumes "b < 32 * length m"
  shows "\<exists>m'. bitmask_set m b = Some m' \<and> length m' = length m \<and> bm_set m' = insert b (bm_set m)"
proof -
  have i: "b div 32 < length m" using assms by (simp add: div_less_iff_less_mult)
  let ?m = "m[b div 32 := m ! (b div 32) OR BIT_MASK b]"
  have "bit (?m ! (c div 32)) (c mod 32) = (bit (m ! (c div 32)) (c mod 32) \<or> c = b)" if "c div 32 < length m" for c
    using that i BIT_MASK_bit [of b "c mod 32"]
    by (cases "c div 32 = b div 32") (auto simp: bit_or_iff, metis div_mult_mod_eq)
  then have "bm_set ?m = insert b (bm_set m)" using assms
    by (auto simp: bm_set_def div_less_iff_less_mult mult.commute)
  then show ?thesis using i by (simp add: bitmask_set_def BIT_WORD_def)
qed

lemma bitmask_clear_remove:
  assumes "b < 32 * length m"
  shows "\<exists>m'. bitmask_clear m b = Some m' \<and> length m' = length m \<and> bm_set m' = bm_set m - {b}"
proof -
  have i: "b div 32 < length m" using assms by (simp add: div_less_iff_less_mult)
  let ?m = "m[b div 32 := m ! (b div 32) AND NOT (BIT_MASK b)]"
  have "bit (?m ! (c div 32)) (c mod 32) = (bit (m ! (c div 32)) (c mod 32) \<and> c \<noteq> b)" if "c div 32 < length m" for c
    using that i BIT_MASK_bit [of b "c mod 32"]
    by (cases "c div 32 = b div 32") (auto simp: bit_and_iff bit_not_iff, metis div_mult_mod_eq)
  then have "bm_set ?m = bm_set m - {b}"
    by (auto simp: bm_set_def div_less_iff_less_mult mult.commute)
  then show ?thesis using i by (simp add: bitmask_clear_def BIT_WORD_def)
qed

lemma bitmask_ffz_from_correct:
  assumes "BITS_TO_WORDS n \<le> length m" and "\<And>b. b < 32 * i \<Longrightarrow> b \<in> bm_set m"
  shows "bitmask_ffz_from m n i = Some (if \<exists>b < n. b \<notin> bm_set m then int (LEAST b. b \<notin> bm_set m) else - 1)"
  using assms
proof (induction m n i rule: bitmask_ffz_from.induct)
  case (1 m n i)
  have cover: "n \<le> 32 * BITS_TO_WORDS n" by (simp add: BITS_TO_WORDS_def)
  show ?case
  proof (cases "i < BITS_TO_WORDS n")
    case False
    then have "n \<le> 32 * i" using cover by simp
    then have "\<not> (\<exists>b < n. b \<notin> bm_set m)" using "1.prems"(2) by (meson less_le_trans)
    then show ?thesis using False by (simp add: bitmask_ffz_from.simps)
  next
    case True
    then have i: "i < length m" using "1.prems"(1) by simp
    show ?thesis
    proof (cases "ctz (NOT (m ! i))")
      case None
      then have all: "bit (m ! i) j" if "j < 32" for j
        using that by (auto simp: ctz_def find_upt_None bit_not_iff)
      have "b \<in> bm_set m" if "b < 32 * (i + 1)" for b
      proof (cases "b < 32 * i")
        case False
        then have "b div 32 = i" using that by (intro div_nat_eqI) auto
        then show ?thesis using all [of "b mod 32"] i that by (simp add: bm_set_def)
      qed (use "1.prems"(2) in simp)
      then show ?thesis using "1.IH" [OF True _ None] True i None "1.prems"(1)
        by (simp add: bitmask_ffz_from.simps [of m n i])
    next
      case (Some k)
      then have k: "k < 32" "\<not> bit (m ! i) k" "\<And>j. j < k \<Longrightarrow> bit (m ! i) j"
        by (auto simp: ctz_def find_upt_Some bit_not_iff)
      have below: "b \<in> bm_set m" if "b < 32 * i + k" for b
      proof (cases "b < 32 * i")
        case False
        then have "b div 32 = i" using that k(1) by (intro div_nat_eqI) auto
        moreover have "b mod 32 < k" using that calculation mult_div_mod_eq [of 32 b] by simp
        ultimately show ?thesis using k(3) i that k(1) by (simp add: bm_set_def)
      qed (use "1.prems"(2) in simp)
      have "32 * i + k \<notin> bm_set m" using k(1,2) by (simp add: bm_set_def)
      then have least: "(LEAST b. b \<notin> bm_set m) = 32 * i + k"
        using below by (intro Least_equality) (auto simp: not_less [symmetric])
      have "(\<exists>b < n. b \<notin> bm_set m) \<longleftrightarrow> 32 * i + k < n"
        using below \<open>32 * i + k \<notin> bm_set m\<close> by (meson le_less_trans not_less)
      then show ?thesis using True i Some least by (simp add: bitmask_ffz_from.simps [of m n i])
    qed
  qed
qed

subsection \<open>Properties\<close>

text \<open>C22: a \<open>BitSet32\<close> behaves as a set of numbers below 32: marking inserts, clearing removes, the
  operators are intersection and union, the count is the number of elements, the first and last
  marked bits are the least and greatest elements, and the index of a bit is the number of smaller
  elements.\<close>

theorem bitset32_refines_set:
  assumes "n < 32"
  shows "bs_set (bs_markBit v n) = insert n (bs_set v) \<and> bs_set (bs_clearBit v n) = bs_set v - {n} \<and>
    bs_hasBit v n = (n \<in> bs_set v) \<and> bs_set (bs_and v w) = bs_set v \<inter> bs_set w \<and>
    bs_set (bs_or v w) = bs_set v \<union> bs_set w \<and> bs_count v = card (bs_set v) \<and>
    (bs_firstMarkedBit v = Some n) = (n \<in> bs_set v \<and> bs_set v \<inter> {..<n} = {}) \<and>
    (bs_lastMarkedBit v = Some n) = (n \<in> bs_set v \<and> bs_set v \<subseteq> {..n}) \<and>
    bs_getIndexOfBit v n = card (bs_set v \<inter> {..<n})"
proof -
  have "{m \<in> bs_set v. m < n} = bs_set v \<inter> {..<n}" by auto
  then show ?thesis
    using assms bs_set_ops(3,4) [of v w] bs_set_ops(5,6) [OF assms, of v] hasBit_iff [OF assms, of v] count_card [of v]
      first_marked [of v n] last_marked [of v n] index_card [OF assms, of v]
    by (auto simp: not_less)
qed

theorem bitset32_refines_set_witness:
  "bs_getIndexOfBit 0xC0000000 2 = card (bs_set 0xC0000000 \<inter> {..<2}) \<and>
   bs_set (bs_markBit 0 5) = insert 5 (bs_set 0)"
  using bitset32_refines_set [of 2 "0xC0000000" 0] bitset32_refines_set [of 5 0 0] by simp

text \<open>\<open>bitmask_ffz\<close> returns the least number that is not in the mask, or -1 if all \<open>num_bits\<close> are.\<close>

lemma bitmask_ffz_correct:
  assumes "BITS_TO_WORDS n \<le> length m"
  shows "bitmask_ffz m n = Some (if \<exists>b < n. b \<notin> bm_set m then int (LEAST b. b \<notin> bm_set m) else - 1)"
  using bitmask_ffz_from_correct [OF assms, of 0] by (simp add: bitmask_ffz_def)

end
