(* ===== verification/Platform_Codes.thy ===== *)
theory Platform_Codes
  imports Native_Window
begin

text \<open>
  The numeric conventions of the platform headers: the \<open>status_t\<close> codes of \<open>utils/Errors.h\<close>, the
  clocks and unit conversions of \<open>utils/Timers.h\<close> and the pixel formats of \<open>ui/PixelFormat.h\<close>.
  A \<open>nsecs_t\<close> is an int in the range of 64 bits: a product outside it is undefined behaviour of
  C and has the value None.
\<close>

subsection \<open>Status codes\<close>

text \<open>The \<open>errno\<close> numbers of Linux that \<open>Errors.h\<close> negates.\<close>

datatype errno_name = EPERM | ENOENT | EWOULDBLOCK | ENOMEM | EEXIST | ENODEV | EINVAL | EPIPE | ENOSYS
  | ENODATA | EBADMSG | EOVERFLOW | ETIMEDOUT

fun errno_number :: "errno_name \<Rightarrow> int" where
  "errno_number EPERM = 1"
| "errno_number ENOENT = 2"
| "errno_number EWOULDBLOCK = 11"
| "errno_number ENOMEM = 12"
| "errno_number EEXIST = 17"
| "errno_number ENODEV = 19"
| "errno_number EINVAL = 22"
| "errno_number EPIPE = 32"
| "errno_number ENOSYS = 38"
| "errno_number ENODATA = 61"
| "errno_number EBADMSG = 74"
| "errno_number EOVERFLOW = 75"
| "errno_number ETIMEDOUT = 110"

datatype status_name = OK | NO_ERROR | UNKNOWN_ERROR | NO_MEMORY | INVALID_OPERATION | BAD_VALUE | BAD_TYPE
  | NAME_NOT_FOUND | PERMISSION_DENIED | NO_INIT | ALREADY_EXISTS | DEAD_OBJECT | FAILED_TRANSACTION
  | JPARKS_BROKE_IT | BAD_INDEX | NOT_ENOUGH_DATA | WOULD_BLOCK | TIMED_OUT | UNKNOWN_TRANSACTION
  | FDS_NOT_ALLOWED

type_synonym status_t = "32 word"

text \<open>The enumerators as a \<open>status_t\<close> holds them.\<close>

fun status_code :: "status_name \<Rightarrow> status_t" where
  "status_code OK = 0"
| "status_code NO_ERROR = 0"
| "status_code UNKNOWN_ERROR = 0x80000000"
| "status_code NO_MEMORY = - word_of_int (errno_number ENOMEM)"
| "status_code INVALID_OPERATION = - word_of_int (errno_number ENOSYS)"
| "status_code BAD_VALUE = - word_of_int (errno_number EINVAL)"
| "status_code BAD_TYPE = 0x80000001"
| "status_code NAME_NOT_FOUND = - word_of_int (errno_number ENOENT)"
| "status_code PERMISSION_DENIED = - word_of_int (errno_number EPERM)"
| "status_code NO_INIT = - word_of_int (errno_number ENODEV)"
| "status_code ALREADY_EXISTS = - word_of_int (errno_number EEXIST)"
| "status_code DEAD_OBJECT = - word_of_int (errno_number EPIPE)"
| "status_code FAILED_TRANSACTION = 0x80000002"
| "status_code JPARKS_BROKE_IT = - word_of_int (errno_number EPIPE)"
| "status_code BAD_INDEX = - word_of_int (errno_number EOVERFLOW)"
| "status_code NOT_ENOUGH_DATA = - word_of_int (errno_number ENODATA)"
| "status_code WOULD_BLOCK = - word_of_int (errno_number EWOULDBLOCK)"
| "status_code TIMED_OUT = - word_of_int (errno_number ETIMEDOUT)"
| "status_code UNKNOWN_TRANSACTION = - word_of_int (errno_number EBADMSG)"
| "status_code FDS_NOT_ALLOWED = 0x80000007"

subsection \<open>Time\<close>

type_synonym nsecs_t = int

definition int64_ok :: "int \<Rightarrow> bool" where
  "int64_ok x \<longleftrightarrow> - (2 ^ 63) \<le> x \<and> x < 2 ^ 63"

definition nsecs_mul :: "nsecs_t \<Rightarrow> int \<Rightarrow> nsecs_t option" where
  "nsecs_mul v k = (if int64_ok (v * k) then Some (v * k) else None)"

definition seconds_to_nanoseconds :: "nsecs_t \<Rightarrow> nsecs_t option" where
  "seconds_to_nanoseconds secs = nsecs_mul secs 1000000000"

definition milliseconds_to_nanoseconds :: "nsecs_t \<Rightarrow> nsecs_t option" where
  "milliseconds_to_nanoseconds secs = nsecs_mul secs 1000000"

definition microseconds_to_nanoseconds :: "nsecs_t \<Rightarrow> nsecs_t option" where
  "microseconds_to_nanoseconds secs = nsecs_mul secs 1000"

definition nanoseconds_to_seconds :: "nsecs_t \<Rightarrow> nsecs_t" where
  "nanoseconds_to_seconds secs = cdiv secs 1000000000"

definition nanoseconds_to_milliseconds :: "nsecs_t \<Rightarrow> nsecs_t" where
  "nanoseconds_to_milliseconds secs = cdiv secs 1000000"

definition nanoseconds_to_microseconds :: "nsecs_t \<Rightarrow> nsecs_t" where
  "nanoseconds_to_microseconds secs = cdiv secs 1000"

definition s2ns :: "nsecs_t \<Rightarrow> nsecs_t option" where "s2ns v = seconds_to_nanoseconds v"
definition ms2ns :: "nsecs_t \<Rightarrow> nsecs_t option" where "ms2ns v = milliseconds_to_nanoseconds v"
definition us2ns :: "nsecs_t \<Rightarrow> nsecs_t option" where "us2ns v = microseconds_to_nanoseconds v"
definition ns2s :: "nsecs_t \<Rightarrow> nsecs_t" where "ns2s v = nanoseconds_to_seconds v"
definition ns2ms :: "nsecs_t \<Rightarrow> nsecs_t" where "ns2ms v = nanoseconds_to_milliseconds v"
definition ns2us :: "nsecs_t \<Rightarrow> nsecs_t" where "ns2us v = nanoseconds_to_microseconds v"

definition seconds :: "nsecs_t \<Rightarrow> nsecs_t option" where "seconds v = s2ns v"
definition milliseconds :: "nsecs_t \<Rightarrow> nsecs_t option" where "milliseconds v = ms2ns v"
definition microseconds :: "nsecs_t \<Rightarrow> nsecs_t option" where "microseconds v = us2ns v"

lemmas timer_defs = seconds_to_nanoseconds_def milliseconds_to_nanoseconds_def microseconds_to_nanoseconds_def
  nanoseconds_to_seconds_def nanoseconds_to_milliseconds_def nanoseconds_to_microseconds_def
  s2ns_def ms2ns_def us2ns_def ns2s_def ns2ms_def ns2us_def seconds_def milliseconds_def microseconds_def

datatype clock = SYSTEM_TIME_REALTIME | SYSTEM_TIME_MONOTONIC | SYSTEM_TIME_PROCESS | SYSTEM_TIME_THREAD
  | SYSTEM_TIME_BOOTTIME

fun clock_id :: "clock \<Rightarrow> int" where
  "clock_id SYSTEM_TIME_REALTIME = 0"
| "clock_id SYSTEM_TIME_MONOTONIC = 1"
| "clock_id SYSTEM_TIME_PROCESS = 2"
| "clock_id SYSTEM_TIME_THREAD = 3"
| "clock_id SYSTEM_TIME_BOOTTIME = 4"

subsection \<open>Pixel formats\<close>

datatype PixelFormat = PIXEL_FORMAT_UNKNOWN | PIXEL_FORMAT_NONE | PIXEL_FORMAT_CUSTOM | PIXEL_FORMAT_TRANSLUCENT
  | PIXEL_FORMAT_TRANSPARENT | PIXEL_FORMAT_OPAQUE | PIXEL_FORMAT_RGBA_8888 | PIXEL_FORMAT_RGBX_8888
  | PIXEL_FORMAT_RGB_888 | PIXEL_FORMAT_RGB_565 | PIXEL_FORMAT_BGRA_8888 | PIXEL_FORMAT_RGBA_5551
  | PIXEL_FORMAT_RGBA_4444

fun pixel_format_value :: "PixelFormat \<Rightarrow> int" where
  "pixel_format_value PIXEL_FORMAT_UNKNOWN = 0"
| "pixel_format_value PIXEL_FORMAT_NONE = 0"
| "pixel_format_value PIXEL_FORMAT_CUSTOM = - 4"
| "pixel_format_value PIXEL_FORMAT_TRANSLUCENT = - 3"
| "pixel_format_value PIXEL_FORMAT_TRANSPARENT = - 2"
| "pixel_format_value PIXEL_FORMAT_OPAQUE = - 1"
| "pixel_format_value PIXEL_FORMAT_RGBA_8888 = hal_pixel_format_value HAL_PIXEL_FORMAT_RGBA_8888"
| "pixel_format_value PIXEL_FORMAT_RGBX_8888 = hal_pixel_format_value HAL_PIXEL_FORMAT_RGBX_8888"
| "pixel_format_value PIXEL_FORMAT_RGB_888 = hal_pixel_format_value HAL_PIXEL_FORMAT_RGB_888"
| "pixel_format_value PIXEL_FORMAT_RGB_565 = hal_pixel_format_value HAL_PIXEL_FORMAT_RGB_565"
| "pixel_format_value PIXEL_FORMAT_BGRA_8888 = hal_pixel_format_value HAL_PIXEL_FORMAT_BGRA_8888"
| "pixel_format_value PIXEL_FORMAT_RGBA_5551 = 6"
| "pixel_format_value PIXEL_FORMAT_RGBA_4444 = 7"

subsection \<open>Lemmas\<close>

text \<open>Only \<open>OK\<close> and its synonym are not negative: \<open>status < 0\<close> is the test for an error.\<close>

lemma status_code_negative: "status_code n <s 0 \<longleftrightarrow> n \<noteq> OK \<and> n \<noteq> NO_ERROR"
  by (cases n) (simp_all add: word_sless_alt)

text \<open>Two names share a code exactly where the header says so.\<close>

lemma status_code_shared:
  "status_code m = status_code n \<longleftrightarrow> m = n \<or> {m, n} = {OK, NO_ERROR} \<or> {m, n} = {DEAD_OBJECT, JPARKS_BROKE_IT}"
  by (cases m; cases n) (simp_all add: doubleton_eq_iff)

text \<open>The two numberings of the real formats agree, also on the two that are not spelled alike.\<close>

lemma pixel_format_hal:
  "pixel_format_value PIXEL_FORMAT_RGBA_5551 = hal_pixel_format_value HAL_PIXEL_FORMAT_RGBA_5551 \<and>
   pixel_format_value PIXEL_FORMAT_RGBA_4444 = hal_pixel_format_value HAL_PIXEL_FORMAT_RGBA_4444"
  by simp

lemma cdiv_mult: "0 < k \<Longrightarrow> cdiv (v * k) k = v"
  by (simp add: cdiv_def abs_mult sgn_mult) (metis abs_mult_sgn mult.commute)

lemma nsecs_mul_cdiv: "0 < k \<Longrightarrow> map_option (\<lambda>t. cdiv t k) (nsecs_mul v k) = (if int64_ok (v * k) then Some v else None)"
  by (simp add: nsecs_mul_def cdiv_mult)

subsection \<open>Properties\<close>

text \<open>Converting seconds, milliseconds or microseconds to nanoseconds is defined on exactly the values
  whose result fits 64 bits, and converting back gives the value.\<close>

lemma timer_round_trip:
  "map_option ns2s (seconds v) = (if - 9223372036 \<le> v \<and> v \<le> 9223372036 then Some v else None) \<and>
   map_option ns2ms (milliseconds v) = (if - 9223372036854 \<le> v \<and> v \<le> 9223372036854 then Some v else None) \<and>
   map_option ns2us (microseconds v) = (if - 9223372036854775 \<le> v \<and> v \<le> 9223372036854775 then Some v else None)"
proof -
  have conv: "ns2s = (\<lambda>t. cdiv t 1000000000)" "ns2ms = (\<lambda>t. cdiv t 1000000)" "ns2us = (\<lambda>t. cdiv t 1000)"
    by (auto simp: fun_eq_iff timer_defs)
  have ok: "int64_ok (v * 1000000000) \<longleftrightarrow> - 9223372036 \<le> v \<and> v \<le> 9223372036"
    "int64_ok (v * 1000000) \<longleftrightarrow> - 9223372036854 \<le> v \<and> v \<le> 9223372036854"
    "int64_ok (v * 1000) \<longleftrightarrow> - 9223372036854775 \<le> v \<and> v \<le> 9223372036854775"
    by (auto simp: int64_ok_def)
  show ?thesis
    unfolding conv timer_defs
    by (simp only: nsecs_mul_cdiv ok zero_less_numeral simp_thms)
qed

end
