(* ===== verification/Flattening.thy ===== *)
theory Flattening
  imports Platform_Codes
begin

text \<open>
  \<open>utils/Flattenable.h\<close>: the cursor arithmetic of \<open>FlattenableUtils\<close>, the two protocols of objects
  that serialize themselves, as dictionaries of the member functions a class supplies, and
  \<open>LightFlattenablePod\<close>, the implementation for plain data. A pointer and a \<open>size_t\<close> are words of
  one width, any of the ABIs'; an object of plain data is given by its size and its bytes in memory.
  The locale \<open>pod\<close> is the contract between a plain type and the protocol.
\<close>

subsection \<open>FlattenableUtils\<close>

definition align :: "'a::len word \<Rightarrow> 'a word \<Rightarrow> 'a word" where
  "align n sz = (sz + (n - 1)) AND NOT (n - 1)"

text \<open>\<open>align\<close> of a pointer moves it and returns how far.\<close>

definition align_buffer :: "'a::len word \<Rightarrow> 'a word \<Rightarrow> 'a word \<times> 'a word" where
  "align_buffer n buffer = (let b = (buffer + (n - 1)) AND NOT (n - 1) in (b, b - buffer))"

definition advance :: "'a::len word \<Rightarrow> 'a word \<Rightarrow> 'a word \<Rightarrow> 'a word \<times> 'a word" where
  "advance buffer sz offset = (buffer + offset, sz - offset)"

text \<open>\<open>write\<close> and \<open>read\<close> of a value of \<open>n\<close> bytes at the cursor; the memory starts at address 0.\<close>

definition flat_write :: "nat \<Rightarrow> ('v \<Rightarrow> byte list) \<Rightarrow> mem \<Rightarrow> 'a::len word \<Rightarrow> 'a word \<Rightarrow> 'v
    \<Rightarrow> (mem \<times> 'a word \<times> 'a word) option" where
  "flat_write n enc m buffer sz value = do {
     m \<leftarrow> memcpy m (uint buffer) (enc value) 0 (int n);
     Some (m, advance buffer sz (of_nat n))
   }"

definition flat_read :: "nat \<Rightarrow> (byte list \<Rightarrow> 'v) \<Rightarrow> mem \<Rightarrow> 'a::len word \<Rightarrow> 'a word
    \<Rightarrow> ('v \<times> 'a word \<times> 'a word) option" where
  "flat_read n dec m buffer sz = do {
     bs \<leftarrow> memcpy (replicate n 0) 0 m (uint buffer) (int n);
     Some (dec bs, advance buffer sz (of_nat n))
   }"

subsection \<open>The protocols\<close>

text \<open>\<open>Flattenable\<close>: the object goes into a buffer and an array of file descriptors; the cursors are
  passed by reference, so each function returns them moved; \<open>'w\<close> is the type of pointers and sizes.\<close>

record ('t, 'w) flattenable =
  fl_getFlattenedSize :: "'t \<Rightarrow> 'w"
  fl_getFdCount :: "'t \<Rightarrow> 'w"
  fl_flatten :: "'t \<Rightarrow> mem \<Rightarrow> 'w \<Rightarrow> 'w \<Rightarrow> int list \<Rightarrow> 'w
    \<Rightarrow> (status_t \<times> mem \<times> 'w \<times> 'w \<times> int list \<times> 'w) option"
  fl_unflatten :: "'t \<Rightarrow> mem \<Rightarrow> 'w \<Rightarrow> 'w \<Rightarrow> int list \<Rightarrow> 'w
    \<Rightarrow> (status_t \<times> 't \<times> 'w \<times> 'w \<times> int list \<times> 'w) option"

text \<open>\<open>LightFlattenable\<close>: one buffer, whose start is passed by value.\<close>

record 't light_flattenable =
  lf_isFixedSize :: "'t \<Rightarrow> bool"
  lf_getFlattenedSize :: "'t \<Rightarrow> nat"
  lf_flatten :: "'t \<Rightarrow> mem \<Rightarrow> nat \<Rightarrow> (status_t \<times> mem) option"
  lf_unflatten :: "'t \<Rightarrow> mem \<Rightarrow> nat \<Rightarrow> (status_t \<times> 't) option"

definition LightFlattenablePod :: "nat \<Rightarrow> ('t \<Rightarrow> byte list) \<Rightarrow> (byte list \<Rightarrow> 't) \<Rightarrow> 't light_flattenable" where
  "LightFlattenablePod n enc dec =
     \<lparr>lf_isFixedSize = (\<lambda>_. True),
      lf_getFlattenedSize = (\<lambda>_. n),
      lf_flatten = (\<lambda>v buffer sz. if sz < n then Some (status_code NO_MEMORY, buffer)
         else do { m \<leftarrow> memcpy buffer 0 (enc v) 0 (int n); Some (status_code NO_ERROR, m) }),
      lf_unflatten = (\<lambda>_ buffer _. do {
         bs \<leftarrow> memcpy (replicate n 0) 0 buffer 0 (int n);
         Some (status_code NO_ERROR, dec bs) })\<rparr>"

subsection \<open>Lemmas\<close>

lemma align_zero [simp]: "align 1 sz = sz"
  by (simp add: align_def)

lemma align_multiple:
  fixes sz :: "'a::len word"
  assumes "k < LENGTH('a)"
  shows "2 ^ k dvd unat (align (2 ^ k) sz)"
proof -
  have "align (2 ^ k) sz = push_bit k (drop_bit k (sz + (2 ^ k - 1)))"
    by (simp add: align_def flip: mask_eq_exp_minus_1 bits_ident)
      (rule bit_word_eqI, auto simp: bit_simps)
  then have "align (2 ^ k) sz AND mask k = 0"
    by (simp add: take_bit_push_bit flip: take_bit_eq_mask)
  then have "take_bit k (align (2 ^ k) sz) = 0" by (simp add: take_bit_eq_mask)
  then have "take_bit k (unat (align (2 ^ k) sz)) = 0" by (metis unat_0 unsigned_take_bit_eq)
  then show ?thesis by (simp add: take_bit_eq_0_iff)
qed

text \<open>Advancing keeps the end of the buffer: \<open>buffer + size\<close> is the same address.\<close>

lemma advance_end: "fst (advance b s n) + snd (advance b s n) = b + s"
  by (simp add: advance_def)

lemma align_buffer_delta: "fst (align_buffer n b) = b + snd (align_buffer n b)" "fst (align_buffer n b) = align n b"
  by (simp_all add: align_buffer_def align_def Let_def)

lemma memcpy_read:
  assumes "p + n \<le> length m"
  shows "memcpy (replicate n x) 0 m (int p) (int n) = Some (take n (drop p m))"
  using assms by (simp add: memcpy_def)

lemma memcpy_back:
  assumes "memcpy m d src 0 (int n) = Some m'" "length src = n"
  shows "memcpy (replicate n x) 0 m' d (int n) = Some src"
proof -
  have "0 \<le> d" "d + int n \<le> int (length m)" using memcpy_SomeD [OF assms(1)] by auto
  moreover from this obtain p where p: "d = int p" using zero_le_imp_eq_int by auto
  moreover have "m' = take p m @ take n src @ drop (p + n) m" using assms(1) p
    by (simp add: memcpy_def nat_int_add split: if_splits)
  ultimately show ?thesis using assms(2) by (simp add: memcpy_def)
qed

subsection \<open>Plain data\<close>

text \<open>What the protocol needs of a plain type: objects have the size of the type, and copying the bytes
  of an object copies the object.\<close>

locale pod =
  fixes size_of :: nat and enc :: "'t \<Rightarrow> byte list" and dec :: "byte list \<Rightarrow> 't"
  assumes enc_length: "length (enc v) = size_of"
    and dec_enc: "dec (enc v) = v"
begin

lemma write_read:
  assumes "flat_write size_of enc m b s v = Some (m', b', s')"
  shows "flat_read size_of dec m' b s = Some (v, b', s') \<and> b' + s' = b + s"
  using assms memcpy_back [OF _ enc_length]
  by (auto simp: flat_write_def flat_read_def dec_enc advance_def Option.bind_eq_Some_conv)

lemma flatten_small: "sz < size_of \<Longrightarrow>
   lf_flatten (LightFlattenablePod size_of enc dec) v m sz = Some (status_code NO_MEMORY, m)"
  by (simp add: LightFlattenablePod_def)

lemma flatten_fits:
  assumes "size_of \<le> sz" "size_of \<le> length m"
  shows "lf_flatten (LightFlattenablePod size_of enc dec) v m sz = Some (status_code NO_ERROR, enc v @ drop size_of m)"
  using assms by (simp add: LightFlattenablePod_def memcpy_def enc_length)

lemma flatten_overrun:
  "size_of \<le> sz \<Longrightarrow> length m < size_of \<Longrightarrow> lf_flatten (LightFlattenablePod size_of enc dec) v m sz = None"
  by (simp add: LightFlattenablePod_def memcpy_def)

lemma unflatten_fits:
  assumes "size_of \<le> length m"
  shows "lf_unflatten (LightFlattenablePod size_of enc dec) w m sz = Some (status_code NO_ERROR, dec (take size_of m))"
  using assms by (simp add: LightFlattenablePod_def memcpy_def)

text \<open>\<open>unflatten\<close> does not look at the size it is given.\<close>

lemma unflatten_overread:
  "length m < size_of \<Longrightarrow> lf_unflatten (LightFlattenablePod size_of enc dec) w m sz = None"
  by (simp add: LightFlattenablePod_def memcpy_def)

lemma round_trip:
  assumes "size_of \<le> sz" "size_of \<le> length m"
  shows "\<exists>m'. lf_flatten (LightFlattenablePod size_of enc dec) v m sz = Some (status_code NO_ERROR, m') \<and>
    lf_unflatten (LightFlattenablePod size_of enc dec) w m' sz' = Some (status_code NO_ERROR, v)"
  using assms by (simp add: flatten_fits unflatten_fits enc_length dec_enc)

end

text \<open>A 32-bit integer is its four bytes in memory.\<close>

definition le_word :: "byte list \<Rightarrow> 32 word" where
  "le_word bs = ucast (bs ! 0) OR push_bit 8 (ucast (bs ! 1)) OR push_bit 16 (ucast (bs ! 2)) OR push_bit 24 (ucast (bs ! 3))"

lemma le_word_le_bytes: "le_word (le_bytes v @ bs) = v"
proof (rule bit_word_eqI)
  fix n assume "n < LENGTH(32)"
  then consider "n < 8" | "8 \<le> n" "n < 16" | "16 \<le> n" "n < 24" | "24 \<le> n" "n < 32" by fastforce
  then show "bit (le_word (le_bytes v @ bs)) n = bit v n"
    by cases (auto simp: le_word_def le_bytes_def bit_simps)
qed

interpretation int32_pod: pod 4 le_bytes le_word
  using le_word_le_bytes [of _ "[]"] by unfold_locales simp_all

end
