(* ===== verification/Type_Helpers.thy ===== *)
theory Type_Helpers
  imports Cam_Prelude
begin

text \<open>
  \<open>utils/TypeHelpers.h\<close>: the type traits, and the functions the platform's containers build,
  destroy, copy and move their elements with. An array is a list of cells, None is raw memory;
  constructing in a cell gives it a value, destroying makes it raw, and copying from raw memory is
  a fault. The pointers are indices into one array, as they are where the regions overlap.
\<close>

subsection \<open>Traits\<close>

datatype basic_type = TVoid | TBool | TChar | TUnsignedChar | TShort | TUnsignedShort | TInt | TUnsignedInt
  | TLong | TUnsignedLong | TLongLong | TUnsignedLongLong | TFloat | TDouble

text \<open>A type of the program: a basic one, a pointer, a pair of container entries, or another class
  with the traits declared for it.\<close>

record trait_set =
  trivial_ctor :: bool
  trivial_dtor :: bool
  trivial_copy :: bool
  trivial_move :: bool

datatype cpp_type = Basic basic_type | Pointer cpp_type | KeyValuePair cpp_type cpp_type | ClassType trait_set

definition no_traits :: trait_set where
  "no_traits = \<lparr>trivial_ctor = False, trivial_dtor = False, trivial_copy = False, trivial_move = False\<rparr>"

definition ANDROID_BASIC_TYPES_TRAITS :: trait_set where
  "ANDROID_BASIC_TYPES_TRAITS = \<lparr>trivial_ctor = True, trivial_dtor = True, trivial_copy = True, trivial_move = True\<rparr>"

fun is_pointer :: "cpp_type \<Rightarrow> bool" where
  "is_pointer (Pointer t) = True"
| "is_pointer _ = False"

text \<open>The \<open>trait_\<close> templates and \<open>traits\<close>, which adds that a pointer has all of them; a pair has
  a trait if both components have.\<close>

fun trait_of :: "cpp_type \<Rightarrow> trait_set" and traits :: "cpp_type \<Rightarrow> trait_set" where
  "trait_of (Basic b) = ANDROID_BASIC_TYPES_TRAITS"
| "trait_of (Pointer t) = no_traits"
| "trait_of (ClassType ts) = ts"
| "trait_of (KeyValuePair k v) =
     \<lparr>trivial_ctor = trivial_ctor (traits k) \<and> trivial_ctor (traits v),
      trivial_dtor = trivial_dtor (traits k) \<and> trivial_dtor (traits v),
      trivial_copy = trivial_copy (traits k) \<and> trivial_copy (traits v),
      trivial_move = trivial_move (traits k) \<and> trivial_move (traits v)\<rparr>"
| "traits t = (let r = trait_of t in
     \<lparr>trivial_ctor = is_pointer t \<or> trivial_ctor r, trivial_dtor = is_pointer t \<or> trivial_dtor r,
      trivial_copy = is_pointer t \<or> trivial_copy r, trivial_move = is_pointer t \<or> trivial_move r\<rparr>)"

subsection \<open>Order\<close>

definition strictly_order_type :: "('a \<Rightarrow> 'a \<Rightarrow> bool) \<Rightarrow> 'a \<Rightarrow> 'a \<Rightarrow> int" where
  "strictly_order_type lt lhs rhs = (if lt lhs rhs then 1 else 0)"

definition compare_type :: "('a \<Rightarrow> 'a \<Rightarrow> bool) \<Rightarrow> 'a \<Rightarrow> 'a \<Rightarrow> int" where
  "compare_type lt lhs rhs = strictly_order_type lt rhs lhs - strictly_order_type lt lhs rhs"

record ('k, 'v) key_value_pair =
  kv_key :: 'k
  kv_value :: 'v

definition kv_less :: "('k \<Rightarrow> 'k \<Rightarrow> bool) \<Rightarrow> ('k, 'v) key_value_pair \<Rightarrow> ('k, 'v) key_value_pair \<Rightarrow> bool" where
  "kv_less lt a b \<longleftrightarrow> strictly_order_type lt (kv_key a) (kv_key b) \<noteq> 0"

subsection \<open>Arrays of cells\<close>

type_synonym 'a cells = "'a option list"

definition construct_type :: "trait_set \<Rightarrow> 'a \<Rightarrow> nat \<Rightarrow> nat \<Rightarrow> 'a cells \<Rightarrow> 'a cells option" where
  "construct_type ts dflt p n cs =
     (if \<not> trivial_ctor ts then for_loop (int p) (int (p + n)) (\<lambda>i cs. wr cs i (Some dflt)) cs else Some cs)"

definition destroy_type :: "trait_set \<Rightarrow> nat \<Rightarrow> nat \<Rightarrow> 'a cells \<Rightarrow> 'a cells option" where
  "destroy_type ts p n cs =
     (if \<not> trivial_dtor ts then for_loop (int p) (int (p + n)) (\<lambda>i cs. wr cs i None) cs else Some cs)"

text \<open>One element copied: from a constructed cell to a cell in bounds.\<close>

definition copy_cell :: "nat \<Rightarrow> nat \<Rightarrow> 'a cells \<Rightarrow> 'a cells option" where
  "copy_cell d s cs = do { v \<leftarrow> rd cs (int s); v \<leftarrow> v; wr cs (int d) (Some v) }"

definition copy_type :: "trait_set \<Rightarrow> nat \<Rightarrow> nat \<Rightarrow> nat \<Rightarrow> 'a cells \<Rightarrow> 'a cells option" where
  "copy_type ts d s n cs =
     (if \<not> trivial_copy ts then for_loop 0 (int n) (\<lambda>i. copy_cell (d + nat i) (s + nat i)) cs
      else memcpy cs (int d) cs (int s) (int n))"

definition splat_type :: "trait_set \<Rightarrow> nat \<Rightarrow> 'a \<Rightarrow> nat \<Rightarrow> 'a cells \<Rightarrow> 'a cells option" where
  "splat_type ts p what n cs = for_loop (int p) (int (p + n)) (\<lambda>i cs. wr cs i (Some what)) cs"

text \<open>One element moved: copied, and destroyed where destruction does something.\<close>

definition move_cell :: "trait_set \<Rightarrow> nat \<Rightarrow> nat \<Rightarrow> 'a cells \<Rightarrow> 'a cells option" where
  "move_cell ts d s cs = do {
     cs \<leftarrow> copy_cell d s cs;
     if \<not> trivial_dtor ts then wr cs (int s) None else Some cs
   }"

fun move_down :: "trait_set \<Rightarrow> nat \<Rightarrow> nat \<Rightarrow> nat \<Rightarrow> 'a cells \<Rightarrow> 'a cells option" where
  "move_down ts d s 0 cs = Some cs"
| "move_down ts d s (Suc n) cs = do { cs \<leftarrow> move_cell ts (d + n) (s + n) cs; move_down ts d s n cs }"

fun move_up :: "trait_set \<Rightarrow> nat \<Rightarrow> nat \<Rightarrow> nat \<Rightarrow> 'a cells \<Rightarrow> 'a cells option" where
  "move_up ts d s 0 cs = Some cs"
| "move_up ts d s (Suc n) cs = do { cs \<leftarrow> move_cell ts d s cs; move_up ts (d + 1) (s + 1) n cs }"

text \<open>\<open>memmove\<close> reads the whole source before it writes, so the ranges may overlap.\<close>

definition memmove :: "'a cells \<Rightarrow> int \<Rightarrow> int \<Rightarrow> int \<Rightarrow> 'a cells option" where
  "memmove cs d s n = memcpy cs d cs s n"

definition move_forward_type :: "trait_set \<Rightarrow> nat \<Rightarrow> nat \<Rightarrow> nat \<Rightarrow> 'a cells \<Rightarrow> 'a cells option" where
  "move_forward_type ts d s n cs =
     (if (trivial_dtor ts \<and> trivial_copy ts) \<or> trivial_move ts
      then memmove cs (int d) (int s) (int n)
      else move_down ts d s n cs)"

definition move_backward_type :: "trait_set \<Rightarrow> nat \<Rightarrow> nat \<Rightarrow> nat \<Rightarrow> 'a cells \<Rightarrow> 'a cells option" where
  "move_backward_type ts d s n cs =
     (if (trivial_dtor ts \<and> trivial_copy ts) \<or> trivial_move ts
      then memmove cs (int d) (int s) (int n)
      else move_up ts d s n cs)"

subsection \<open>Hash codes\<close>

definition hash_int32 :: "32 word \<Rightarrow> 32 word" where
  "hash_int32 v = v"

definition hash_int64 :: "64 word \<Rightarrow> 32 word" where
  "hash_int64 v = ucast (drop_bit 32 v XOR v)"

subsection \<open>Lemmas\<close>

lemma compare_type_sign:
  assumes "\<And>x y. lt x y \<Longrightarrow> \<not> lt y x"
  shows "compare_type lt a b = (if lt a b then - 1 else if lt b a then 1 else 0)"
  using assms by (auto simp: compare_type_def strictly_order_type_def)

lemma move_cell_result:
  assumes "d < length cs" "s < length cs" "cs ! s = Some v" "\<not> trivial_dtor ts" "d \<noteq> s"
  shows "move_cell ts d s cs = Some (cs[d := Some v, s := None])"
  using assms by (simp add: move_cell_def copy_cell_def)

text \<open>Moving to higher addresses, from the end; moving to lower addresses, from the start.\<close>

lemma move_down_result:
  assumes "d + n \<le> length cs" "s < d" "\<And>k. k < n \<Longrightarrow> cs ! (s + k) \<noteq> None" "\<not> trivial_dtor ts"
  shows "\<exists>cs'. move_down ts d s n cs = Some cs' \<and> length cs' = length cs \<and>
    (\<forall>k < length cs. cs' ! k = (if d \<le> k \<and> k < d + n then cs ! (s + (k - d))
       else if s \<le> k \<and> k < s + n then None else cs ! k))"
  using assms
proof (induction n arbitrary: cs)
  case (Suc n)
  obtain v where v: "cs ! (s + n) = Some v" using Suc.prems(3) [of n] by auto
  let ?cs = "cs[d + n := Some v, s + n := None]"
  have m: "move_cell ts (d + n) (s + n) cs = Some ?cs"
    using Suc.prems v by (intro move_cell_result) auto
  have "?cs ! (s + k) \<noteq> None" if "k < n" for k
  proof (cases "s + k = d + n")
    case False
    then show ?thesis using Suc.prems(1,3) that by simp
  qed (use Suc.prems(2) that in simp)
  then obtain cs' where cs': "move_down ts d s n ?cs = Some cs'" "length cs' = length ?cs"
    "\<And>k. k < length ?cs \<Longrightarrow> cs' ! k = (if d \<le> k \<and> k < d + n then ?cs ! (s + (k - d))
       else if s \<le> k \<and> k < s + n then None else ?cs ! k)"
    using Suc.IH [of ?cs] Suc.prems(1,2,4) by auto
  have "cs' ! k = (if d \<le> k \<and> k < d + Suc n then cs ! (s + (k - d))
      else if s \<le> k \<and> k < s + Suc n then None else cs ! k)" if k: "k < length cs" for k
  proof (cases "d \<le> k \<and> k < d + Suc n")
    case True
    have ne: "k \<noteq> d + n \<Longrightarrow> s + (k - d) \<noteq> d + n \<and> s + (k - d) \<noteq> s + n"
      using True Suc.prems(2) by linarith
    show ?thesis
    proof (cases "k = d + n")
      case kn: True
      then have "cs' ! k = ?cs ! k" using cs'(3) [of k] k Suc.prems(2) by simp
      then show ?thesis using kn k v Suc.prems(2) by simp
    next
      case False
      then have "cs' ! k = ?cs ! (s + (k - d))" using cs'(3) [of k] k True by simp
      then show ?thesis using ne [OF False] True by simp
    qed
  next
    case False
    then have "cs' ! k = (if s \<le> k \<and> k < s + n then None else ?cs ! k)" using cs'(3) [of k] k by auto
    then show ?thesis using False k by (cases "k = s + n") auto
  qed
  then show ?case using m cs'(1,2) by auto
qed auto

lemma move_up_result:
  assumes "s + n \<le> length cs" "d < s" "\<And>k. k < n \<Longrightarrow> cs ! (s + k) \<noteq> None" "\<not> trivial_dtor ts"
  shows "\<exists>cs'. move_up ts d s n cs = Some cs' \<and> length cs' = length cs \<and>
    (\<forall>k < length cs. cs' ! k = (if d \<le> k \<and> k < d + n then cs ! (s + (k - d))
       else if s \<le> k \<and> k < s + n then None else cs ! k))"
  using assms
proof (induction n arbitrary: cs d s)
  case (Suc n)
  obtain v where v: "cs ! s = Some v" using Suc.prems(3) [of 0] by auto
  let ?cs = "cs[d := Some v, s := None]"
  have m: "move_cell ts d s cs = Some ?cs"
    using Suc.prems v by (intro move_cell_result) auto
  have "?cs ! (s + 1 + k) \<noteq> None" if "k < n" for k
    using Suc.prems(2) Suc.prems(3) [of "k + 1"] that by (simp add: nth_list_update)
  then obtain cs' where cs': "move_up ts (d + 1) (s + 1) n ?cs = Some cs'" "length cs' = length ?cs"
    "\<And>k. k < length ?cs \<Longrightarrow> cs' ! k = (if d + 1 \<le> k \<and> k < d + 1 + n then ?cs ! (s + 1 + (k - (d + 1)))
       else if s + 1 \<le> k \<and> k < s + 1 + n then None else ?cs ! k)"
    using Suc.IH [of "s + 1" ?cs "d + 1"] Suc.prems(1,2,4) by auto
  have "cs' ! k = (if d \<le> k \<and> k < d + Suc n then cs ! (s + (k - d))
      else if s \<le> k \<and> k < s + Suc n then None else cs ! k)" if k: "k < length cs" for k
  proof (cases "d \<le> k \<and> k < d + Suc n")
    case True
    have ne: "k \<noteq> d \<Longrightarrow> s + 1 + (k - (d + 1)) = s + (k - d) \<and> s + (k - d) \<noteq> s \<and> s + (k - d) \<noteq> d"
      using True Suc.prems(2) by linarith
    show ?thesis
    proof (cases "k = d")
      case kd: True
      then have "cs' ! k = ?cs ! k" using cs'(3) [of k] k Suc.prems(2) by simp
      then show ?thesis using kd k v Suc.prems(2) by simp
    next
      case False
      then have "cs' ! k = ?cs ! (s + 1 + (k - (d + 1)))" using cs'(3) [of k] k True by simp
      then show ?thesis using ne [OF False] True by simp
    qed
  next
    case False
    then have "cs' ! k = (if s + 1 \<le> k \<and> k < s + 1 + n then None else ?cs ! k)" using cs'(3) [of k] k by auto
    then show ?thesis using False k by (cases "k = s") auto
  qed
  then show ?case using m cs'(1,2) by auto
qed auto

lemma pointer_traits: "traits (Pointer t) = ANDROID_BASIC_TYPES_TRAITS"
  by (simp add: ANDROID_BASIC_TYPES_TRAITS_def)

subsection \<open>Properties\<close>

text \<open>Moving a range of constructed elements of a type with its own destructor inside an array is
  right for overlapping ranges in the direction of its name: forward to a higher position, backward to
  a lower one. Every element arrives at its new position, the positions of the old range that are
  not in the new one become raw memory, nothing else changes, and no raw memory is read.\<close>

lemma move_type_overlapping:
  assumes "\<And>k. k < n \<Longrightarrow> cs ! (s + k) \<noteq> None" and "\<not> trivial_dtor ts" and "\<not> trivial_move ts" and "d \<noteq> s"
    and "d + n \<le> length cs" and "s + n \<le> length cs"
  shows "\<exists>cs'. (if s < d then move_forward_type ts d s n cs else move_backward_type ts d s n cs) = Some cs' \<and>
    length cs' = length cs \<and>
    (\<forall>k < length cs. cs' ! k = (if d \<le> k \<and> k < d + n then cs ! (s + (k - d))
       else if s \<le> k \<and> k < s + n then None else cs ! k))"
proof (cases "s < d")
  case True
  then show ?thesis using move_down_result [OF assms(5) True assms(1,2)] assms(2,3) by (simp add: move_forward_type_def)
next
  case False
  then have "d < s" using assms(4) by simp
  then show ?thesis using move_up_result [OF assms(6) _ assms(1,2), of d] assms(2,3) by (simp add: move_backward_type_def)
qed

theorem move_type_overlapping_witness:
  "\<exists>cs'. move_forward_type no_traits 1 0 2 [Some True, Some False, None] = Some cs' \<and>
    cs' ! 0 = None \<and> cs' ! 1 = Some True \<and> cs' ! 2 = Some False"
proof -
  have "[Some True, Some False, None] ! (0 + k) \<noteq> None" if "k < 2" for k :: nat
    using that by (auto simp: less_2_cases_iff)
  from move_type_overlapping [of 2 "[Some True, Some False, None]" 0 no_traits 1, OF this]
  obtain cs' where "move_forward_type no_traits 1 0 2 [Some True, Some False, None] = Some cs'"
    "\<forall>k < 3. cs' ! k = (if 1 \<le> k \<and> k < 3 then [Some True, Some False, None] ! (k - 1)
       else if k < 2 then None else [Some True, Some False, None] ! k)"
    by (auto simp: no_traits_def numeral_eq_Suc)
  then show ?thesis by (auto simp: numeral_eq_Suc)
qed

end
