(* ===== verification/Geometry.thy ===== *)
theory Geometry
  imports Flattening Type_Helpers "HOL-Library.Product_Lexorder"
begin

text \<open>
  \<open>ui/Point.h\<close> and \<open>ui/Rect.h\<close>: points and rectangles of 32-bit coordinates, read signed; sums and
  differences wrap as they do on the devices' processors, and the lemmas say when they do not.
  Both classes are plain data, so they are interpretations of the locale \<open>pod\<close>; points are ordered
  by rows, an instance of \<open>linorder\<close>. The members of \<open>Rect\<close> the header only declares
  (\<open>offsetBy\<close>, \<open>offsetTo\<close>) are arguments of the inline functions that call them.
\<close>

subsection \<open>Points\<close>

datatype Point = Point (pt_x: "32 word") (pt_y: "32 word")

definition Point_eq :: "Point \<Rightarrow> Point \<Rightarrow> bool" where
  "Point_eq p rhs \<longleftrightarrow> pt_x p = pt_x rhs \<and> pt_y p = pt_y rhs"

definition Point_neq :: "Point \<Rightarrow> Point \<Rightarrow> bool" where
  "Point_neq p rhs \<longleftrightarrow> \<not> Point_eq p rhs"

definition isOrigin :: "Point \<Rightarrow> bool" where
  "isOrigin p \<longleftrightarrow> (pt_x p OR pt_y p) = 0"

definition Point_less :: "Point \<Rightarrow> Point \<Rightarrow> bool" where
  "Point_less p rhs \<longleftrightarrow> pt_y p <s pt_y rhs \<or> (pt_y p = pt_y rhs \<and> pt_x p <s pt_x rhs)"

text \<open>The unary minus and the compound assignments change the point they are applied to: the value is the
  point afterwards, which they also return.\<close>

definition Point_negate :: "Point \<Rightarrow> Point" where
  "Point_negate p = Point (- pt_x p) (- pt_y p)"

definition Point_add_assign :: "Point \<Rightarrow> Point \<Rightarrow> Point" where
  "Point_add_assign p rhs = Point (pt_x p + pt_x rhs) (pt_y p + pt_y rhs)"

definition Point_sub_assign :: "Point \<Rightarrow> Point \<Rightarrow> Point" where
  "Point_sub_assign p rhs = Point (pt_x p - pt_x rhs) (pt_y p - pt_y rhs)"

definition Point_add :: "Point \<Rightarrow> Point \<Rightarrow> Point" where
  "Point_add p rhs = Point (pt_x p + pt_x rhs) (pt_y p + pt_y rhs)"

definition Point_sub :: "Point \<Rightarrow> Point \<Rightarrow> Point" where
  "Point_sub p rhs = Point (pt_x p - pt_x rhs) (pt_y p - pt_y rhs)"

definition Point_traits :: trait_set where
  "Point_traits = ANDROID_BASIC_TYPES_TRAITS"

definition Point_bytes :: "Point \<Rightarrow> byte list" where
  "Point_bytes p = le_bytes (pt_x p) @ le_bytes (pt_y p)"

definition Point_of_bytes :: "byte list \<Rightarrow> Point" where
  "Point_of_bytes bs = Point (le_word bs) (le_word (drop 4 bs))"

interpretation point_pod: pod 8 Point_bytes Point_of_bytes
proof unfold_locales
  show "Point_of_bytes (Point_bytes p) = p" for p
    using le_word_le_bytes [of "pt_y p" "[]"]
    by (simp add: Point_of_bytes_def Point_bytes_def le_word_le_bytes)
qed (simp add: Point_bytes_def)

instantiation Point :: linorder
begin

definition less_Point :: "Point \<Rightarrow> Point \<Rightarrow> bool" where
  "less_Point = Point_less"

definition less_eq_Point :: "Point \<Rightarrow> Point \<Rightarrow> bool" where
  "less_eq_Point p q \<longleftrightarrow> Point_less p q \<or> p = q"

instance
proof
  have key: "Point_less p q \<longleftrightarrow> (sint (pt_y p), sint (pt_x p)) < (sint (pt_y q), sint (pt_x q))" for p q
    by (auto simp: Point_less_def word_sless_alt intro: signed_word_eqI)
  have inj: "p = q \<longleftrightarrow> (sint (pt_y p), sint (pt_x p)) = (sint (pt_y q), sint (pt_x q))" for p q :: Point
    by (cases p; cases q) (auto intro: signed_word_eqI)
  show "p < q \<longleftrightarrow> p \<le> q \<and> \<not> q \<le> p" for p q :: Point
    by (auto simp: less_Point_def less_eq_Point_def key inj)
  show "p \<le> p" for p :: Point by (simp add: less_eq_Point_def)
  show "p \<le> q \<Longrightarrow> q \<le> r \<Longrightarrow> p \<le> r" for p q r :: Point
    by (auto simp: less_eq_Point_def key inj)
  show "p \<le> q \<Longrightarrow> q \<le> p \<Longrightarrow> p = q" for p q :: Point
    by (auto simp: less_eq_Point_def key)
  show "p \<le> q \<or> q \<le> p" for p q :: Point
    unfolding less_eq_Point_def key inj by auto
qed

end

subsection \<open>Rectangles\<close>

record Rect =
  rc_left :: "32 word"
  rc_top :: "32 word"
  rc_right :: "32 word"
  rc_bottom :: "32 word"

definition Rect_of_size :: "32 word \<Rightarrow> 32 word \<Rightarrow> Rect" where
  "Rect_of_size w h = \<lparr>rc_left = 0, rc_top = 0, rc_right = w, rc_bottom = h\<rparr>"

definition Rect_of_edges :: "32 word \<Rightarrow> 32 word \<Rightarrow> 32 word \<Rightarrow> 32 word \<Rightarrow> Rect" where
  "Rect_of_edges l t r b = \<lparr>rc_left = l, rc_top = t, rc_right = r, rc_bottom = b\<rparr>"

definition Rect_of_points :: "Point \<Rightarrow> Point \<Rightarrow> Rect" where
  "Rect_of_points lt rb = \<lparr>rc_left = pt_x lt, rc_top = pt_y lt, rc_right = pt_x rb, rc_bottom = pt_y rb\<rparr>"

definition Rect_clear :: "Rect \<Rightarrow> Rect" where
  "Rect_clear r = r\<lparr>rc_left := 0, rc_top := 0, rc_right := 0, rc_bottom := 0\<rparr>"

definition getWidth :: "Rect \<Rightarrow> 32 word" where
  "getWidth r = rc_right r - rc_left r"

definition getHeight :: "Rect \<Rightarrow> 32 word" where
  "getHeight r = rc_bottom r - rc_top r"

definition Rect_isValid :: "Rect \<Rightarrow> bool" where
  "Rect_isValid r \<longleftrightarrow> 0 \<le>s getWidth r \<and> 0 \<le>s getHeight r"

definition Rect_isEmpty :: "Rect \<Rightarrow> bool" where
  "Rect_isEmpty r \<longleftrightarrow> getWidth r \<le>s 0 \<or> getHeight r \<le>s 0"

definition getBounds :: "Rect \<Rightarrow> Rect" where
  "getBounds r = Rect_of_size (rc_right r - rc_left r) (rc_bottom r - rc_top r)"

definition setLeftTop :: "Point \<Rightarrow> Rect \<Rightarrow> Rect" where
  "setLeftTop lt r = r\<lparr>rc_left := pt_x lt, rc_top := pt_y lt\<rparr>"

definition setRightBottom :: "Point \<Rightarrow> Rect \<Rightarrow> Rect" where
  "setRightBottom rb r = r\<lparr>rc_right := pt_x rb, rc_bottom := pt_y rb\<rparr>"

definition leftTop :: "Rect \<Rightarrow> Point" where "leftTop r = Point (rc_left r) (rc_top r)"
definition rightBottom :: "Rect \<Rightarrow> Point" where "rightBottom r = Point (rc_right r) (rc_bottom r)"
definition rightTop :: "Rect \<Rightarrow> Point" where "rightTop r = Point (rc_right r) (rc_top r)"
definition leftBottom :: "Rect \<Rightarrow> Point" where "leftBottom r = Point (rc_left r) (rc_bottom r)"

definition Rect_eq :: "Rect \<Rightarrow> Rect \<Rightarrow> bool" where
  "Rect_eq r rhs \<longleftrightarrow> rc_left r = rc_left rhs \<and> rc_top r = rc_top rhs \<and>
     rc_right r = rc_right rhs \<and> rc_bottom r = rc_bottom rhs"

definition Rect_neq :: "Rect \<Rightarrow> Rect \<Rightarrow> bool" where
  "Rect_neq r rhs \<longleftrightarrow> \<not> Rect_eq r rhs"

type_synonym offset_fn = "32 word \<Rightarrow> 32 word \<Rightarrow> Rect \<Rightarrow> Rect"

definition Rect_add_assign :: "offset_fn \<Rightarrow> Point \<Rightarrow> Rect \<Rightarrow> Rect" where
  "Rect_add_assign offsetBy rhs r = offsetBy (pt_x rhs) (pt_y rhs) r"

definition Rect_sub_assign :: "offset_fn \<Rightarrow> Point \<Rightarrow> Rect \<Rightarrow> Rect" where
  "Rect_sub_assign offsetBy rhs r = offsetBy (- pt_x rhs) (- pt_y rhs) r"

definition offsetToOrigin :: "Rect \<Rightarrow> Rect" where
  "offsetToOrigin r = (let r = r\<lparr>rc_right := rc_right r - rc_left r\<rparr>;
       r = r\<lparr>rc_bottom := rc_bottom r - rc_top r\<rparr> in r\<lparr>rc_left := 0, rc_top := 0\<rparr>)"

definition offsetTo_point :: "offset_fn \<Rightarrow> Point \<Rightarrow> Rect \<Rightarrow> Rect" where
  "offsetTo_point offsetTo p r = offsetTo (pt_x p) (pt_y p) r"

definition offsetBy_point :: "offset_fn \<Rightarrow> Point \<Rightarrow> Rect \<Rightarrow> Rect" where
  "offsetBy_point offsetBy dp r = offsetBy (pt_x dp) (pt_y dp) r"

definition Rect_width :: "Rect \<Rightarrow> 32 word" where "Rect_width r = getWidth r"
definition Rect_height :: "Rect \<Rightarrow> 32 word" where "Rect_height r = getHeight r"
definition Rect_set :: "Rect \<Rightarrow> Rect \<Rightarrow> Rect" where "Rect_set rhs r = rhs"

definition Rect_traits :: trait_set where
  "Rect_traits = ANDROID_BASIC_TYPES_TRAITS"

definition Rect_bytes :: "Rect \<Rightarrow> byte list" where
  "Rect_bytes r = le_bytes (rc_left r) @ le_bytes (rc_top r) @ le_bytes (rc_right r) @ le_bytes (rc_bottom r)"

definition Rect_of_bytes :: "byte list \<Rightarrow> Rect" where
  "Rect_of_bytes bs = Rect_of_edges (le_word bs) (le_word (drop 4 bs)) (le_word (drop 8 bs)) (le_word (drop 12 bs))"

interpretation rect_pod: pod 16 Rect_bytes Rect_of_bytes
proof unfold_locales
  show "Rect_of_bytes (Rect_bytes r) = r" for r
    using le_word_le_bytes [of "rc_bottom r" "[]"]
    by (simp add: Rect_of_bytes_def Rect_bytes_def Rect_of_edges_def le_word_le_bytes)
qed (simp add: Rect_bytes_def)

subsection \<open>Lemmas\<close>

lemma Point_eq_iff: "Point_eq p q \<longleftrightarrow> p = q" "Point_neq p q \<longleftrightarrow> p \<noteq> q"
  by (auto simp: Point_eq_def Point_neq_def Point.expand)

lemma Rect_eq_iff: "Rect_eq r s \<longleftrightarrow> r = s" "Rect_neq r s \<longleftrightarrow> r \<noteq> s"
  by (auto simp: Rect_eq_def Rect_neq_def)

lemma isOrigin_iff: "isOrigin p \<longleftrightarrow> p = Point 0 0"
  by (cases p) (auto simp: isOrigin_def or_eq_0_iff)

lemma Point_sub_add: "Point_sub (Point_add p q) q = p"
  by (simp add: Point_sub_def Point_add_def)

lemma Rect_corners: "Rect_of_points (leftTop r) (rightBottom r) = r"
  by (simp add: Rect_of_points_def leftTop_def rightBottom_def)

lemma setLeftTop_corner: "leftTop (setLeftTop p r) = p" "rightBottom (setLeftTop p r) = rightBottom r"
  by (simp_all add: leftTop_def rightBottom_def setLeftTop_def)

text \<open>Moving to the origin gives the bounds, and keeps the size.\<close>

lemma offsetToOrigin_bounds: "offsetToOrigin r = getBounds r"
  by (simp add: offsetToOrigin_def getBounds_def Rect_of_size_def Let_def)

lemma getBounds_size: "getWidth (getBounds r) = getWidth r" "getHeight (getBounds r) = getHeight r"
  by (simp_all add: getBounds_def Rect_of_size_def getWidth_def getHeight_def)

lemma signed_diff:
  fixes a b :: "32 word"
  assumes "int32_ok (sint a - sint b)"
  shows "sint (a - b) = sint a - sint b"
  using assms by (simp add: int32_ok_def sint_word_ariths signed_take_bit_int_eq_self)

subsection \<open>Properties\<close>

text \<open>C31: a rectangle flattened into any buffer of at least sixteen bytes, with a size of at least sixteen,
  replaces exactly the first sixteen bytes, and comes back unchanged from what is then in the buffer, whatever size
  is passed for reading. A size below sixteen is refused and the buffer untouched. The memory itself is not
  checked: a shorter buffer is written past its end if the size passed is sixteen or more, and it is read past its end whatever
  size is passed.\<close>

theorem Rect_flatten_round_trip:
  "let T = LightFlattenablePod 16 Rect_bytes Rect_of_bytes in
   (16 \<le> k \<and> 16 \<le> length m \<longrightarrow> (\<exists>m'. lf_flatten T r m k = Some (status_code NO_ERROR, m') \<and>
      length m' = length m \<and> drop 16 m' = drop 16 m \<and>
      (\<forall>w k'. lf_unflatten T w m' k' = Some (status_code NO_ERROR, r)))) \<and>
   (k < 16 \<longrightarrow> lf_flatten T r m k = Some (status_code NO_MEMORY, m)) \<and>
   (16 \<le> k \<and> length m < 16 \<longrightarrow> lf_flatten T r m k = None) \<and>
   (length m < 16 \<longrightarrow> (\<forall>w k'. lf_unflatten T w m k' = None))"
  by (simp add: Let_def rect_pod.flatten_fits rect_pod.unflatten_fits rect_pod.flatten_small
      rect_pod.flatten_overrun rect_pod.unflatten_overread rect_pod.enc_length rect_pod.dec_enc)

theorem Rect_flatten_round_trip_witness:
  "\<exists>m'. lf_flatten (LightFlattenablePod 16 Rect_bytes Rect_of_bytes) (Rect_of_size 640 480) (map of_nat [0..<20]) 18 =
      Some (status_code NO_ERROR, m') \<and> drop 16 m' = [16, 17, 18, 19] \<and>
    lf_unflatten (LightFlattenablePod 16 Rect_bytes Rect_of_bytes) (Rect_of_size 0 0) m' 0 =
      Some (status_code NO_ERROR, Rect_of_size 640 480)"
proof -
  have "drop 16 (map of_nat [0..<20]) = ([16, 17, 18, 19] :: byte list)" by (simp add: upt_rec)
  then show ?thesis
    using Rect_flatten_round_trip [of 18 "map of_nat [0..<20]" "Rect_of_size 640 480"] by (simp add: Let_def) metis
qed

text \<open>A rectangle whose width and height fit an \<open>int32_t\<close> is empty exactly if no pixel is in it, and if it
  is not empty it is valid.\<close>

lemma Rect_isEmpty_pixels:
  assumes "int32_ok (sint (rc_right r) - sint (rc_left r))" and "int32_ok (sint (rc_bottom r) - sint (rc_top r))"
  shows "(Rect_isEmpty r \<longleftrightarrow> (\<nexists>x y. sint (rc_left r) \<le> x \<and> x < sint (rc_right r) \<and>
      sint (rc_top r) \<le> y \<and> y < sint (rc_bottom r))) \<and> (Rect_isEmpty r \<or> Rect_isValid r)"
  using assms
  by (force simp: Rect_isEmpty_def Rect_isValid_def getWidth_def getHeight_def word_sle_eq signed_diff)

theorem Rect_isEmpty_pixels_witness:
  "\<not> Rect_isEmpty (Rect_of_size 640 480) \<and> Rect_isEmpty (Rect_of_size 640 0)"
proof -
  have "\<exists>x y. 0 \<le> x \<and> x < (640::int) \<and> 0 \<le> y \<and> y < (480::int)" by (intro exI [of _ 0]) simp
  then show ?thesis
    using Rect_isEmpty_pixels [of "Rect_of_size 640 480"] Rect_isEmpty_pixels [of "Rect_of_size 640 0"]
    by (auto simp: Rect_of_size_def int32_ok_def)
qed

text \<open>The largest rectangle has a negative width: it counts as empty and invalid.\<close>

lemma Rect_isEmpty_overflow:
  "Rect_isEmpty (Rect_of_edges 0x80000000 0 0x7FFFFFFF 1) \<and> \<not> Rect_isValid (Rect_of_edges 0x80000000 0 0x7FFFFFFF 1)"
  by (simp add: Rect_isEmpty_def Rect_isValid_def getWidth_def getHeight_def Rect_of_edges_def word_sle_eq)

end
