(* ===== verification/Node_List.thy ===== *)
theory Node_List
  imports Cam_Prelude
begin

text \<open>
  The list of \<open>utils/List.h\<close>: a circle of heap nodes linked both ways through \<open>mpMiddle\<close>, a node
  without a value that stands for the position after the last element. A node is its value, absent in
  the middle node, and its two links, absent until they are first set; reading what is absent, or any
  access to a node that was deleted, is a fault (None), and so is a loop that does not end. The
  address of a new node is the choice of the allocator, a component of the store. An iterator is the
  address of its node.
\<close>

subsection \<open>Nodes\<close>

record 'a node =
  mVal :: "'a option"
  mpPrev :: "nat option"
  mpNext :: "nat option"

record 'a store =
  cells :: "nat \<rightharpoonup> 'a node"
  malloc :: "(nat \<rightharpoonup> 'a node) \<Rightarrow> nat"

definition getRef :: "nat \<Rightarrow> 'a store \<Rightarrow> 'a option" where
  "getRef p st = do { n \<leftarrow> cells st p; mVal n }"

definition getPrev :: "nat \<Rightarrow> 'a store \<Rightarrow> nat option" where
  "getPrev p st = do { n \<leftarrow> cells st p; mpPrev n }"

definition getNext :: "nat \<Rightarrow> 'a store \<Rightarrow> nat option" where
  "getNext p st = do { n \<leftarrow> cells st p; mpNext n }"

definition upd_node :: "('a node \<Rightarrow> 'a node) \<Rightarrow> nat \<Rightarrow> 'a store \<Rightarrow> 'a store option" where
  "upd_node f p st = do { n \<leftarrow> cells st p; Some (st\<lparr>cells := (cells st)(p \<mapsto> f n)\<rparr>) }"

definition setVal :: "nat \<Rightarrow> 'a \<Rightarrow> 'a store \<Rightarrow> 'a store option" where
  "setVal p v = upd_node (mVal_update (\<lambda>_. Some v)) p"

definition setPrev :: "nat \<Rightarrow> nat \<Rightarrow> 'a store \<Rightarrow> 'a store option" where
  "setPrev p q = upd_node (mpPrev_update (\<lambda>_. Some q)) p"

definition setNext :: "nat \<Rightarrow> nat \<Rightarrow> 'a store \<Rightarrow> 'a store option" where
  "setNext p q = upd_node (mpNext_update (\<lambda>_. Some q)) p"

definition new_node :: "'a option \<Rightarrow> 'a store \<Rightarrow> nat \<times> 'a store" where
  "new_node v st = (let p = malloc st (cells st) in
     (p, st\<lparr>cells := (cells st)(p \<mapsto> \<lparr>mVal = v, mpPrev = None, mpNext = None\<rparr>)\<rparr>))"

definition delete_node :: "nat \<Rightarrow> 'a store \<Rightarrow> 'a store option" where
  "delete_node p st = (if p \<in> dom (cells st) then Some (st\<lparr>cells := (cells st)(p := None)\<rparr>) else None)"

subsection \<open>Iterators\<close>

definition it_deref :: "nat \<Rightarrow> 'a store \<Rightarrow> 'a option" where
  "it_deref it st = getRef it st"

definition it_eq :: "nat \<Rightarrow> nat \<Rightarrow> bool" where
  "it_eq it right = (it = right)"

definition it_ne :: "nat \<Rightarrow> nat \<Rightarrow> bool" where
  "it_ne it right = (it \<noteq> right)"

definition it_inc :: "nat \<Rightarrow> 'a store \<Rightarrow> nat option" where
  "it_inc it st = getNext it st"

text \<open>The postfix forms return the iterator as it was, with its new position.\<close>

definition it_post_inc :: "nat \<Rightarrow> 'a store \<Rightarrow> (nat \<times> nat) option" where
  "it_post_inc it st = do { it' \<leftarrow> getNext it st; Some (it, it') }"

definition it_dec :: "nat \<Rightarrow> 'a store \<Rightarrow> nat option" where
  "it_dec it st = getPrev it st"

definition it_post_dec :: "nat \<Rightarrow> 'a store \<Rightarrow> (nat \<times> nat) option" where
  "it_post_dec it st = do { it' \<leftarrow> getPrev it st; Some (it, it') }"

subsection \<open>The list, given by its middle node\<close>

definition prep :: "'a store \<Rightarrow> (nat \<times> 'a store) option" where
  "prep st = do {
     let (mpMiddle, st) = new_node None st;
     st \<leftarrow> setPrev mpMiddle mpMiddle st;
     st \<leftarrow> setNext mpMiddle mpMiddle st;
     Some (mpMiddle, st)
   }"

definition List_new :: "'a store \<Rightarrow> (nat \<times> 'a store) option" where
  "List_new st = prep st"

definition list_empty :: "nat \<Rightarrow> 'a store \<Rightarrow> bool option" where
  "list_empty mpMiddle st = do { n \<leftarrow> getNext mpMiddle st; Some (n = mpMiddle) }"

definition list_begin :: "nat \<Rightarrow> 'a store \<Rightarrow> nat option" where
  "list_begin mpMiddle st = getNext mpMiddle st"

definition list_end :: "nat \<Rightarrow> nat" where
  "list_end mpMiddle = mpMiddle"

definition list_insert :: "nat \<Rightarrow> 'a \<Rightarrow> 'a store \<Rightarrow> (nat \<times> 'a store) option" where
  "list_insert posn v st = do {
     let (newNode, st) = new_node (Some v) st;
     st \<leftarrow> setNext newNode posn st;
     prev \<leftarrow> getPrev posn st;
     st \<leftarrow> setPrev newNode prev st;
     prev \<leftarrow> getPrev posn st;
     st \<leftarrow> setNext prev newNode st;
     st \<leftarrow> setPrev posn newNode st;
     Some (newNode, st)
   }"

definition push_front :: "nat \<Rightarrow> 'a \<Rightarrow> 'a store \<Rightarrow> 'a store option" where
  "push_front mpMiddle v st = do {
     b \<leftarrow> list_begin mpMiddle st;
     (_, st) \<leftarrow> list_insert b v st;
     Some st
   }"

definition push_back :: "nat \<Rightarrow> 'a \<Rightarrow> 'a store \<Rightarrow> 'a store option" where
  "push_back mpMiddle v st = do {
     (_, st) \<leftarrow> list_insert (list_end mpMiddle) v st;
     Some st
   }"

partial_function (option) list_insert_range :: "nat \<Rightarrow> nat \<Rightarrow> nat \<Rightarrow> 'a store \<Rightarrow> 'a store option" where
  "list_insert_range posn first lastIt st =
     (if first = lastIt then Some st
      else do {
        v \<leftarrow> it_deref first st;
        (_, st) \<leftarrow> list_insert posn v st;
        first \<leftarrow> it_inc first st;
        list_insert_range posn first lastIt st
      })"

definition list_erase :: "nat \<Rightarrow> 'a store \<Rightarrow> (nat \<times> 'a store) option" where
  "list_erase posn st = do {
     pNext \<leftarrow> getNext posn st;
     pPrev \<leftarrow> getPrev posn st;
     st \<leftarrow> setNext pPrev pNext st;
     st \<leftarrow> setPrev pNext pPrev st;
     st \<leftarrow> delete_node posn st;
     Some (pNext, st)
   }"

partial_function (option) list_erase_range :: "nat \<Rightarrow> nat \<Rightarrow> 'a store \<Rightarrow> (nat \<times> 'a store) option" where
  "list_erase_range first lastIt st =
     (if first = lastIt then Some (lastIt, st)
      else do {
        (tmp, first) \<leftarrow> it_post_inc first st;
        (_, st) \<leftarrow> list_erase tmp st;
        list_erase_range first lastIt st
      })"

partial_function (option) clear_loop :: "nat \<Rightarrow> nat \<Rightarrow> 'a store \<Rightarrow> 'a store option" where
  "clear_loop mpMiddle pCurrent st =
     (if pCurrent = mpMiddle then Some st
      else do {
        pNext \<leftarrow> getNext pCurrent st;
        st \<leftarrow> delete_node pCurrent st;
        clear_loop mpMiddle pNext st
      })"

definition list_clear :: "nat \<Rightarrow> 'a store \<Rightarrow> 'a store option" where
  "list_clear mpMiddle st = do {
     pCurrent \<leftarrow> getNext mpMiddle st;
     st \<leftarrow> clear_loop mpMiddle pCurrent st;
     st \<leftarrow> setPrev mpMiddle mpMiddle st;
     setNext mpMiddle mpMiddle st
   }"

definition List_delete :: "nat \<Rightarrow> 'a store \<Rightarrow> 'a store option" where
  "List_delete mpMiddle st = do { st \<leftarrow> list_clear mpMiddle st; delete_node mpMiddle st }"

partial_function (option) list_distance :: "nat \<Rightarrow> nat \<Rightarrow> nat \<Rightarrow> 'a store \<Rightarrow> nat option" where
  "list_distance first lastIt count st =
     (if first = lastIt then Some count
      else do { first \<leftarrow> it_inc first st; list_distance first lastIt (count + 1) st })"

definition list_size :: "nat \<Rightarrow> 'a store \<Rightarrow> nat option" where
  "list_size mpMiddle st = do { b \<leftarrow> list_begin mpMiddle st; list_distance b (list_end mpMiddle) 0 st }"

definition List_copy :: "nat \<Rightarrow> 'a store \<Rightarrow> (nat \<times> 'a store) option" where
  "List_copy src st = do {
     (mpMiddle, st) \<leftarrow> prep st;
     b \<leftarrow> list_begin mpMiddle st;
     first \<leftarrow> list_begin src st;
     st \<leftarrow> list_insert_range b first (list_end src) st;
     Some (mpMiddle, st)
   }"

text \<open>The assignment overwrites the elements that both lists have, then erases the rest of the
  target or inserts the rest of the source.\<close>

partial_function (option) assign_loop ::
    "nat \<Rightarrow> nat \<Rightarrow> nat \<Rightarrow> nat \<Rightarrow> 'a store \<Rightarrow> (nat \<times> nat \<times> 'a store) option" where
  "assign_loop firstDst lastDst firstSrc lastSrc st =
     (if firstSrc \<noteq> lastSrc \<and> firstDst \<noteq> lastDst then do {
        (src, firstSrc) \<leftarrow> it_post_inc firstSrc st;
        v \<leftarrow> it_deref src st;
        (dst, firstDst) \<leftarrow> it_post_inc firstDst st;
        st \<leftarrow> setVal dst v st;
        assign_loop firstDst lastDst firstSrc lastSrc st
      } else Some (firstDst, firstSrc, st))"

definition List_assign :: "nat \<Rightarrow> nat \<Rightarrow> 'a store \<Rightarrow> 'a store option" where
  "List_assign this right st =
     (if this = right then Some st
      else do {
        firstDst \<leftarrow> list_begin this st;
        let lastDst = list_end this;
        firstSrc \<leftarrow> list_begin right st;
        let lastSrc = list_end right;
        (firstDst, firstSrc, st) \<leftarrow> assign_loop firstDst lastDst firstSrc lastSrc st;
        if firstSrc = lastSrc then do { (_, st) \<leftarrow> list_erase_range firstDst lastDst st; Some st }
        else list_insert_range lastDst firstSrc lastSrc st
      })"

subsection \<open>Links\<close>

text \<open>The nodes from \<open>a\<close> over \<open>ps\<close> to \<open>b\<close>, linked both ways; the nodes and values of a list.\<close>

fun seg :: "'a store \<Rightarrow> nat \<Rightarrow> nat list \<Rightarrow> nat \<Rightarrow> bool" where
  "seg st a [] b \<longleftrightarrow> getNext a st = Some b \<and> getPrev b st = Some a"
| "seg st a (p # ps) b \<longleftrightarrow> getNext a st = Some p \<and> getPrev p st = Some a \<and> seg st p ps b"

definition list_rep :: "'a store \<Rightarrow> nat \<Rightarrow> nat list \<Rightarrow> 'a list \<Rightarrow> bool" where
  "list_rep st m ps vs \<longleftrightarrow> distinct (m # ps) \<and> seg st m ps m \<and> map (\<lambda>p. getRef p st) ps = map Some vs"

text \<open>The allocator hands out addresses that are not in use.\<close>

definition fresh_store :: "'a store \<Rightarrow> bool" where
  "fresh_store st \<longleftrightarrow> finite (dom (cells st)) \<and> (\<forall>h. finite (dom h) \<longrightarrow> malloc st h \<notin> dom h)"

lemma get_dom: "getNext p st = Some q \<Longrightarrow> p \<in> dom (cells st)" "getPrev p st = Some q \<Longrightarrow> p \<in> dom (cells st)"
  by (auto simp: getNext_def getPrev_def Option.bind_eq_Some_conv)

lemma upd_node_eq: "upd_node f p st = (if p \<in> dom (cells st)
    then Some (st\<lparr>cells := (cells st)(p := map_option f (cells st p))\<rparr>) else None)"
  by (cases "cells st p") (auto simp: upd_node_def)

lemmas get_defs = getNext_def getPrev_def getRef_def
lemmas set_defs = setNext_def setPrev_def setVal_def upd_node_eq

lemma list_insert_result:
  assumes "fresh_store st" and "getPrev posn st = Some prev" and "posn \<in> dom (cells st)" "prev \<in> dom (cells st)"
  shows "\<exists>new st'. list_insert posn v st = Some (new, st') \<and> new \<notin> dom (cells st) \<and> fresh_store st' \<and>
    dom (cells st') = insert new (dom (cells st)) \<and>
    (\<forall>x. getNext x st' = (if x = prev then Some new else if x = new then Some posn else getNext x st)) \<and>
    (\<forall>x. getPrev x st' = (if x = posn then Some new else if x = new then Some prev else getPrev x st)) \<and>
    (\<forall>x. getRef x st' = (if x = new then Some v else getRef x st))"
proof -
  let ?new = "malloc st (cells st)"
  have new: "?new \<notin> dom (cells st)" using assms(1) by (simp add: fresh_store_def)
  then have ne: "?new \<noteq> posn" "?new \<noteq> prev" using assms(3,4) by auto
  obtain np nq where n: "cells st posn = Some np" "cells st prev = Some nq" "mpPrev np = Some prev"
    using assms(2,3,4) by (auto simp: getPrev_def)
  show ?thesis
    using assms(1) new ne n unfolding list_insert_def new_node_def Let_def
    by (cases "posn = prev") (auto simp: set_defs get_defs fresh_store_def)
qed

lemma list_erase_result:
  assumes "fresh_store st" and "getNext p st = Some n" "getPrev p st = Some q" and "n \<in> dom (cells st)" "q \<in> dom (cells st)"
    and "p \<noteq> n" "p \<noteq> q"
  shows "\<exists>st'. list_erase p st = Some (n, st') \<and> fresh_store st' \<and> dom (cells st') = dom (cells st) - {p} \<and>
    (\<forall>x. getNext x st' = (if x = p then None else if x = q then Some n else getNext x st)) \<and>
    (\<forall>x. getPrev x st' = (if x = p then None else if x = n then Some q else getPrev x st)) \<and>
    (\<forall>x. getRef x st' = (if x = p then None else getRef x st))"
proof -
  obtain np nn nq where c: "cells st p = Some np" "cells st n = Some nn" "cells st q = Some nq"
    "mpNext np = Some n" "mpPrev np = Some q"
    using assms(2-5) by (auto simp: get_defs Option.bind_eq_Some_conv)
  then show ?thesis
    using assms(1,6,7) unfolding list_erase_def
    by (cases "n = q") (auto simp: set_defs get_defs fresh_store_def delete_node_def)
qed

lemma seg_frame:
  assumes "\<And>x. x \<in> set (a # xs) \<Longrightarrow> getNext x st' = getNext x st"
    and "\<And>x. x \<in> set (xs @ [b]) \<Longrightarrow> getPrev x st' = getPrev x st"
  shows "seg st' a xs b = seg st a xs b"
  using assms by (induction xs arbitrary: a) auto

lemma seg_append: "seg st a (xs @ p # ys) b \<longleftrightarrow> seg st a xs p \<and> seg st p ys b"
  by (induction xs arbitrary: a) auto

lemma seg_at:
  assumes "seg st a (xs @ ys) b"
  shows "getPrev (hd (ys @ [b])) st = Some (last (a # xs)) \<and> getNext (last (a # xs)) st = Some (hd (ys @ [b]))"
  using assms
proof (induction xs arbitrary: a)
  case Nil
  then show ?case by (cases ys) auto
qed auto

lemma seg_dom: "seg st a xs b \<Longrightarrow> set (a # xs @ [b]) \<subseteq> dom (cells st)"
  by (induction xs arbitrary: a) (auto dest: get_dom)

lemma seg_insert:
  assumes "seg st a (xs @ ys) b" and "distinct (a # xs @ ys)" "distinct (xs @ ys @ [b])" and "new \<notin> set (a # xs @ ys @ [b])"
    and "q = last (a # xs)" "n = hd (ys @ [b])"
    and "\<And>x. getNext x st' = (if x = q then Some new else if x = new then Some n else getNext x st)"
    and "\<And>x. getPrev x st' = (if x = n then Some new else if x = new then Some q else getPrev x st)"
  shows "seg st' a (xs @ new # ys) b"
  using assms
proof (induction xs arbitrary: a)
  case Nil
  then have "new \<noteq> n" "new \<noteq> q" by (cases ys; auto)+
  moreover have "seg st' new ys b"
  proof (cases ys)
    case (Cons y ys')
    then have "seg st' y ys' b = seg st y ys' b"
      using Nil.prems by (intro seg_frame) (fastforce split: if_splits)+
    then show ?thesis using Nil.prems Cons by auto
  qed (use Nil.prems in auto)
  ultimately show ?case using Nil.prems by auto
next
  case (Cons x xs)
  have "q \<in> set (x # xs)" using Cons.prems(5) by simp
  moreover have "n \<in> set (ys @ [b])" using Cons.prems(6) by (metis hd_in_set snoc_eq_iff_butlast)
  ultimately have ne: "a \<noteq> q" "x \<noteq> n" "a \<noteq> new" "x \<noteq> new" using Cons.prems(2,3,4) by auto
  have "seg st' x (xs @ new # ys) b"
    by (rule Cons.IH) (use Cons.prems in auto)
  then show ?case using Cons.prems(1,7,8) ne by simp
qed

lemma seg_erase:
  assumes "seg st a (xs @ p # ys) b" and "distinct (a # xs @ p # ys)" "distinct (xs @ p # ys @ [b])"
    and "q = last (a # xs)" "n = hd (ys @ [b])"
    and "\<And>x. getNext x st' = (if x = p then None else if x = q then Some n else getNext x st)"
    and "\<And>x. getPrev x st' = (if x = p then None else if x = n then Some q else getPrev x st)"
  shows "seg st' a (xs @ ys) b"
  using assms
proof (induction xs arbitrary: a)
  case Nil
  then have "p \<noteq> n" "p \<noteq> q" by (cases ys; auto)+
  show ?case
  proof (cases ys)
    case (Cons y ys')
    then have "seg st' y ys' b = seg st y ys' b"
      using Nil.prems by (intro seg_frame) (fastforce split: if_splits)+
    then show ?thesis using Nil.prems Cons \<open>p \<noteq> n\<close> \<open>p \<noteq> q\<close> by auto
  qed (use Nil.prems \<open>p \<noteq> n\<close> \<open>p \<noteq> q\<close> in auto)
next
  case (Cons x xs)
  have "q \<in> set (x # xs)" using Cons.prems(4) by simp
  moreover have "n \<in> set (ys @ [b])" using Cons.prems(5) by (metis hd_in_set snoc_eq_iff_butlast)
  ultimately have ne: "a \<noteq> q" "x \<noteq> n" "a \<noteq> p" "x \<noteq> p" using Cons.prems(2,3) by auto
  have "seg st' x (xs @ ys) b"
    by (rule Cons.IH) (use Cons.prems in auto)
  then show ?case using Cons.prems(1,6,7) ne by simp
qed

subsection \<open>Single elements\<close>

lemma map_if_notin [simp]: "z \<notin> set xs \<Longrightarrow> map (\<lambda>x. if x = z then a else f x) xs = map f xs"
  by (induction xs) auto

definition agree :: "nat set \<Rightarrow> 'a store \<Rightarrow> 'a store \<Rightarrow> bool" where
  "agree A st st' \<longleftrightarrow> (\<forall>x \<in> A. getNext x st' = getNext x st \<and> getPrev x st' = getPrev x st \<and> getRef x st' = getRef x st)"

lemma agree_trans: "agree A st st' \<Longrightarrow> agree B st' st'' \<Longrightarrow> agree (A \<inter> B) st st''"
  by (simp add: agree_def)

lemma agree_mono: "agree A st st' \<Longrightarrow> B \<subseteq> A \<Longrightarrow> agree B st st'"
  by (auto simp: agree_def)

lemma list_rep_dom: "list_rep st m ps vs \<Longrightarrow> set (m # ps) \<subseteq> dom (cells st)"
  unfolding list_rep_def using seg_dom [of st m ps m] by auto

lemma list_rep_length: "list_rep st m ps vs \<Longrightarrow> length ps = length vs"
  unfolding list_rep_def by (metis length_map)

lemma list_rep_agree:
  assumes "list_rep st r qs ws" and "agree (set (r # qs)) st st'"
  shows "list_rep st' r qs ws"
proof -
  have "seg st' r qs r = seg st r qs r"
    using assms(2) by (intro seg_frame) (auto simp: agree_def)
  moreover have "map (\<lambda>p. getRef p st') qs = map (\<lambda>p. getRef p st) qs"
    using assms(2) by (simp add: agree_def)
  ultimately show ?thesis using assms(1) unfolding list_rep_def by simp
qed

lemma list_insert_rep:
  assumes rep: "list_rep st m (xs @ ys) (vs @ ws)" and len: "length xs = length vs" and st: "fresh_store st"
    and posn: "posn = hd (ys @ [m])"
  shows "\<exists>new st'. list_insert posn v st = Some (new, st') \<and> new \<notin> dom (cells st) \<and> fresh_store st' \<and>
    list_rep st' m (xs @ new # ys) (vs @ v # ws) \<and> dom (cells st') = insert new (dom (cells st)) \<and>
    agree (- insert new (set (m # xs @ ys))) st st'"
proof -
  let ?q = "last (m # xs)"
  have s: "seg st m (xs @ ys) m" and d: "distinct (m # xs @ ys)"
    and r: "map (\<lambda>p. getRef p st) xs = map Some vs" "map (\<lambda>p. getRef p st) ys = map Some ws"
    using rep len by (auto simp: list_rep_def)
  have prev: "getPrev posn st = Some ?q" using seg_at [OF s] posn by simp
  have q: "?q \<in> set (m # xs)" by (rule last_in_set) simp
  have p: "posn \<in> set (m # ys)" using posn by (cases ys) auto
  have dm: "set (m # xs @ ys) \<subseteq> dom (cells st)" by (rule list_rep_dom [OF rep])
  have "set (m # xs) \<subseteq> dom (cells st)" "set (m # ys) \<subseteq> dom (cells st)" using dm by auto
  then have pd: "posn \<in> dom (cells st)" and qd: "?q \<in> dom (cells st)" using p q by blast+
  obtain new st' where *: "list_insert posn v st = Some (new, st')" "new \<notin> dom (cells st)" "fresh_store st'"
    "dom (cells st') = insert new (dom (cells st))"
    and get: "\<And>x. getNext x st' = (if x = ?q then Some new else if x = new then Some posn else getNext x st)"
      "\<And>x. getPrev x st' = (if x = posn then Some new else if x = new then Some ?q else getPrev x st)"
      "\<And>x. getRef x st' = (if x = new then Some v else getRef x st)"
    using list_insert_result [OF st prev pd qd, of v] by blast
  have new: "new \<notin> set (m # xs @ ys)" using *(2) dm by blast
  have "seg st' m (xs @ new # ys) m"
    by (rule seg_insert [OF s _ _ _ refl posn get(1,2)]) (use d new in auto)
  moreover have "map (\<lambda>p. getRef p st') (xs @ new # ys) = map Some (vs @ v # ws)"
    using r new by (simp add: get(3))
  ultimately have "list_rep st' m (xs @ new # ys) (vs @ v # ws)"
    using d new by (auto simp: list_rep_def)
  moreover have "agree (- insert new (set (m # xs @ ys))) st st'"
    using q p by (auto simp: agree_def get)
  ultimately show ?thesis using * by blast
qed

lemma list_erase_rep:
  assumes rep: "list_rep st m (xs @ p # ys) (vs @ v # ws)" and len: "length xs = length vs" and st: "fresh_store st"
  shows "\<exists>st'. list_erase p st = Some (hd (ys @ [m]), st') \<and> fresh_store st' \<and>
    list_rep st' m (xs @ ys) (vs @ ws) \<and> dom (cells st') = dom (cells st) - {p} \<and>
    agree (- set (m # xs @ p # ys)) st st'"
proof -
  let ?q = "last (m # xs)" and ?n = "hd (ys @ [m])"
  have s: "seg st m (xs @ p # ys) m" and d: "distinct (m # xs @ p # ys)"
    and r: "map (\<lambda>p. getRef p st) xs = map Some vs" "map (\<lambda>p. getRef p st) ys = map Some ws"
    using rep len by (auto simp: list_rep_def)
  have prev: "getPrev p st = Some ?q" using seg_at [OF s] by simp
  have "xs @ p # ys = (xs @ [p]) @ ys" by simp
  then have nxt: "getNext p st = Some ?n" using seg_at [of st m "xs @ [p]" ys m] s by simp
  have q: "?q \<in> set (m # xs)" by (rule last_in_set) simp
  have n: "?n \<in> set (m # ys)" by (cases ys) auto
  have ne: "p \<noteq> ?n" "p \<noteq> ?q" using q n d by auto
  have dm: "set (m # xs @ p # ys) \<subseteq> dom (cells st)" by (rule list_rep_dom [OF rep])
  have "set (m # xs) \<subseteq> dom (cells st)" "set (m # ys) \<subseteq> dom (cells st)" using dm by auto
  then have nd: "?n \<in> dom (cells st)" and qd: "?q \<in> dom (cells st)" using n q by blast+
  obtain st' where *: "list_erase p st = Some (?n, st')" "fresh_store st'" "dom (cells st') = dom (cells st) - {p}"
    and get: "\<And>x. getNext x st' = (if x = p then None else if x = ?q then Some ?n else getNext x st)"
      "\<And>x. getPrev x st' = (if x = p then None else if x = ?n then Some ?q else getPrev x st)"
      "\<And>x. getRef x st' = (if x = p then None else getRef x st)"
    using list_erase_result [OF st nxt prev nd qd ne] by blast
  have "seg st' m (xs @ ys) m"
    by (rule seg_erase [OF s _ _ refl refl get(1,2)]) (use d in auto)
  moreover have "map (\<lambda>p. getRef p st') (xs @ ys) = map Some (vs @ ws)"
    using r d by (simp add: get(3))
  ultimately have "list_rep st' m (xs @ ys) (vs @ ws)" using d by (auto simp: list_rep_def)
  moreover have "agree (- set (m # xs @ p # ys)) st st'"
    using q n by (auto simp: agree_def get)
  ultimately show ?thesis using * by blast
qed

lemma prep_rep:
  assumes "fresh_store st"
  shows "\<exists>m st'. prep st = Some (m, st') \<and> m \<notin> dom (cells st) \<and> fresh_store st' \<and> list_rep st' m [] [] \<and>
    dom (cells st') = insert m (dom (cells st)) \<and> agree (- {m}) st st'"
  using assms by (auto simp: prep_def new_node_def Let_def set_defs get_defs fresh_store_def list_rep_def agree_def)

subsection \<open>Iteration\<close>

lemma list_rep_begin: "list_rep st m ps vs \<Longrightarrow> list_begin m st = Some (hd (ps @ [m]))"
  using seg_at [of st m "[]" ps m] by (simp add: list_rep_def list_begin_def)

lemma list_rep_next:
  assumes "list_rep st m (xs @ p # ys) vs"
  shows "getNext p st = Some (hd (ys @ [m]))"
  using seg_at [of st m "xs @ [p]" ys m] assms by (simp add: list_rep_def)

lemma list_rep_ref:
  assumes "list_rep st m (xs @ p # ys) (vs @ v # ws)" "length xs = length vs"
  shows "getRef p st = Some v"
  using assms by (auto simp: list_rep_def)

lemma list_distance_rep:
  assumes "list_rep st m (xs @ ys) vs"
  shows "list_distance (hd (ys @ [m])) m c st = Some (c + length ys)"
  using assms
proof (induction ys arbitrary: xs c)
  case Nil
  then show ?case by (simp add: list_distance.simps)
next
  case (Cons p ys)
  have "p \<noteq> m" using Cons.prems by (simp add: list_rep_def)
  moreover have "list_distance (hd (ys @ [m])) m (c + 1) st = Some (c + 1 + length ys)"
    using Cons.IH [of "xs @ [p]"] Cons.prems by simp
  ultimately show ?case
    using list_rep_next [OF Cons.prems] by (subst list_distance.simps) (simp add: it_inc_def)
qed

lemma list_size_rep: "list_rep st m ps vs \<Longrightarrow> list_size m st = Some (length vs)"
  using list_distance_rep [of st m "[]" ps vs 0] list_rep_length [of st m ps vs] list_rep_begin [of st m ps vs]
  by (simp add: list_size_def list_end_def)

lemma list_empty_rep: "list_rep st m ps vs \<Longrightarrow> list_empty m st = Some (vs = [])"
  using list_rep_begin [of st m ps vs] list_rep_length [of st m ps vs]
  by (cases ps) (auto simp: list_empty_def list_begin_def list_rep_def)

subsection \<open>Ranges\<close>

lemma list_insert_range_rep:
  assumes "list_rep st m (xs @ ys) (vs @ ws)" "length xs = length vs"
    and "list_rep st r (as @ bs) (us @ zs)" "length as = length us"
    and "set (m # xs @ ys) \<inter> set (r # as @ bs) = {}" and "fresh_store st" and "posn = hd (ys @ [m])"
  shows "\<exists>ns st'. list_insert_range posn (hd (bs @ [r])) r st = Some st' \<and> fresh_store st' \<and>
    list_rep st' m (xs @ ns @ ys) (vs @ zs @ ws) \<and> set ns \<inter> dom (cells st) = {} \<and>
    dom (cells st') = dom (cells st) \<union> set ns \<and> agree (- (set (m # xs @ ys) \<union> set ns)) st st'"
  using assms
proof (induction bs arbitrary: st xs vs as us zs)
  case Nil
  have "length (as @ []) = length (us @ zs)" by (rule list_rep_length [OF Nil.prems(3)])
  then have "zs = []" using Nil.prems(4) by simp
  then show ?case using Nil.prems
    by (intro exI [of _ "[]"]) (simp add: list_insert_range.simps agree_def)
next
  case (Cons b bs)
  obtain z zs' where z: "zs = z # zs'"
    using list_rep_length [OF Cons.prems(3)] Cons.prems(4) by (cases zs) auto
  obtain new st1 where i: "list_insert posn z st = Some (new, st1)" "new \<notin> dom (cells st)" "fresh_store st1"
    "list_rep st1 m (xs @ new # ys) (vs @ z # ws)" "dom (cells st1) = insert new (dom (cells st))"
    "agree (- insert new (set (m # xs @ ys))) st st1"
    using list_insert_rep [OF Cons.prems(1,2,6,7)] by blast
  have rd: "set (r # as @ b # bs) \<subseteq> dom (cells st)" by (rule list_rep_dom [OF Cons.prems(3)])
  then have new: "new \<notin> set (r # as @ b # bs)" using i(2) by blast
  have src: "list_rep st1 r ((as @ [b]) @ bs) ((us @ [z]) @ zs')"
    using list_rep_agree [OF Cons.prems(3) agree_mono [OF i(6)]] new Cons.prems(5) z by auto
  have ih: "\<exists>ns st'. list_insert_range posn (hd (bs @ [r])) r st1 = Some st' \<and> fresh_store st' \<and>
    list_rep st' m ((xs @ [new]) @ ns @ ys) ((vs @ [z]) @ zs' @ ws) \<and> set ns \<inter> dom (cells st1) = {} \<and>
    dom (cells st') = dom (cells st1) \<union> set ns \<and> agree (- (set (m # (xs @ [new]) @ ys) \<union> set ns)) st1 st'"
    by (rule Cons.IH [OF _ _ src]) (use i Cons.prems new in auto)
  then obtain ns st' where ns: "list_insert_range posn (hd (bs @ [r])) r st1 = Some st'" "fresh_store st'"
    "list_rep st' m ((xs @ [new]) @ ns @ ys) ((vs @ [z]) @ zs' @ ws)" "set ns \<inter> dom (cells st1) = {}"
    "dom (cells st') = dom (cells st1) \<union> set ns" "agree (- (set (m # (xs @ [new]) @ ys) \<union> set ns)) st1 st'"
    by blast
  have "b \<noteq> r" using Cons.prems(3) by (simp add: list_rep_def)
  moreover have "it_deref b st = Some z"
    using list_rep_ref [of st r as b bs us z zs'] Cons.prems(3,4) z by (simp add: it_deref_def)
  moreover have "it_inc b st1 = Some (hd (bs @ [r]))"
    using list_rep_next [of st1 r as b bs "us @ z # zs'"] src by (simp add: it_inc_def)
  ultimately have "list_insert_range posn (hd ((b # bs) @ [r])) r st = Some st'"
    using i(1) ns(1) by (subst list_insert_range.simps) simp
  moreover have "agree (- (set (m # xs @ ys) \<union> set (new # ns))) st st'"
    by (rule agree_mono [OF agree_trans [OF i(6) ns(6)]]) auto
  ultimately show ?case
    using ns i(2,5) z by (intro exI [of _ "new # ns"] exI [of _ st']) auto
qed

lemma list_erase_range_rep:
  assumes "list_rep st m (xs @ ys @ zs) (vs @ ws @ us)" "length xs = length vs" "length ys = length ws"
    and "fresh_store st" and "n = hd (zs @ [m])"
  shows "\<exists>st'. list_erase_range (hd (ys @ [n])) n st = Some (n, st') \<and> fresh_store st' \<and>
    list_rep st' m (xs @ zs) (vs @ us) \<and> dom (cells st') = dom (cells st) - set ys \<and>
    agree (- set (m # xs @ ys @ zs)) st st'"
  using assms
proof (induction ys arbitrary: st ws)
  case Nil
  then show ?case by (simp add: list_erase_range.simps agree_def)
next
  case (Cons y ys)
  obtain w ws' where w: "ws = w # ws'" "length ys = length ws'" using Cons.prems(3) by (cases ws) auto
  have r: "list_rep st m (xs @ y # ys @ zs) (vs @ w # ws' @ us)" using Cons.prems(1) w by simp
  obtain st1 where e: "list_erase y st = Some (hd ((ys @ zs) @ [m]), st1)" "fresh_store st1"
    "list_rep st1 m (xs @ ys @ zs) (vs @ ws' @ us)" "dom (cells st1) = dom (cells st) - {y}"
    "agree (- set (m # xs @ y # ys @ zs)) st st1"
    using list_erase_rep [OF r Cons.prems(2,4)] by blast
  obtain st' where s: "list_erase_range (hd (ys @ [n])) n st1 = Some (n, st')" "fresh_store st'"
    "list_rep st' m (xs @ zs) (vs @ us)" "dom (cells st') = dom (cells st1) - set ys"
    "agree (- set (m # xs @ ys @ zs)) st1 st'"
    using Cons.IH [OF e(3) Cons.prems(2) w(2) e(2) Cons.prems(5)] by blast
  have "n \<in> set (m # zs)" using Cons.prems(5) by (cases zs) auto
  then have "y \<noteq> n" using r by (auto simp: list_rep_def)
  moreover have "hd ((ys @ zs) @ [m]) = hd (ys @ [n])" using Cons.prems(5) by (cases ys) auto
  then have "it_post_inc y st = Some (y, hd (ys @ [n]))"
    using list_rep_next [OF r] by (simp add: it_post_inc_def)
  ultimately have "list_erase_range (hd ((y # ys) @ [n])) n st = Some (n, st')"
    using e(1) s(1) by (subst list_erase_range.simps) simp
  moreover have "agree (- set (m # xs @ (y # ys) @ zs)) st st'"
    by (rule agree_mono [OF agree_trans [OF e(5) s(5)]]) auto
  ultimately show ?case using s e(4) by auto
qed

text \<open>Clearing walks the forward links only, deleting behind itself.\<close>

fun chain :: "'a store \<Rightarrow> nat list \<Rightarrow> nat \<Rightarrow> bool" where
  "chain st [] m = True"
| "chain st (p # ps) m \<longleftrightarrow> getNext p st = Some (hd (ps @ [m])) \<and> chain st ps m"

lemma seg_chain: "seg st a ps m \<Longrightarrow> chain st ps m"
proof (induction ps arbitrary: a)
  case (Cons p ps)
  then show ?case by (cases ps) auto
qed simp

lemma chain_frame: "(\<And>p. p \<in> set ps \<Longrightarrow> getNext p st' = getNext p st) \<Longrightarrow> chain st' ps m = chain st ps m"
  by (induction ps) auto

lemma clear_loop_rep:
  "chain st ps m \<Longrightarrow> distinct (m # ps) \<Longrightarrow>
   clear_loop m (hd (ps @ [m])) st = Some (st\<lparr>cells := cells st |` (- set ps)\<rparr>)"
proof (induction ps arbitrary: st)
  case Nil
  then show ?case by (simp add: clear_loop.simps)
next
  case (Cons p ps)
  let ?st = "st\<lparr>cells := (cells st)(p := None)\<rparr>"
  have "chain ?st ps m = chain st ps m"
    using Cons.prems by (intro chain_frame) (auto simp: getNext_def)
  then have "clear_loop m (hd (ps @ [m])) ?st = Some (?st\<lparr>cells := cells ?st |` (- set ps)\<rparr>)"
    using Cons.prems by (intro Cons.IH) auto
  moreover have "(cells st)(p := None) |` (- set ps) = cells st |` (- set (p # ps))"
    by (auto simp: restrict_map_def fun_eq_iff)
  moreover have "p \<in> dom (cells st)" using Cons.prems by (auto dest: get_dom)
  ultimately show ?case
    using Cons.prems by (subst clear_loop.simps) (auto simp: delete_node_def)
qed

lemma restrict_at: "(f |` A) x = (if x \<in> A then f x else None)"
  by (simp add: restrict_map_def)

lemma list_clear_rep:
  assumes rep: "list_rep st m ps vs" and st: "fresh_store st"
  shows "\<exists>st'. list_clear m st = Some st' \<and> fresh_store st' \<and> list_rep st' m [] [] \<and>
    dom (cells st') = dom (cells st) - set ps \<and> agree (- set (m # ps)) st st'"
proof -
  have c: "clear_loop m (hd (ps @ [m])) st = Some (st\<lparr>cells := cells st |` (- set ps)\<rparr>)"
    using rep by (intro clear_loop_rep) (auto simp: list_rep_def dest: seg_chain)
  obtain n where "cells st m = Some n" and m: "m \<notin> set ps"
    using list_rep_dom [OF rep] rep by (auto simp: list_rep_def)
  then show ?thesis
    using c st list_rep_begin [OF rep] unfolding list_clear_def list_begin_def
    by (auto simp: set_defs get_defs list_rep_def agree_def fresh_store_def restrict_at split: if_splits)
qed

lemma List_delete_rep:
  assumes "list_rep st m ps vs" and "fresh_store st"
  shows "\<exists>st'. List_delete m st = Some st' \<and> fresh_store st' \<and>
    dom (cells st') = dom (cells st) - set (m # ps) \<and> agree (- set (m # ps)) st st'"
proof -
  obtain st1 where c: "list_clear m st = Some st1" "fresh_store st1" "list_rep st1 m [] []"
    "dom (cells st1) = dom (cells st) - set ps" "agree (- set (m # ps)) st st1"
    using list_clear_rep [OF assms] by blast
  have m: "m \<in> dom (cells st1)" using list_rep_dom [OF c(3)] by simp
  have "agree (- {m}) st1 (st1\<lparr>cells := (cells st1)(m := None)\<rparr>)" by (simp add: agree_def get_defs)
  then have "agree (- set (m # ps)) st (st1\<lparr>cells := (cells st1)(m := None)\<rparr>)"
    by (intro agree_mono [OF agree_trans [OF c(5)]]) auto
  then show ?thesis using c m by (auto simp: List_delete_def delete_node_def fresh_store_def)
qed

subsection \<open>Copy and assignment\<close>

lemma setVal_rep:
  assumes rep: "list_rep st m (xs @ p # ys) (vs @ v # ws)" and len: "length xs = length vs" and st: "fresh_store st"
  shows "\<exists>st'. setVal p v' st = Some st' \<and> fresh_store st' \<and> list_rep st' m (xs @ p # ys) (vs @ v' # ws) \<and>
    dom (cells st') = dom (cells st) \<and> agree (- {p}) st st'"
proof -
  obtain n where n: "cells st p = Some n" using list_rep_dom [OF rep] by auto
  let ?st = "st\<lparr>cells := (cells st)(p \<mapsto> n\<lparr>mVal := Some v'\<rparr>)\<rparr>"
  have get: "getNext x ?st = getNext x st" "getPrev x ?st = getPrev x st"
    "getRef x ?st = (if x = p then Some v' else getRef x st)" for x
    using n by (simp_all add: get_defs)
  have "seg ?st m (xs @ p # ys) m = seg st m (xs @ p # ys) m" by (intro seg_frame) (simp_all only: get)
  then have "list_rep ?st m (xs @ p # ys) (vs @ v' # ws)"
    using rep len by (auto simp: list_rep_def get(3))
  then show ?thesis using n st by (auto simp: set_defs agree_def get fresh_store_def)
qed

lemma assign_loop_rep:
  assumes "list_rep st m (xs @ ys) (vs @ ws)" "length xs = length vs"
    and "list_rep st r (as @ bs) (us @ zs)" "length as = length us"
    and "set (m # xs @ ys) \<inter> set (r # as @ bs) = {}" and "fresh_store st"
  shows "\<exists>st'. assign_loop (hd (ys @ [m])) m (hd (bs @ [r])) r st =
      Some (hd (drop (length bs) ys @ [m]), hd (drop (length ys) bs @ [r]), st') \<and> fresh_store st' \<and>
    list_rep st' m (xs @ ys) (vs @ take (length ys) zs @ drop (length bs) ws) \<and>
    dom (cells st') = dom (cells st) \<and> agree (- set (m # xs @ ys)) st st'"
  using assms
proof (induction ys arbitrary: st xs vs ws as bs us zs)
  case Nil
  have "ws = []" using list_rep_length [OF Nil.prems(1)] Nil.prems(2) by simp
  then show ?case using Nil.prems by (simp add: assign_loop.simps agree_def)
next
  case (Cons y ys)
  obtain w ws' where w: "ws = w # ws'" using list_rep_length [OF Cons.prems(1)] Cons.prems(2) by (cases ws) auto
  have ym: "y \<noteq> m" using Cons.prems(1) by (simp add: list_rep_def)
  show ?case
  proof (cases bs)
    case Nil
    then have "zs = []" using list_rep_length [OF Cons.prems(3)] Cons.prems(4) by simp
    then show ?thesis using Cons.prems Nil by (simp add: assign_loop.simps agree_def)
  next
    case (Cons b bs')
    obtain z zs' where z: "zs = z # zs'"
      using list_rep_length [OF Cons.prems(3)] Cons.prems(4) Cons by (cases zs) auto
    have src: "list_rep st r (as @ b # bs') (us @ z # zs')" and dst: "list_rep st m (xs @ y # ys) (vs @ w # ws')"
      using Cons.prems Cons z w by simp_all
    obtain st1 where s: "setVal y z st = Some st1" "fresh_store st1" "list_rep st1 m (xs @ y # ys) (vs @ z # ws')"
      "dom (cells st1) = dom (cells st)" "agree (- {y}) st st1"
      using setVal_rep [OF dst Cons.prems(2,6)] by blast
    have src1: "list_rep st1 r (as @ b # bs') (us @ z # zs')"
      using Cons.prems(5) Cons by (intro list_rep_agree [OF src] agree_mono [OF s(5)]) auto
    obtain st' where l: "assign_loop (hd (ys @ [m])) m (hd (bs' @ [r])) r st1 =
        Some (hd (drop (length bs') ys @ [m]), hd (drop (length ys) bs' @ [r]), st')" "fresh_store st'"
      "list_rep st' m ((xs @ [y]) @ ys) ((vs @ [z]) @ take (length ys) zs' @ drop (length bs') ws')"
      "dom (cells st') = dom (cells st1)" "agree (- set (m # (xs @ [y]) @ ys)) st1 st'"
      using Cons.IH [of st1 "xs @ [y]" "vs @ [z]" ws' "as @ [b]" bs' "us @ [z]" zs'] s src1 Cons.prems Cons by auto
    have "b \<noteq> r" using src by (simp add: list_rep_def)
    moreover have "it_post_inc b st = Some (b, hd (bs' @ [r]))" "it_post_inc y st = Some (y, hd (ys @ [m]))"
      using list_rep_next [OF src] list_rep_next [OF dst] by (simp_all add: it_post_inc_def)
    moreover have "it_deref b st = Some z" using list_rep_ref [OF src Cons.prems(4)] by (simp add: it_deref_def)
    ultimately have "assign_loop (hd ((y # ys) @ [m])) m (hd (bs @ [r])) r st =
        Some (hd (drop (length bs) (y # ys) @ [m]), hd (drop (length (y # ys)) bs @ [r]), st')"
      using ym s(1) l(1) Cons by (subst assign_loop.simps) simp
    moreover have "agree (- set (m # xs @ y # ys)) st st'"
      by (rule agree_mono [OF agree_trans [OF s(5) l(5)]]) auto
    ultimately show ?thesis using l s(4) w z Cons by auto
  qed
qed

lemma hd_end: "m \<notin> set ps \<Longrightarrow> hd (ps @ [m]) = m \<longleftrightarrow> ps = []"
  by (cases ps) auto

lemma List_assign_rep:
  assumes dst: "list_rep st m ps vs" and src: "list_rep st r qs ws"
    and dis: "set (m # ps) \<inter> set (r # qs) = {}" and st: "fresh_store st"
  shows "\<exists>ps' st'. List_assign m r st = Some st' \<and> fresh_store st' \<and> list_rep st' m ps' ws \<and>
    agree (- (set (m # ps) \<union> set ps')) st st' \<and> set ps' \<inter> dom (cells st) \<subseteq> set ps \<and>
    dom (cells st') = dom (cells st) - set ps \<union> set ps'"
proof -
  let ?k = "length qs" and ?l = "length ps"
  have lens: "length vs = ?l" "length ws = ?k"
    using list_rep_length [OF dst] list_rep_length [OF src] by simp_all
  obtain st1 where l: "assign_loop (hd (ps @ [m])) m (hd (qs @ [r])) r st =
      Some (hd (drop ?k ps @ [m]), hd (drop ?l qs @ [r]), st1)" "fresh_store st1"
    "list_rep st1 m ps (take ?l ws @ drop ?k vs)" "dom (cells st1) = dom (cells st)" "agree (- set (m # ps)) st st1"
    using assign_loop_rep [of st m "[]" ps "[]" vs r "[]" qs "[]" ws] assms by auto
  have mr: "m \<noteq> r" "m \<notin> set ps" "r \<notin> set qs" using dis dst src by (auto simp: list_rep_def)
  have "set (drop ?l qs) \<subseteq> set qs" by (rule set_drop_subset)
  then have sr: "r \<notin> set (drop ?l qs)" using mr by blast
  have start: "list_begin m st = Some (hd (ps @ [m]))" "list_begin r st = Some (hd (qs @ [r]))"
    using list_rep_begin dst src by blast+
  show ?thesis
  proof (cases "?k \<le> ?l")
    case True
    have "list_rep st1 m (take ?k ps @ drop ?k ps @ []) (ws @ drop ?k vs @ [])"
      using l(3) True lens by simp
    from list_erase_range_rep [OF this, of m] obtain st' where
      e: "list_erase_range (hd (drop ?k ps @ [m])) m st1 = Some (m, st')" "fresh_store st'" "list_rep st' m (take ?k ps) ws"
      "dom (cells st') = dom (cells st1) - set (drop ?k ps)" "agree (- set (m # ps)) st1 st'"
      using True lens l(2) by auto
    have "List_assign m r st = Some st'"
      using mr start l(1) e(1) True by (simp add: List_assign_def list_end_def)
    moreover have "agree (- (set (m # ps) \<union> set (take ?k ps))) st st'"
      by (rule agree_mono [OF agree_trans [OF l(5) e(5)]]) auto
    moreover have "set ps = set (take ?k ps) \<union> set (drop ?k ps)" "set (take ?k ps) \<inter> set (drop ?k ps) = {}"
      using dst by (simp_all add: list_rep_def set_take_disj_set_drop_if_distinct flip: set_append)
    moreover have "set ps \<subseteq> dom (cells st)" using list_rep_dom [OF dst] by simp
    ultimately show ?thesis
      using e l(4) by (intro exI [of _ "take ?k ps"] exI [of _ st']) auto
  next
    case False
    then have d: "list_rep st1 m (ps @ []) (take ?l ws @ [])" using l(3) lens by simp
    have s: "list_rep st1 r (take ?l qs @ drop ?l qs) (take ?l ws @ drop ?l ws)"
      using dis by (simp, intro list_rep_agree [OF src] agree_mono [OF l(5)]) auto
    obtain ns st' where i: "list_insert_range m (hd (drop ?l qs @ [r])) r st1 = Some st'" "fresh_store st'"
      "list_rep st' m (ps @ ns) ws" "set ns \<inter> dom (cells st1) = {}" "dom (cells st') = dom (cells st1) \<union> set ns"
      "agree (- (set (m # ps) \<union> set ns)) st1 st'"
      using list_insert_range_rep [OF d _ s, of m] False lens l(2) dis by auto
    have "hd (drop ?l qs @ [r]) \<noteq> r" using hd_end [OF sr] False by simp
    then have "List_assign m r st = Some st'"
      using mr start l(1) i(1) False by (simp add: List_assign_def list_end_def)
    moreover have "agree (- (set (m # ps) \<union> set (ps @ ns))) st st'"
      by (rule agree_mono [OF agree_trans [OF l(5) i(6)]]) auto
    moreover have "set ps \<subseteq> dom (cells st)" using list_rep_dom [OF dst] by simp
    ultimately show ?thesis
      using i l(4) by (intro exI [of _ "ps @ ns"] exI [of _ st']) auto
  qed
qed

lemma List_copy_rep:
  assumes src: "list_rep st r qs ws" and st: "fresh_store st"
  shows "\<exists>m ps st'. List_copy r st = Some (m, st') \<and> fresh_store st' \<and> list_rep st' m ps ws \<and>
    set (m # ps) \<inter> dom (cells st) = {} \<and> dom (cells st') = dom (cells st) \<union> set (m # ps) \<and>
    agree (- set (m # ps)) st st'"
proof -
  obtain m st1 where p: "prep st = Some (m, st1)" "m \<notin> dom (cells st)" "fresh_store st1" "list_rep st1 m [] []"
    "dom (cells st1) = insert m (dom (cells st))" "agree (- {m}) st st1"
    using prep_rep [OF st] by blast
  have qd: "set (r # qs) \<subseteq> dom (cells st)" by (rule list_rep_dom [OF src])
  then have m: "m \<notin> set (r # qs)" using p(2) by blast
  have src1: "list_rep st1 r qs ws" using m by (intro list_rep_agree [OF src] agree_mono [OF p(6)]) auto
  obtain ns st' where i: "list_insert_range m (hd (qs @ [r])) r st1 = Some st'" "fresh_store st'"
    "list_rep st' m ns ws" "set ns \<inter> dom (cells st1) = {}" "dom (cells st') = dom (cells st1) \<union> set ns"
    "agree (- (set [m] \<union> set ns)) st1 st'"
    using list_insert_range_rep [of st1 m "[]" "[]" "[]" "[]" r "[]" qs "[]" ws m] p(3,4) src1 m by auto
  have "List_copy r st = Some (m, st')"
    using p(1) i(1) list_rep_begin [OF p(4)] list_rep_begin [OF src1] by (simp add: List_copy_def list_end_def)
  moreover have "agree (- set (m # ns)) st st'"
    by (rule agree_mono [OF agree_trans [OF p(6) i(6)]]) auto
  ultimately show ?thesis using i p(2,5) by (intro exI [of _ m] exI [of _ ns] exI [of _ st']) auto
qed

subsection \<open>The list as a sequence\<close>

text \<open>The contract of a sequence container in a store: what its operations do to the sequence it
  stands for, and that they keep the invariant of the store.\<close>

locale sequence =
  fixes inv :: "'s \<Rightarrow> bool" and seq :: "'s \<Rightarrow> 'l \<Rightarrow> 'a list \<Rightarrow> bool"
    and put_first :: "'l \<Rightarrow> 'a \<Rightarrow> 's \<Rightarrow> 's option" and put_last :: "'l \<Rightarrow> 'a \<Rightarrow> 's \<Rightarrow> 's option"
    and count :: "'l \<Rightarrow> 's \<Rightarrow> nat option" and wipe :: "'l \<Rightarrow> 's \<Rightarrow> 's option"
  assumes put_first: "inv s \<Longrightarrow> seq s l vs \<Longrightarrow> \<exists>s'. put_first l v s = Some s' \<and> inv s' \<and> seq s' l (v # vs)"
    and put_last: "inv s \<Longrightarrow> seq s l vs \<Longrightarrow> \<exists>s'. put_last l v s = Some s' \<and> inv s' \<and> seq s' l (vs @ [v])"
    and count: "inv s \<Longrightarrow> seq s l vs \<Longrightarrow> count l s = Some (length vs)"
    and wipe: "inv s \<Longrightarrow> seq s l vs \<Longrightarrow> \<exists>s'. wipe l s = Some s' \<and> inv s' \<and> seq s' l []"
begin

lemma backs:
  assumes "inv s" and "seq s l vs"
  shows "\<exists>s'. fold (\<lambda>v s. Option.bind s (put_last l v)) ws (Some s) = Some s' \<and> inv s' \<and> seq s' l (vs @ ws) \<and>
    count l s' = Some (length vs + length ws)"
  using assms
proof (induction ws arbitrary: s vs)
  case Nil
  then show ?case using count by auto
next
  case (Cons w ws)
  obtain s1 where s1: "put_last l w s = Some s1" "inv s1" "seq s1 l (vs @ [w])" using put_last [OF Cons.prems] by blast
  then show ?case using Cons.IH [OF s1(2,3)] by auto
qed

lemma fronts:
  assumes "inv s" and "seq s l vs"
  shows "\<exists>s'. fold (\<lambda>v s. Option.bind s (put_first l v)) ws (Some s) = Some s' \<and> inv s' \<and> seq s' l (rev ws @ vs)"
  using assms
proof (induction ws arbitrary: s vs)
  case (Cons w ws)
  obtain s1 where s1: "put_first l w s = Some s1" "inv s1" "seq s1 l (w # vs)" using put_first [OF Cons.prems] by blast
  then show ?case using Cons.IH [OF s1(2,3)] by auto
qed auto

end

definition list_is :: "'a store \<Rightarrow> nat \<Rightarrow> 'a list \<Rightarrow> bool" where
  "list_is st m vs \<longleftrightarrow> (\<exists>ps. list_rep st m ps vs)"

lemma push_back_rep:
  assumes "list_rep st m ps vs" and "fresh_store st"
  shows "\<exists>new st'. push_back m v st = Some st' \<and> fresh_store st' \<and> list_rep st' m (ps @ [new]) (vs @ [v])"
proof -
  have "list_rep st m (ps @ []) (vs @ [])" using assms(1) by simp
  from list_insert_rep [OF this list_rep_length [OF assms(1)] assms(2), of m v]
  show ?thesis by (fastforce simp: push_back_def list_end_def)
qed

lemma push_front_rep:
  assumes "list_rep st m ps vs" and "fresh_store st"
  shows "\<exists>new st'. push_front m v st = Some st' \<and> fresh_store st' \<and> list_rep st' m (new # ps) (v # vs)"
proof -
  have "list_rep st m ([] @ ps) ([] @ vs)" using assms(1) by simp
  from list_insert_rep [OF this _ assms(2), of "hd (ps @ [m])" v]
  show ?thesis using list_rep_begin [OF assms(1)] by (fastforce simp: push_front_def)
qed

interpretation node_list: sequence fresh_store list_is push_front push_back list_size list_clear
proof unfold_locales
  fix s :: "'b store" and l v vs
  assume s: "fresh_store s" "list_is s l vs"
  then obtain ps where r: "list_rep s l ps vs" by (auto simp: list_is_def)
  show "\<exists>s'. push_front l v s = Some s' \<and> fresh_store s' \<and> list_is s' l (v # vs)"
    using push_front_rep [OF r s(1)] unfolding list_is_def by blast
  show "\<exists>s'. push_back l v s = Some s' \<and> fresh_store s' \<and> list_is s' l (vs @ [v])"
    using push_back_rep [OF r s(1)] unfolding list_is_def by blast
  show "list_size l s = Some (length vs)" by (rule list_size_rep [OF r])
  show "\<exists>s'. list_clear l s = Some s' \<and> fresh_store s' \<and> list_is s' l []"
    using list_clear_rep [OF r s(1)] unfolding list_is_def by blast
qed

text \<open>A store to start from: nothing allocated, addresses in increasing order.\<close>

definition empty_store :: "'a store" where
  "empty_store = \<lparr>cells = (\<lambda>_. None), malloc = (\<lambda>h. Suc (Max (insert 0 (dom h))))\<rparr>"

lemma fresh_empty_store: "fresh_store empty_store"
proof -
  have "Suc (Max (insert 0 (dom h))) \<notin> dom h" if "finite (dom h)" for h :: "nat \<rightharpoonup> 'a node"
  proof
    assume "Suc (Max (insert 0 (dom h))) \<in> dom h"
    then have "Suc (Max (insert 0 (dom h))) \<le> Max (insert 0 (dom h))" using that by (intro Max_ge) auto
    then show False by simp
  qed
  then show ?thesis by (simp add: fresh_store_def empty_store_def)
qed

lemma List_new_rep: "fresh_store st \<Longrightarrow> \<exists>m st'. List_new st = Some (m, st') \<and> fresh_store st' \<and> list_is st' m []"
  using prep_rep [of st] unfolding List_new_def list_is_def by blast

text \<open>A store with a list of one element at 1 and an empty list at 4.\<close>

definition two_lists :: "int store" where
  "two_lists = empty_store\<lparr>cells := [1 \<mapsto> \<lparr>mVal = None, mpPrev = Some 2, mpNext = Some 2\<rparr>,
     2 \<mapsto> \<lparr>mVal = Some 7, mpPrev = Some 1, mpNext = Some 1\<rparr>, 4 \<mapsto> \<lparr>mVal = None, mpPrev = Some 4, mpNext = Some 4\<rparr>]\<rparr>"

lemma two_lists_rep: "list_rep two_lists 1 [2] [7]" "list_rep two_lists 4 [] []" "fresh_store two_lists"
  using fresh_empty_store [where 'a = int] by (simp_all add: list_rep_def two_lists_def get_defs fresh_store_def)

subsection \<open>Properties\<close>

text \<open>C20: a list refines the sequence of its values: appending any values to it one after the other gives
  the concatenation, prepending them gives their reversal in front, and then the size is the length,
  clearing it gives the empty list, and none of this can fault.\<close>

theorem list_refines_sequence:
  assumes "fresh_store st" and "list_is st m vs"
  shows "\<exists>st1 st2 st3. fold (\<lambda>v s. Option.bind s (push_back m v)) ws (Some st) = Some st1 \<and> list_is st1 m (vs @ ws) \<and>
    fold (\<lambda>v s. Option.bind s (push_front m v)) us (Some st1) = Some st2 \<and> list_is st2 m (rev us @ vs @ ws) \<and>
    list_size m st2 = Some (length us + length vs + length ws) \<and>
    list_clear m st2 = Some st3 \<and> list_is st3 m [] \<and> list_empty m st3 = Some True"
proof -
  obtain st1 where b: "fold (\<lambda>v s. Option.bind s (push_back m v)) ws (Some st) = Some st1" "fresh_store st1"
    "list_is st1 m (vs @ ws)"
    using node_list.backs [OF assms] by blast
  obtain st2 where f: "fold (\<lambda>v s. Option.bind s (push_front m v)) us (Some st1) = Some st2" "fresh_store st2"
    "list_is st2 m (rev us @ vs @ ws)"
    using node_list.fronts [OF b(2,3)] by blast
  obtain st3 where c: "list_clear m st2 = Some st3" "list_is st3 m []" using node_list.wipe [OF f(2,3)] by blast
  then have "list_empty m st3 = Some True" using list_empty_rep unfolding list_is_def by fastforce
  then show ?thesis using b f c node_list.count [OF f(2,3)] by auto
qed

theorem list_refines_sequence_witness:
  "\<exists>m st st3. List_new empty_store = Some (m, st) \<and>
    Option.bind (push_front m (3::int) st) (list_clear m) = Some st3 \<and> list_empty m st3 = Some True"
proof -
  obtain m st where n: "List_new (empty_store :: int store) = Some (m, st)" "fresh_store st" "list_is st m []"
    using List_new_rep [OF fresh_empty_store] by blast
  then show ?thesis using list_refines_sequence [OF n(2,3), of "[]" "[3]"] by auto
qed

text \<open>C21: assigning one list to another that shares no node with it makes the target hold the source's
  values, whichever is longer, and leaves the source as it was; the target's nodes are reused, and
  what it allocates or frees is exactly the difference.\<close>

theorem list_assign_copies:
  assumes "list_rep st m ps vs" and "list_rep st r qs ws" and "set (m # ps) \<inter> set (r # qs) = {}" and "fresh_store st"
  shows "\<exists>ps' st'. List_assign m r st = Some st' \<and> list_rep st' m ps' ws \<and> list_rep st' r qs ws \<and>
    set ps' \<inter> dom (cells st) \<subseteq> set ps \<and> dom (cells st') = dom (cells st) - set ps \<union> set ps'"
proof -
  obtain ps' st' where a: "List_assign m r st = Some st'" "list_rep st' m ps' ws"
    "agree (- (set (m # ps) \<union> set ps')) st st'" "set ps' \<inter> dom (cells st) \<subseteq> set ps"
    "dom (cells st') = dom (cells st) - set ps \<union> set ps'"
    using List_assign_rep [OF assms] by blast
  have "set (r # qs) \<subseteq> dom (cells st)" by (rule list_rep_dom [OF assms(2)])
  then have "set (r # qs) \<inter> set ps' = {}" using a(4) assms(3) by auto
  then have "agree (set (r # qs)) st st'" using assms(3) by (intro agree_mono [OF a(3)]) auto
  then have "list_rep st' r qs ws" by (rule list_rep_agree [OF assms(2)])
  then show ?thesis using a by blast
qed

theorem list_assign_copies_witness:
  "\<exists>ps' st'. List_assign 4 1 two_lists = Some st' \<and> list_rep st' 4 ps' [7] \<and> list_rep st' 1 [2] [7]"
  using list_assign_copies [OF two_lists_rep(2,1) _ two_lists_rep(3)] by auto

text \<open>C32: the copy constructor makes a list with the same elements, and deleting the copy gives back
  exactly the nodes that were made for it: the same addresses are in use as before, nothing faults
  and the original list is intact, so the copy shares no node with it and leaks none. The
  only condition is that \<open>new\<close> returns an address that is not in use.\<close>

theorem list_copy_delete:
  assumes "list_rep st r qs ws" and "fresh_store st"
  shows "\<exists>m st1 st2. List_copy r st = Some (m, st1) \<and> list_is st1 m ws \<and> List_delete m st1 = Some st2 \<and>
    dom (cells st2) = dom (cells st) \<and> list_rep st2 r qs ws"
proof -
  obtain m ps st1 where c: "List_copy r st = Some (m, st1)" "fresh_store st1" "list_rep st1 m ps ws"
    "set (m # ps) \<inter> dom (cells st) = {}" "dom (cells st1) = dom (cells st) \<union> set (m # ps)" "agree (- set (m # ps)) st st1"
    using List_copy_rep [OF assms] by blast
  obtain st2 where d: "List_delete m st1 = Some st2" "dom (cells st2) = dom (cells st1) - set (m # ps)"
    "agree (- set (m # ps)) st1 st2"
    using List_delete_rep [OF c(3,2)] by blast
  have "set (r # qs) \<subseteq> dom (cells st)" by (rule list_rep_dom [OF assms(1)])
  then have "set (r # qs) \<subseteq> - set (m # ps) \<inter> - set (m # ps)" using c(4) by blast
  then have "list_rep st2 r qs ws"
    by (intro list_rep_agree [OF assms(1)] agree_mono [OF agree_trans [OF c(6) d(3)]])
  moreover have "dom (cells st2) = dom (cells st)"
    unfolding d(2) c(5) using c(4) by (simp only: Un_Diff Diff_cancel) blast
  moreover have "list_is st1 m ws" using c(3) unfolding list_is_def by blast
  ultimately show ?thesis using c(1) d(1) by (intro exI [of _ m] exI [of _ st1] exI [of _ st2] conjI)
qed

theorem list_copy_delete_witness:
  "\<exists>m st1 st2. List_copy 1 two_lists = Some (m, st1) \<and> List_delete m st1 = Some st2 \<and> list_rep st2 1 [2] [7]"
  using list_copy_delete [OF two_lists_rep(1,3)] by blast

end
