(* ===== verification/Vec_Templates.thy ===== *)
theory Vec_Templates
  imports Cam_Prelude Complex_Main
begin

text \<open>
  The vector templates of \<open>ui/TVecHelpers.h\<close> and \<open>ui/vec2.h\<close> to \<open>vec4.h\<close>. The helpers need of a
  vector only \<open>operator[]\<close> and \<open>size()\<close>: a vector is the list of its components, and an operator that
  updates every component with the matching one of another vector is \<open>map2\<close>. The element type is any
  field, so the results are about exact arithmetic: the rounding of \<open>float\<close> is not modelled. \<open>sqrt\<close> of
  the C library is an argument; \<open>conv\<close> converts the elements of a vector of another type.
\<close>

subsection \<open>Operators\<close>

definition vec_add_assign :: "('b \<Rightarrow> 'a) \<Rightarrow> 'a::field list \<Rightarrow> 'b list \<Rightarrow> 'a list" where
  "vec_add_assign conv rhs v = map2 (\<lambda>a b. a + conv b) rhs v"

definition vec_sub_assign :: "('b \<Rightarrow> 'a) \<Rightarrow> 'a::field list \<Rightarrow> 'b list \<Rightarrow> 'a list" where
  "vec_sub_assign conv rhs v = map2 (\<lambda>a b. a - conv b) rhs v"

definition vec_add :: "'a::field list \<Rightarrow> 'a list \<Rightarrow> 'a list" where
  "vec_add lv rv = vec_add_assign (\<lambda>x. x) lv rv"

definition vec_sub :: "'a::field list \<Rightarrow> 'a list \<Rightarrow> 'a list" where
  "vec_sub lv rv = vec_sub_assign (\<lambda>x. x) lv rv"

definition vec_mul_assign :: "('b \<Rightarrow> 'a) \<Rightarrow> 'a::field list \<Rightarrow> 'b list \<Rightarrow> 'a list" where
  "vec_mul_assign conv rhs v = map2 (\<lambda>a b. a * conv b) rhs v"

definition vec_div_assign :: "('b \<Rightarrow> 'a) \<Rightarrow> 'a::field list \<Rightarrow> 'b list \<Rightarrow> 'a list" where
  "vec_div_assign conv rhs v = map2 (\<lambda>a b. a / conv b) rhs v"

definition vec_mul :: "'a::field list \<Rightarrow> 'a list \<Rightarrow> 'a list" where
  "vec_mul lv rv = vec_mul_assign (\<lambda>x. x) lv rv"

definition vec_div :: "'a::field list \<Rightarrow> 'a list \<Rightarrow> 'a list" where
  "vec_div lv rv = vec_div_assign (\<lambda>x. x) lv rv"

definition vec_inc :: "'a::field list \<Rightarrow> 'a list" where
  "vec_inc rhs = map (\<lambda>a. a + 1) rhs"

definition vec_dec :: "'a::field list \<Rightarrow> 'a list" where
  "vec_dec rhs = map (\<lambda>a. a - 1) rhs"

definition vec_neg :: "'a::field list \<Rightarrow> 'a list" where
  "vec_neg rv = map uminus rv"

text \<open>The comparison loops return at the first component that decides.\<close>

fun vec_eq :: "'a list \<Rightarrow> 'a list \<Rightarrow> bool" where
  "vec_eq (a # lv) (b # rv) = (if a \<noteq> b then False else vec_eq lv rv)"
| "vec_eq _ _ = True"

definition vec_ne :: "'a list \<Rightarrow> 'a list \<Rightarrow> bool" where
  "vec_ne lv rv = (\<not> vec_eq lv rv)"

fun vec_gt :: "'a::linorder list \<Rightarrow> 'a list \<Rightarrow> bool" where
  "vec_gt (a # lv) (b # rv) = (if a \<le> b then False else vec_gt lv rv)"
| "vec_gt _ _ = True"

definition vec_le :: "'a::linorder list \<Rightarrow> 'a list \<Rightarrow> bool" where
  "vec_le lv rv = (\<not> vec_gt lv rv)"

fun vec_lt :: "'a::linorder list \<Rightarrow> 'a list \<Rightarrow> bool" where
  "vec_lt (a # lv) (b # rv) = (if a \<ge> b then False else vec_lt lv rv)"
| "vec_lt _ _ = True"

definition vec_ge :: "'a::linorder list \<Rightarrow> 'a list \<Rightarrow> bool" where
  "vec_ge lv rv = (\<not> vec_lt lv rv)"

definition dot :: "'a::field list \<Rightarrow> 'a list \<Rightarrow> 'a" where
  "dot lv rv = fold (\<lambda>(a, b) r. r + a * b) (zip lv rv) 0"

definition vec_length :: "('a \<Rightarrow> 'a) \<Rightarrow> 'a::field list \<Rightarrow> 'a" where
  "vec_length sqrt_fn lv = sqrt_fn (dot lv lv)"

definition vec_distance :: "('a \<Rightarrow> 'a) \<Rightarrow> 'a::field list \<Rightarrow> 'a list \<Rightarrow> 'a" where
  "vec_distance sqrt_fn lv rv = vec_length sqrt_fn (vec_sub rv lv)"

text \<open>A scalar operand is converted to a vector with all components equal to it.\<close>

definition vec_splat :: "nat \<Rightarrow> 'a \<Rightarrow> 'a list" where
  "vec_splat n v = replicate n v"

definition normalize :: "('a \<Rightarrow> 'a) \<Rightarrow> 'a::field list \<Rightarrow> 'a list" where
  "normalize sqrt_fn lv = vec_mul lv (vec_splat (length lv) (1 / vec_length sqrt_fn lv))"

subsection \<open>vec2, vec3, vec4\<close>

definition tvec2_default :: "'a::zero list" where "tvec2_default = [0, 0]"
definition tvec2_of :: "'a \<Rightarrow> 'a \<Rightarrow> 'a list" where "tvec2_of x y = [x, y]"
definition tvec2_conv :: "('b \<Rightarrow> 'a) \<Rightarrow> 'b list \<Rightarrow> 'a list" where
  "tvec2_conv conv v = [conv (v ! 0), conv (v ! 1)]"

definition tvec3_default :: "'a::zero list" where "tvec3_default = [0, 0, 0]"
definition tvec3_of :: "'a \<Rightarrow> 'a \<Rightarrow> 'a \<Rightarrow> 'a list" where "tvec3_of x y z = [x, y, z]"
definition tvec3_of_vec2 :: "('b \<Rightarrow> 'a) \<Rightarrow> 'b list \<Rightarrow> 'a \<Rightarrow> 'a list" where
  "tvec3_of_vec2 conv v z = [conv (v ! 0), conv (v ! 1), z]"
definition tvec3_conv :: "('b \<Rightarrow> 'a) \<Rightarrow> 'b list \<Rightarrow> 'a list" where
  "tvec3_conv conv v = [conv (v ! 0), conv (v ! 1), conv (v ! 2)]"

definition tvec4_default :: "'a::zero list" where "tvec4_default = [0, 0, 0, 0]"
definition tvec4_of :: "'a \<Rightarrow> 'a \<Rightarrow> 'a \<Rightarrow> 'a \<Rightarrow> 'a list" where "tvec4_of x y z w = [x, y, z, w]"
definition tvec4_of_vec2 :: "('b \<Rightarrow> 'a) \<Rightarrow> 'b list \<Rightarrow> 'a \<Rightarrow> 'a \<Rightarrow> 'a list" where
  "tvec4_of_vec2 conv v z w = [conv (v ! 0), conv (v ! 1), z, w]"
definition tvec4_of_vec3 :: "('b \<Rightarrow> 'a) \<Rightarrow> 'b list \<Rightarrow> 'a \<Rightarrow> 'a list" where
  "tvec4_of_vec3 conv v w = [conv (v ! 0), conv (v ! 1), conv (v ! 2), w]"
definition tvec4_conv :: "('b \<Rightarrow> 'a) \<Rightarrow> 'b list \<Rightarrow> 'a list" where
  "tvec4_conv conv v = [conv (v ! 0), conv (v ! 1), conv (v ! 2), conv (v ! 3)]"

text \<open>An \<open>Impersonator\<close> in the union of a vector is a shorter vector at the same address: reading it
  takes the first components, assigning to it overwrites them.\<close>

definition impersonate :: "nat \<Rightarrow> 'a list \<Rightarrow> 'a list" where
  "impersonate n v = take n v"

definition impersonator_assign :: "'a list \<Rightarrow> 'a list \<Rightarrow> 'a list" where
  "impersonator_assign v rhs = rhs @ drop (length rhs) v"

definition cross :: "('b \<Rightarrow> 'a) \<Rightarrow> 'a::field list \<Rightarrow> 'b list \<Rightarrow> 'a list" where
  "cross conv u v = (let v = map conv v in tvec3_of
     (u ! 1 * v ! 2 - u ! 2 * v ! 1)
     (u ! 2 * v ! 0 - u ! 0 * v ! 2)
     (u ! 0 * v ! 1 - u ! 1 * v ! 0))"

subsection \<open>Lemmas\<close>

lemmas vec_op_defs = vec_add_def vec_sub_def vec_mul_def vec_div_def vec_add_assign_def vec_sub_assign_def
  vec_mul_assign_def vec_div_assign_def vec_splat_def

lemma vec_op_length [simp]:
  "length (vec_add u v) = min (length u) (length v)" "length (vec_sub u v) = min (length u) (length v)"
  "length (vec_mul u v) = min (length u) (length v)" "length (vec_neg u) = length u" "length (vec_splat n x) = n"
  by (simp_all add: vec_op_defs vec_neg_def)

lemma vec_op_nth [simp]:
  "i < length u \<Longrightarrow> i < length v \<Longrightarrow> vec_add u v ! i = u ! i + v ! i"
  "i < length u \<Longrightarrow> i < length v \<Longrightarrow> vec_sub u v ! i = u ! i - v ! i"
  "i < length u \<Longrightarrow> i < length v \<Longrightarrow> vec_mul u v ! i = u ! i * v ! i"
  "i < length u \<Longrightarrow> vec_neg u ! i = - (u ! i)" "i < n \<Longrightarrow> vec_splat n x ! i = x"
  by (simp_all add: vec_op_defs vec_neg_def)

lemma fold_plus: "fold (\<lambda>x r. r + f x) xs (a :: 'a::field) = a + sum_list (map f xs)"
  by (induction xs arbitrary: a) (auto simp: add.assoc)

lemma dot_sum: "length u = length v \<Longrightarrow> dot u v = (\<Sum>i < length u. u ! i * v ! i)"
proof -
  assume l: "length u = length v"
  have "dot u v = sum_list (map (\<lambda>(a, b). a * b) (zip u v))"
    using fold_plus [of "\<lambda>(a, b). a * b" "zip u v" 0] by (simp add: dot_def case_prod_beta')
  also have "\<dots> = (\<Sum>i < length u. u ! i * v ! i)"
    using l by (simp add: sum_list_sum_nth atLeast0LessThan)
  finally show ?thesis .
qed

lemma dot_commute: "length u = length v \<Longrightarrow> dot u v = dot v u"
  by (simp add: dot_sum mult.commute)

lemma vec_sub_add: "length u = length v \<Longrightarrow> vec_sub (vec_add u v) v = u"
  by (rule nth_equalityI) simp_all

text \<open>The ordering operators compare all components: \<open>\<le>\<close> is not \<open>< or =\<close>.\<close>

lemma vec_lt_all: "length u = length v \<Longrightarrow> vec_lt u v \<longleftrightarrow> (\<forall>i < length u. u ! i < v ! i)"
  by (induction u v rule: vec_lt.induct) (auto simp: less_Suc_eq_0_disj not_le)

lemma vec_gt_lt: "length u = length v \<Longrightarrow> vec_gt u v \<longleftrightarrow> vec_lt v u"
  by (induction u v rule: vec_gt.induct) auto

lemma vec_eq_iff: "length u = length v \<Longrightarrow> vec_eq u v \<longleftrightarrow> u = v"
  by (induction u v rule: vec_eq.induct) auto

lemma vec_le_not_antisym:
  "vec_le [0, 1] [1, 0::int] \<and> vec_le [1, 0] [0, 1::int] \<and> vec_ne [0, 1] [1, 0::int]"
  by (simp add: vec_le_def vec_ne_def)

text \<open>The cross product is orthogonal to both factors.\<close>

lemma cross_orthogonal:
  assumes "length u = 3" "length v = 3"
  shows "dot u (cross (\<lambda>x. x) u v) = 0 \<and> dot v (cross (\<lambda>x. x) u v) = 0"
proof -
  obtain a b c d e f where "u = [a, b, c]" "v = [d, e, f]"
    using assms by (auto simp: numeral_3_eq_3 length_Suc_conv)
  then show ?thesis by (simp add: cross_def tvec3_of_def dot_def algebra_simps)
qed

lemma impersonator_read: "length rhs \<le> length v \<Longrightarrow> impersonate (length rhs) (impersonator_assign v rhs) = rhs"
  by (simp add: impersonate_def impersonator_assign_def)

lemma dot_scale: "dot (vec_mul u (vec_splat (length u) c)) (vec_mul u (vec_splat (length u) c)) = c * c * dot u u"
  by (simp add: dot_sum sum_distrib_left ac_simps)

lemma dot_self_pos: "v \<noteq> [] \<Longrightarrow> \<exists>x \<in> set v. x \<noteq> 0 \<Longrightarrow> 0 < dot v (v :: real list)"
proof -
  assume "\<exists>x \<in> set v. x \<noteq> 0"
  then obtain i where i: "i < length v" "v ! i \<noteq> 0" by (auto simp: in_set_conv_nth)
  have "0 < v ! i * v ! i" using i(2) by (simp add: zero_less_mult_iff) linarith
  also have "\<dots> \<le> (\<Sum>i < length v. v ! i * v ! i)"
    using i(1) by (intro member_le_sum) auto
  finally show ?thesis by (simp add: dot_sum)
qed

text \<open>Over the reals, normalizing a vector that is not zero gives one of length 1.\<close>

lemma normalize_length:
  assumes "\<exists>x \<in> set v. x \<noteq> 0"
  shows "vec_length sqrt (normalize sqrt (v :: real list)) = 1"
proof -
  let ?l = "vec_length sqrt v"
  have d: "0 < dot v v" using assms by (intro dot_self_pos) auto
  then have "?l \<noteq> 0" "?l * ?l = dot v v" by (simp_all add: vec_length_def)
  then show ?thesis using d by (simp add: vec_length_def normalize_def dot_scale)
qed

end
