(* ===== verification/Mat_Templates.thy ===== *)
theory Mat_Templates
  imports Vec_Templates
begin

text \<open>
  The matrix templates of \<open>ui/TMatHelpers.h\<close> and \<open>ui/mat4.h\<close>. A matrix is the list of its columns,
  \<open>m ! c ! r\<close> is \<open>m[c][r]\<close>; \<open>row_size\<close> is the number of columns. The functions of \<open>TMatHelpers.h\<close>
  are for any size, \<open>tmat44\<close> has size 4. As in \<open>Vec_Templates\<close> the elements are a field, ordered where
  magnitudes are compared, and \<open>sqrt\<close>, \<open>sin\<close> and \<open>cos\<close> of the C library are arguments.
\<close>

type_synonym 'a mat = "'a list list"

definition col_size :: "'a mat \<Rightarrow> nat" where
  "col_size m = length (m ! 0)"

definition row_size :: "'a mat \<Rightarrow> nat" where
  "row_size m = length m"

subsection \<open>Products\<close>

text \<open>\<open>result += rv[r] * lv[r]\<close> for every column; the scalar factor becomes a vector.\<close>

definition mat_vec :: "'a::field mat \<Rightarrow> 'a list \<Rightarrow> 'a list" where
  "mat_vec lv rv = fold (\<lambda>r result. vec_add result (vec_mul (vec_splat (col_size lv) (rv ! r)) (lv ! r)))
     [0..<row_size lv] (replicate (col_size lv) 0)"

definition vec_mat :: "'a::field list \<Rightarrow> 'a mat \<Rightarrow> 'a list" where
  "vec_mat rv lv = map (\<lambda>r. dot rv (lv ! r)) [0..<row_size lv]"

definition mat_scalar :: "'a::field mat \<Rightarrow> 'a \<Rightarrow> 'a mat" where
  "mat_scalar lv rv = map (\<lambda>r. vec_mul (lv ! r) (vec_splat (col_size lv) rv)) [0..<row_size lv]"

definition scalar_mat :: "'a::field \<Rightarrow> 'a mat \<Rightarrow> 'a mat" where
  "scalar_mat rv lv = map (\<lambda>r. vec_mul (lv ! r) (vec_splat (col_size lv) rv)) [0..<row_size lv]"

definition mat_mul_assign :: "'a::field mat \<Rightarrow> 'a \<Rightarrow> 'a mat" where
  "mat_mul_assign lhs v = fold (\<lambda>r lhs. lhs[r := vec_mul (lhs ! r) (vec_splat (col_size lhs) v)]) [0..<row_size lhs] lhs"

definition mat_div_assign :: "'a::field mat \<Rightarrow> 'a \<Rightarrow> 'a mat" where
  "mat_div_assign lhs v = fold (\<lambda>r lhs. lhs[r := vec_div (lhs ! r) (vec_splat (col_size lhs) v)]) [0..<row_size lhs] lhs"

definition multiply :: "'a::field mat \<Rightarrow> 'a mat \<Rightarrow> 'a mat" where
  "multiply lhs rhs = map (\<lambda>r. mat_vec lhs (rhs ! r)) [0..<row_size rhs]"

subsection \<open>Square matrices\<close>

text \<open>\<open>transpose\<close> and \<open>trace\<close> of a scalar, and of a matrix of scalars.\<close>

definition transpose_scalar :: "'a \<Rightarrow> 'a" where "transpose_scalar v = v"
definition trace_scalar :: "'a \<Rightarrow> 'a" where "trace_scalar v = v"

definition mat_transpose :: "'a mat \<Rightarrow> 'a mat" where
  "mat_transpose m = map (\<lambda>c. map (\<lambda>r. transpose_scalar (m ! r ! c)) [0..<row_size m]) [0..<col_size m]"

definition mat_trace :: "'a::field mat \<Rightarrow> 'a" where
  "mat_trace m = fold (\<lambda>r result. result + trace_scalar (m ! r ! r)) [0..<row_size m] 0"

definition mat_diag :: "'a mat \<Rightarrow> 'a list" where
  "mat_diag m = map (\<lambda>r. m ! r ! r) [0..<row_size m]"

text \<open>A matrix made from a scalar is the identity times it.\<close>

definition mat_of_scalar :: "nat \<Rightarrow> 'a::zero \<Rightarrow> 'a mat" where
  "mat_of_scalar n v = map (\<lambda>c. map (\<lambda>r. if c = r then v else 0) [0..<n]) [0..<n]"

definition mat_set :: "nat \<Rightarrow> nat \<Rightarrow> 'a \<Rightarrow> 'a mat \<Rightarrow> 'a mat" where
  "mat_set i k v m = m[i := (m ! i)[k := v]]"

text \<open>\<open>inverse\<close>: the search for the pivot, the exchange, the scaling and the elimination, each with its
  loops; the state is the pair of \<open>tmp\<close> and \<open>inverse\<close>.\<close>

definition pivot :: "'a::linordered_field mat \<Rightarrow> nat \<Rightarrow> nat \<Rightarrow> nat" where
  "pivot tmp n i = fold (\<lambda>j swap. if \<bar>tmp ! j ! i\<bar> > \<bar>tmp ! i ! i\<bar> then j else swap) [i + 1..<n] i"

definition swap_cell :: "nat \<Rightarrow> nat \<Rightarrow> nat \<Rightarrow> 'a mat \<Rightarrow> 'a mat" where
  "swap_cell i swap k m = (let t = m ! i ! k; m = mat_set i k (m ! swap ! k) m in mat_set swap k t m)"

definition swap_rows :: "nat \<Rightarrow> nat \<Rightarrow> nat \<Rightarrow> 'a mat \<times> 'a mat \<Rightarrow> 'a mat \<times> 'a mat" where
  "swap_rows n i swap = fold (\<lambda>k (tmp, inv). (swap_cell i swap k tmp, swap_cell i swap k inv)) [0..<n]"

definition scale_row :: "nat \<Rightarrow> nat \<Rightarrow> 'a::field \<Rightarrow> 'a mat \<times> 'a mat \<Rightarrow> 'a mat \<times> 'a mat" where
  "scale_row n i t = fold (\<lambda>k (tmp, inv). (mat_set i k (tmp ! i ! k * t) tmp, mat_set i k (inv ! i ! k * t) inv)) [0..<n]"

definition sub_row :: "nat \<Rightarrow> nat \<Rightarrow> nat \<Rightarrow> 'a::field \<Rightarrow> 'a mat \<times> 'a mat \<Rightarrow> 'a mat \<times> 'a mat" where
  "sub_row n i j t = fold (\<lambda>k (tmp, inv). (mat_set j k (tmp ! j ! k - tmp ! i ! k * t) tmp,
     mat_set j k (inv ! j ! k - inv ! i ! k * t) inv)) [0..<n]"

definition eliminate :: "nat \<Rightarrow> nat \<Rightarrow> 'a::field mat \<times> 'a mat \<Rightarrow> 'a mat \<times> 'a mat" where
  "eliminate n i = fold (\<lambda>j (tmp, inv). if j \<noteq> i then sub_row n i j (tmp ! j ! i) (tmp, inv) else (tmp, inv)) [0..<n]"

definition inverse_step :: "nat \<Rightarrow> nat \<Rightarrow> 'a::linordered_field mat \<times> 'a mat \<Rightarrow> 'a mat \<times> 'a mat" where
  "inverse_step n i = (\<lambda>(tmp, inv).
     let swap = pivot tmp n i;
         (tmp, inv) = (if swap \<noteq> i then swap_rows n i swap (tmp, inv) else (tmp, inv));
         (tmp, inv) = scale_row n i (1 / (tmp ! i ! i)) (tmp, inv)
     in eliminate n i (tmp, inv))"

definition mat_inverse :: "'a::linordered_field mat \<Rightarrow> 'a mat" where
  "mat_inverse src = (let n = col_size src in snd (fold (inverse_step n) [0..<n] (src, mat_of_scalar n 1)))"

subsection \<open>mat4\<close>

definition tmat44_default :: "'a::field mat" where
  "tmat44_default = [tvec4_of 1 0 0 0, tvec4_of 0 1 0 0, tvec4_of 0 0 1 0, tvec4_of 0 0 0 1]"

definition tmat44_scalar :: "'a::field \<Rightarrow> 'a mat" where
  "tmat44_scalar v = [tvec4_of v 0 0 0, tvec4_of 0 v 0 0, tvec4_of 0 0 v 0, tvec4_of 0 0 0 v]"

definition tmat44_diagonal :: "'a::field list \<Rightarrow> 'a mat" where
  "tmat44_diagonal v = [tvec4_of (v ! 0) 0 0 0, tvec4_of 0 (v ! 1) 0 0, tvec4_of 0 0 (v ! 2) 0, tvec4_of 0 0 0 (v ! 3)]"

definition tmat44_conv :: "('b \<Rightarrow> 'a) \<Rightarrow> 'b mat \<Rightarrow> 'a mat" where
  "tmat44_conv conv rhs = map (\<lambda>r. tvec4_conv conv (rhs ! r)) [0..<4]"

definition tmat44_columns :: "'a list \<Rightarrow> 'a list \<Rightarrow> 'a list \<Rightarrow> 'a list \<Rightarrow> 'a mat" where
  "tmat44_columns v0 v1 v2 v3 = [v0, v1, v2, v3]"

definition tmat44_raw :: "'a list \<Rightarrow> 'a mat" where
  "tmat44_raw rawArray = map (\<lambda>r. map (\<lambda>c. rawArray ! (4 * r + c)) [0..<4]) [0..<4]"

text \<open>The sixteen scalars in the order of the parameters.\<close>

definition tmat44_scalars :: "'a list \<Rightarrow> 'a mat" where
  "tmat44_scalars m = [tvec4_of (m ! 0) (m ! 1) (m ! 2) (m ! 3), tvec4_of (m ! 4) (m ! 5) (m ! 6) (m ! 7),
     tvec4_of (m ! 8) (m ! 9) (m ! 10) (m ! 11), tvec4_of (m ! 12) (m ! 13) (m ! 14) (m ! 15)]"

definition tmat44_asArray :: "'a mat \<Rightarrow> 'a list" where
  "tmat44_asArray m = concat m"

definition ortho :: "'a::field \<Rightarrow> 'a \<Rightarrow> 'a \<Rightarrow> 'a \<Rightarrow> 'a \<Rightarrow> 'a \<Rightarrow> 'a mat" where
  "ortho left right bottom top' near far = (
     let m = tmat44_default;
         m = mat_set 0 0 (2 / (right - left)) m;
         m = mat_set 1 1 (2 / (top' - bottom)) m;
         m = mat_set 2 2 (- 2 / (far - near)) m;
         m = mat_set 3 0 (- (right + left) / (right - left)) m;
         m = mat_set 3 1 (- (top' + bottom) / (top' - bottom)) m
     in mat_set 3 2 (- (far + near) / (far - near)) m)"

definition frustum :: "'a::field \<Rightarrow> 'a \<Rightarrow> 'a \<Rightarrow> 'a \<Rightarrow> 'a \<Rightarrow> 'a \<Rightarrow> 'a mat" where
  "frustum left right bottom top' near far = (
     let m = tmat44_default;
         A = (right + left) / (right - left);
         B = (top' + bottom) / (top' - bottom);
         C = (far + near) / (far - near);
         D = (2 * far * near) / (far - near);
         m = mat_set 0 0 ((2 * near) / (right - left)) m;
         m = mat_set 1 1 ((2 * near) / (top' - bottom)) m;
         m = mat_set 2 0 A m;
         m = mat_set 2 1 B m;
         m = mat_set 2 2 C m;
         m = mat_set 2 3 (- 1) m;
         m = mat_set 3 2 D m
     in mat_set 3 3 0 m)"

definition lookAt :: "('a \<Rightarrow> 'a) \<Rightarrow> 'a::field list \<Rightarrow> 'a list \<Rightarrow> 'a list \<Rightarrow> 'a mat" where
  "lookAt sqrt_fn eye center up = (
     let L = normalize sqrt_fn (vec_sub center eye);
         S = normalize sqrt_fn (cross (\<lambda>x. x) L up);
         U = cross (\<lambda>x. x) S L
     in tmat44_columns (tvec4_of_vec3 (\<lambda>x. x) S 0) (tvec4_of_vec3 (\<lambda>x. x) U 0)
          (tvec4_of_vec3 (\<lambda>x. x) (vec_neg L) 0) (tvec4_of_vec3 (\<lambda>x. x) (vec_neg eye) 1))"

definition translate :: "'a::field list \<Rightarrow> 'a mat" where
  "translate t = (let r = tmat44_default in r[3 := t])"

definition scale :: "'a::field list \<Rightarrow> 'a mat" where
  "scale s = (let r = tmat44_default; r = mat_set 0 0 (s ! 0) r; r = mat_set 1 1 (s ! 1) r; r = mat_set 2 2 (s ! 2) r
     in mat_set 3 3 (s ! 3) r)"

text \<open>\<open>rotate\<close>: the local variable it computes, written through the array of the 16 elements. The
  function has no return statement: using its result is undefined, the value None.\<close>

definition rset :: "nat \<Rightarrow> 'a \<Rightarrow> 'a mat \<Rightarrow> 'a mat" where
  "rset i v m = mat_set (i div 4) (i mod 4) v m"

definition rotation :: "('a \<Rightarrow> 'a) \<Rightarrow> ('a \<Rightarrow> 'a) \<Rightarrow> ('a \<Rightarrow> 'a) \<Rightarrow> 'a::field \<Rightarrow> 'a list \<Rightarrow> 'a mat" where
  "rotation sqrt_fn cos_fn sin_fn radian about = (
     let r = tmat44_default; c = cos_fn radian; s = sin_fn radian in
     if about ! 0 = 1 \<and> about ! 1 = 0 \<and> about ! 2 = 0 then
       rset 9 (- s) (rset 6 s (rset 10 c (rset 5 c r)))
     else if about ! 0 = 0 \<and> about ! 1 = 1 \<and> about ! 2 = 0 then
       rset 2 (- s) (rset 8 s (rset 10 c (rset 0 c r)))
     else if about ! 0 = 0 \<and> about ! 1 = 0 \<and> about ! 2 = 1 then
       rset 4 (- s) (rset 1 s (rset 5 c (rset 0 c r)))
     else let nabout = normalize sqrt_fn about;
         x = nabout ! 0; y = nabout ! 1; z = nabout ! 2; nc = 1 - c;
         xy = x * y; yz = y * z; zx = z * x; xs = x * s; ys = y * s; zs = z * s;
         r = rset 0 (x * x * nc + c) r; r = rset 4 (xy * nc - zs) r; r = rset 8 (zx * nc + ys) r;
         r = rset 1 (xy * nc + zs) r; r = rset 5 (y * y * nc + c) r; r = rset 9 (yz * nc - xs) r;
         r = rset 2 (zx * nc - ys) r; r = rset 6 (yz * nc + xs) r
       in rset 10 (z * z * nc + c) r)"

definition rotate :: "('a \<Rightarrow> 'a) \<Rightarrow> ('a \<Rightarrow> 'a) \<Rightarrow> ('a \<Rightarrow> 'a) \<Rightarrow> 'a::field \<Rightarrow> 'a list \<Rightarrow> 'a mat option" where
  "rotate sqrt_fn cos_fn sin_fn radian about = (let r = rotation sqrt_fn cos_fn sin_fn radian about in None)"

subsection \<open>Products, entry by entry\<close>

definition square :: "nat \<Rightarrow> 'a mat \<Rightarrow> bool" where
  "square n m \<longleftrightarrow> length m = n \<and> (\<forall>c < n. length (m ! c) = n)"

lemma square_sizes [simp]: "square n m \<Longrightarrow> row_size m = n" "square n m \<Longrightarrow> 0 < n \<Longrightarrow> col_size m = n"
  by (auto simp: square_def row_size_def col_size_def)

lemma square_eqI:
  assumes "square n a" "square n b" "\<And>r c. r < n \<Longrightarrow> c < n \<Longrightarrow> a ! r ! c = b ! r ! c"
  shows "a = b"
proof (rule nth_equalityI)
  show "length a = length b" using assms by (simp add: square_def)
  show "a ! r = b ! r" if "r < length a" for r
    by (rule nth_equalityI) (use assms that in \<open>auto simp: square_def\<close>)
qed

lemma sum_list_upt: "sum_list (map f [0..<n]) = (\<Sum>i < n. f i)"
  by (simp add: sum_list_sum_nth atLeast0LessThan)

lemma mat_vec_fold:
  assumes "\<forall>r \<in> set rs. length (lv ! r) = n" and "length a = n" and "i < n"
  shows "length (fold (\<lambda>r result. vec_add result (vec_mul (vec_splat n (rv ! r)) (lv ! r))) rs a) = n \<and>
    fold (\<lambda>r result. vec_add result (vec_mul (vec_splat n (rv ! r)) (lv ! r))) rs a ! i =
      a ! i + sum_list (map (\<lambda>r. rv ! r * lv ! r ! i) rs)"
  using assms by (induction rs arbitrary: a) (auto simp: add.assoc)

lemma mat_vec_nth:
  assumes "square n m" and "i < n"
  shows "length (mat_vec m v) = n" "mat_vec m v ! i = (\<Sum>r < n. v ! r * m ! r ! i)"
proof -
  have "0 < n" using assms(2) by simp
  have "\<forall>r \<in> set [0..<n]. length (m ! r) = n" using assms(1) by (auto simp: square_def)
  from mat_vec_fold [OF this _ assms(2), of "replicate n 0" v]
  show "length (mat_vec m v) = n" "mat_vec m v ! i = (\<Sum>r < n. v ! r * m ! r ! i)"
    using assms \<open>0 < n\<close> by (simp_all add: mat_vec_def sum_list_upt)
qed

lemma multiply_square:
  assumes "square n a" "square n b"
  shows "square n (multiply a b)"
proof -
  have "length (mat_vec a v) = n" if "0 < n" for v using mat_vec_nth [OF assms(1) that] by simp
  then show ?thesis using assms(2) by (auto simp: square_def multiply_def row_size_def)
qed

lemma multiply_nth:
  assumes "square n a" "square n b" "r < n" "i < n"
  shows "multiply a b ! r ! i = (\<Sum>k < n. b ! r ! k * a ! k ! i)"
  using assms by (simp add: multiply_def mat_vec_nth)

lemma mat_of_scalar_square: "square n (mat_of_scalar n v)"
  by (simp add: square_def mat_of_scalar_def)

lemma mat_of_scalar_nth: "r < n \<Longrightarrow> c < n \<Longrightarrow> mat_of_scalar n v ! r ! c = (if r = c then v else 0)"
  by (simp add: mat_of_scalar_def)

lemma transpose_square:
  assumes "square n m" "0 < n"
  shows "square n (mat_transpose m)"
  using assms by (simp add: mat_transpose_def) (simp add: square_def)

lemma transpose_nth: "square n m \<Longrightarrow> r < n \<Longrightarrow> c < n \<Longrightarrow> mat_transpose m ! r ! c = m ! c ! r"
  by (simp add: mat_transpose_def transpose_scalar_def)

lemma mat_trace_sum: "square n m \<Longrightarrow> mat_trace m = (\<Sum>r < n. m ! r ! r)"
  using fold_plus [of "\<lambda>r. m ! r ! r" "[0..<n]" 0] by (simp add: mat_trace_def trace_scalar_def sum_list_upt)

lemma sum_unit:
  fixes f :: "nat \<Rightarrow> 'a::semiring_1"
  assumes "c < n"
  shows "(\<Sum>k < n. (if k = c then 1 else 0) * f k) = f c" "(\<Sum>k < n. f k * (if k = c then 1 else 0)) = f c"
    "(\<Sum>k < n. (if c = k then 1 else 0) * f k) = f c" "(\<Sum>k < n. f k * (if c = k then 1 else 0)) = f c"
  using assms by (simp_all add: if_distrib [of "\<lambda>x. x * _"] if_distrib [of "\<lambda>x. _ * x"] cong: if_cong)

lemma multiply_one:
  assumes "square n m"
  shows "multiply (mat_of_scalar n 1) m = m" "multiply m (mat_of_scalar n 1) = m"
proof -
  note sq = assms mat_of_scalar_square [of n 1]
  show "multiply (mat_of_scalar n 1) m = m"
    by (rule square_eqI [OF multiply_square [OF sq(2,1)] sq(1)])
      (simp add: multiply_nth [OF sq(2,1)] mat_of_scalar_nth sum_unit)
  show "multiply m (mat_of_scalar n 1) = m"
    by (rule square_eqI [OF multiply_square [OF sq] sq(1)])
      (simp add: multiply_nth [OF sq] mat_of_scalar_nth sum_unit)
qed

subsection \<open>The steps of the inverse\<close>

lemma mat_set_point:
  assumes "square n m" "i < n" "k < n"
  shows "square n (mat_set i k v m)"
    and "r < n \<Longrightarrow> c < n \<Longrightarrow> mat_set i k v m ! r ! c = (if r = i \<and> c = k then v else m ! r ! c)"
  using assms by (auto simp: square_def mat_set_def nth_list_update)

lemma fold_pair: "fold (\<lambda>k (a, b). (F k a, G k b)) ks (a, b) = (fold F ks a, fold G ks b)"
  by (induction ks arbitrary: a b) auto

lemma scale_point:
  assumes "square n m" "i < n" "p \<le> n"
  shows "square n (fold (\<lambda>k m. mat_set i k (m ! i ! k * t) m) [0..<p] m) \<and>
    (\<forall>r < n. \<forall>c < n. fold (\<lambda>k m. mat_set i k (m ! i ! k * t) m) [0..<p] m ! r ! c =
       (if r = i \<and> c < p then m ! i ! c * t else m ! r ! c))"
  using assms(3)
proof (induction p)
  case (Suc p)
  then show ?case using assms(2) by (auto simp: mat_set_point less_Suc_eq)
qed (simp add: assms(1))

lemma sub_point:
  assumes "square n m" "i < n" "j < n" "i \<noteq> j" "p \<le> n"
  shows "square n (fold (\<lambda>k m. mat_set j k (m ! j ! k - m ! i ! k * t) m) [0..<p] m) \<and>
    (\<forall>r < n. \<forall>c < n. fold (\<lambda>k m. mat_set j k (m ! j ! k - m ! i ! k * t) m) [0..<p] m ! r ! c =
       (if r = j \<and> c < p then m ! j ! c - m ! i ! c * t else m ! r ! c))"
  using assms(5)
proof (induction p)
  case (Suc p)
  then show ?case using assms(2-4) by (auto simp: mat_set_point less_Suc_eq)
qed (simp add: assms(1))

lemma swap_cell_point:
  assumes "square n m" "i < n" "s < n" "i \<noteq> s" "k < n"
  shows "square n (swap_cell i s k m)"
    and "r < n \<Longrightarrow> c < n \<Longrightarrow> swap_cell i s k m ! r ! c =
      (if c = k then if r = i then m ! s ! k else if r = s then m ! i ! k else m ! r ! c else m ! r ! c)"
proof -
  have *: "square n (mat_set i k (m ! s ! k) m)" using assms by (simp add: mat_set_point)
  show "square n (swap_cell i s k m)" using assms * by (simp add: swap_cell_def mat_set_point)
  show "r < n \<Longrightarrow> c < n \<Longrightarrow> swap_cell i s k m ! r ! c =
      (if c = k then if r = i then m ! s ! k else if r = s then m ! i ! k else m ! r ! c else m ! r ! c)"
    using assms by (simp add: swap_cell_def mat_set_point(2) [OF *] mat_set_point(2) [OF assms(1)])
qed

lemma swap_point:
  assumes "square n m" "i < n" "s < n" "i \<noteq> s" "p \<le> n"
  shows "square n (fold (swap_cell i s) [0..<p] m) \<and>
    (\<forall>r < n. \<forall>c < n. fold (swap_cell i s) [0..<p] m ! r ! c =
       (if c < p then if r = i then m ! s ! c else if r = s then m ! i ! c else m ! r ! c else m ! r ! c))"
  using assms(5)
proof (induction p)
  case (Suc p)
  then show ?case using assms(2-4) by (auto simp: swap_cell_point less_Suc_eq)
qed (simp add: assms(1))

lemma eliminate_point:
  assumes "square n T" "square n I" "i < n" "p \<le> n"
  shows "\<exists>T' I'. fold (\<lambda>j (tmp, inv). if j \<noteq> i then sub_row n i j (tmp ! j ! i) (tmp, inv) else (tmp, inv)) [0..<p] (T, I) = (T', I') \<and>
    square n T' \<and> square n I' \<and>
    (\<forall>r < n. \<forall>c < n. T' ! r ! c = (if r < p \<and> r \<noteq> i then T ! r ! c - T ! i ! c * T ! r ! i else T ! r ! c)) \<and>
    (\<forall>r < n. \<forall>c < n. I' ! r ! c = (if r < p \<and> r \<noteq> i then I ! r ! c - I ! i ! c * T ! r ! i else I ! r ! c))"
  using assms(4)
proof (induction p)
  case (Suc p)
  then obtain T' I' where IH: "fold (\<lambda>j (tmp, inv). if j \<noteq> i then sub_row n i j (tmp ! j ! i) (tmp, inv) else (tmp, inv)) [0..<p] (T, I) = (T', I')"
    and sq: "square n T'" "square n I'"
    and pt: "\<forall>r < n. \<forall>c < n. T' ! r ! c = (if r < p \<and> r \<noteq> i then T ! r ! c - T ! i ! c * T ! r ! i else T ! r ! c)"
      "\<forall>r < n. \<forall>c < n. I' ! r ! c = (if r < p \<and> r \<noteq> i then I ! r ! c - I ! i ! c * T ! r ! i else I ! r ! c)"
    by auto
  show ?case
  proof (cases "p = i")
    case True
    then show ?thesis using IH sq pt by (auto simp: less_Suc_eq)
  next
    case False
    have "p < n" using Suc.prems by simp
    note S = sub_point [OF sq(1) assms(3) this _ order.refl, of "T' ! p ! i"] sub_point [OF sq(2) assms(3) this _ order.refl, of "T' ! p ! i"]
    then show ?thesis using IH pt False assms(3) \<open>p < n\<close>
      by (auto simp: sub_row_def fold_pair less_Suc_eq)
  qed
qed (simp add: assms)

text \<open>The matrices after one step, over the row \<open>s\<close> the pivot search chose: rows \<open>i\<close> and \<open>s\<close> are
  exchanged, row \<open>i\<close> is divided by the pivot and its multiples are taken from the other rows.\<close>

definition swapped :: "nat \<Rightarrow> nat \<Rightarrow> 'a mat \<Rightarrow> nat \<Rightarrow> nat \<Rightarrow> 'a" where
  "swapped i s A r c = (if r = i then A ! s ! c else if r = s then A ! i ! c else A ! r ! c)"

definition reduced :: "nat \<Rightarrow> nat \<Rightarrow> 'a::field mat \<Rightarrow> 'a mat \<Rightarrow> nat \<Rightarrow> nat \<Rightarrow> 'a" where
  "reduced i s T A r c = (if r = i then swapped i s A i c / swapped i s T i i
     else swapped i s A r c - swapped i s A i c / swapped i s T i i * swapped i s T r i)"

lemma fold_select:
  "(fold (\<lambda>j s. if Q j then j else s) js s = s \<and> (\<forall>j \<in> set js. \<not> Q j)) \<or>
   (fold (\<lambda>j s. if Q j then j else s) js s \<in> set js \<and> Q (fold (\<lambda>j s. if Q j then j else s) js s))"
proof (induction js arbitrary: s)
  case (Cons a js)
  show ?case using Cons.IH [of a] Cons.IH [of s] by (cases "Q a") auto
qed simp

lemma pivot_cases:
  fixes T :: "'a::linordered_field mat"
  assumes "i < n"
  shows "(pivot T n i = i \<and> (\<forall>j \<in> {i + 1..<n}. \<bar>T ! j ! i\<bar> \<le> \<bar>T ! i ! i\<bar>)) \<or>
    (i < pivot T n i \<and> pivot T n i < n \<and> \<bar>T ! i ! i\<bar> < \<bar>T ! pivot T n i ! i\<bar>)"
  using fold_select [of "\<lambda>j. \<bar>T ! j ! i\<bar> > \<bar>T ! i ! i\<bar>" "[i + 1..<n]" i] unfolding pivot_def [symmetric] by auto

lemma inverse_step_point:
  fixes T :: "'a::linordered_field mat"
  assumes "square n T" "square n I" "i < n"
  defines "s \<equiv> pivot T n i"
  obtains T' I' where "inverse_step n i (T, I) = (T', I')" "square n T'" "square n I'"
    "\<And>r c. r < n \<Longrightarrow> c < n \<Longrightarrow> T' ! r ! c = reduced i s T T r c"
    "\<And>r c. r < n \<Longrightarrow> c < n \<Longrightarrow> I' ! r ! c = reduced i s T I r c"
proof -
  have s: "s < n" using pivot_cases [OF assms(3), of T] assms(3) by (auto simp: s_def)
  obtain T1 I1 where 1: "(if s \<noteq> i then swap_rows n i s (T, I) else (T, I)) = (T1, I1)" "square n T1" "square n I1"
    "\<And>r c. r < n \<Longrightarrow> c < n \<Longrightarrow> T1 ! r ! c = swapped i s T r c"
    "\<And>r c. r < n \<Longrightarrow> c < n \<Longrightarrow> I1 ! r ! c = swapped i s I r c"
    using swap_point [OF assms(1) assms(3) s _ order.refl] swap_point [OF assms(2) assms(3) s _ order.refl] assms(1,2)
    by (cases "s = i") (auto simp: swap_rows_def fold_pair swapped_def)
  obtain T2 I2 where 2: "scale_row n i (1 / (T1 ! i ! i)) (T1, I1) = (T2, I2)" "square n T2" "square n I2"
    "\<And>r c. r < n \<Longrightarrow> c < n \<Longrightarrow> T2 ! r ! c = (if r = i then T1 ! i ! c / T1 ! i ! i else T1 ! r ! c)"
    "\<And>r c. r < n \<Longrightarrow> c < n \<Longrightarrow> I2 ! r ! c = (if r = i then I1 ! i ! c / T1 ! i ! i else I1 ! r ! c)"
    using scale_point [OF 1(2) assms(3) order.refl, of "1 / (T1 ! i ! i)"] scale_point [OF 1(3) assms(3) order.refl, of "1 / (T1 ! i ! i)"]
    by (simp add: scale_row_def fold_pair)
  obtain T3 I3 where 3: "eliminate n i (T2, I2) = (T3, I3)" "square n T3" "square n I3"
    "\<And>r c. r < n \<Longrightarrow> c < n \<Longrightarrow> T3 ! r ! c = (if r \<noteq> i then T2 ! r ! c - T2 ! i ! c * T2 ! r ! i else T2 ! r ! c)"
    "\<And>r c. r < n \<Longrightarrow> c < n \<Longrightarrow> I3 ! r ! c = (if r \<noteq> i then I2 ! r ! c - I2 ! i ! c * T2 ! r ! i else I2 ! r ! c)"
    using eliminate_point [OF 2(2,3) assms(3) order.refl] by (auto simp: eliminate_def)
  show thesis
    by (rule that [of T3 I3]) (use 1(1) 2(1) 3(1-3) assms(3) in \<open>simp_all add: inverse_step_def s_def [symmetric] 1(4,5) 2(4,5) 3(4,5) reduced_def\<close>)
qed

subsection \<open>The invariant of the inverse\<close>

text \<open>\<open>tmp\<close> is \<open>inverse\<close> times \<open>src\<close>, has no more solutions of \<open>tmp x = 0\<close> than \<open>src\<close>, and its first
  columns are those of the identity.\<close>

definition row_comb :: "nat \<Rightarrow> 'a::field mat \<Rightarrow> 'a mat \<Rightarrow> 'a mat \<Rightarrow> bool" where
  "row_comb n S T I \<longleftrightarrow> (\<forall>r < n. \<forall>c < n. T ! r ! c = (\<Sum>k < n. I ! r ! k * S ! k ! c))"

definition kills :: "nat \<Rightarrow> 'a::field mat \<Rightarrow> (nat \<Rightarrow> 'a) \<Rightarrow> bool" where
  "kills n T x \<longleftrightarrow> (\<forall>r < n. (\<Sum>c < n. T ! r ! c * x c) = 0)"

definition kernel_in :: "nat \<Rightarrow> 'a::field mat \<Rightarrow> 'a mat \<Rightarrow> bool" where
  "kernel_in n T S \<longleftrightarrow> (\<forall>x. kills n T x \<longrightarrow> kills n S x)"

definition nonsingular :: "nat \<Rightarrow> 'a::field mat \<Rightarrow> bool" where
  "nonsingular n S \<longleftrightarrow> (\<forall>x. kills n S x \<longrightarrow> (\<forall>c < n. x c = 0))"

definition unit_columns :: "nat \<Rightarrow> nat \<Rightarrow> 'a::field mat \<Rightarrow> bool" where
  "unit_columns n i T \<longleftrightarrow> (\<forall>r < n. \<forall>c < i. T ! r ! c = (if r = c then 1 else 0))"

lemma swapped_comb:
  assumes "row_comb n S T I" "i < n" "s < n" "r < n" "c < n"
  shows "swapped i s T r c = (\<Sum>k < n. swapped i s I r k * S ! k ! c)"
  using assms by (simp add: swapped_def row_comb_def)

lemma reduced_other: "r \<noteq> i \<Longrightarrow> reduced i s T A r c =
    swapped i s A r c - swapped i s A i c * (swapped i s T r i / swapped i s T i i)"
  by (simp add: reduced_def)

lemma sum_row_sub:
  fixes u v f :: "nat \<Rightarrow> 'a::field"
  shows "(\<Sum>k < n. (u k - v k * q) * f k) = (\<Sum>k < n. u k * f k) - (\<Sum>k < n. v k * f k) * q"
  by (simp only: left_diff_distrib sum_subtractf sum_distrib_right mult.assoc mult.commute [of q])

lemma reduced_comb:
  assumes "row_comb n S T I" "i < n" "s < n" "r < n" "c < n"
  shows "reduced i s T T r c = (\<Sum>k < n. reduced i s T I r k * S ! k ! c)"
proof -
  note U = swapped_comb [OF assms(1-3) _ assms(5)]
  show ?thesis
  proof (cases "r = i")
    case True
    then show ?thesis by (simp add: reduced_def U [OF assms(2)] sum_divide_distrib)
  next
    case False
    then show ?thesis by (simp only: reduced_other [OF False] sum_row_sub U [OF assms(4)] U [OF assms(2)])
  qed
qed

lemma reduced_kernel:
  assumes "swapped i s T i i \<noteq> 0" "i < n" "s < n"
    and "\<forall>r < n. (\<Sum>c < n. reduced i s T A r c * x c) = 0"
  shows "kills n A x"
proof -
  let ?U = "\<lambda>r. \<Sum>c < n. swapped i s A r c * x c"
  have "(\<Sum>c < n. reduced i s T A i c * x c) = ?U i / swapped i s T i i"
    by (simp add: reduced_def sum_divide_distrib)
  then have Ui: "?U i = 0" using assms(1,2,4) by auto
  have U: "?U r = 0" if "r < n" for r
  proof (cases "r = i")
    case False
    then have "(\<Sum>c < n. reduced i s T A r c * x c) = ?U r - ?U i * (swapped i s T r i / swapped i s T i i)"
      by (simp only: reduced_other [OF False] sum_row_sub)
    then show ?thesis using Ui assms(4) that by simp
  qed (simp add: Ui)
  have "(\<Sum>c < n. A ! r ! c * x c) = 0" if "r < n" for r
    using U [OF that] U [OF assms(2)] U [OF assms(3)] by (cases "r = i"; cases "r = s") (simp_all add: swapped_def split: if_splits)
  then show ?thesis by (simp add: kills_def)
qed

lemma reduced_unit:
  assumes "unit_columns n i T" "swapped i s T i i \<noteq> 0" "i \<le> s" "s < n" "r < n" "c \<le> i"
  shows "reduced i s T T r c = (if r = c then 1 else 0)"
  using assms by (cases "c = i") (auto simp: reduced_def swapped_def unit_columns_def)

lemma pivot_nonzero:
  fixes T :: "'a::linordered_field mat"
  assumes "unit_columns n i T" "nonsingular n T" "i < n"
  shows "T ! pivot T n i ! i \<noteq> 0"
proof
  assume 0: "T ! pivot T n i ! i = 0"
  then have below: "T ! j ! i = 0" if "i \<le> j" "j < n" for j
    using pivot_cases [OF assms(3), of T] that by (cases "j = i") auto
  let ?x = "\<lambda>c. if c < i then - T ! c ! i else if c = i then 1 else 0"
  have "(\<Sum>c < n. T ! r ! c * ?x c) = 0" if "r < n" for r
  proof -
    have "(\<Sum>c < n. T ! r ! c * ?x c) = (\<Sum>c < Suc i. T ! r ! c * ?x c)"
      by (rule sum.mono_neutral_right) (use assms(3) in auto)
    also have "\<dots> = (\<Sum>c < i. (if r = c then 1 else 0) * (- T ! c ! i)) + T ! r ! i"
      using assms(1) that by (simp add: unit_columns_def del: mult_minus_right)
    also have "\<dots> = 0"
      using below [of r] that
      by (cases "r < i") (simp_all only: sum_unit, simp_all add: if_distrib [of "\<lambda>x. x * _"] cong: if_cong)
    finally show ?thesis .
  qed
  then have "kills n T ?x" by (simp add: kills_def)
  then have "?x i = 0" using assms(2,3) unfolding nonsingular_def by blast
  then show False by simp
qed

lemma nonsingular_kernel: "nonsingular n S \<Longrightarrow> kernel_in n T S \<Longrightarrow> nonsingular n T"
  by (auto simp: nonsingular_def kernel_in_def)

definition inverse_inv :: "nat \<Rightarrow> 'a::field mat \<Rightarrow> nat \<Rightarrow> 'a mat \<times> 'a mat \<Rightarrow> bool" where
  "inverse_inv n S i = (\<lambda>(T, I). square n T \<and> square n I \<and> row_comb n S T I \<and> kernel_in n T S \<and>
     nonsingular n I \<and> unit_columns n i T)"

lemma inverse_step_inv:
  fixes S :: "'a::linordered_field mat"
  assumes "inverse_inv n S i st" "nonsingular n S" "i < n"
  shows "inverse_inv n S (Suc i) (inverse_step n i st)"
proof -
  obtain T I where st: "st = (T, I)" by (cases st)
  note J = assms(1) [unfolded st inverse_inv_def split_conv]
  let ?s = "pivot T n i"
  have p: "swapped i ?s T i i \<noteq> 0"
    using pivot_nonzero [of n i T] nonsingular_kernel [OF assms(2)] J assms(3) by (simp add: swapped_def)
  have s: "i \<le> ?s" "?s < n" using pivot_cases [OF assms(3), of T] assms(3) by auto
  from J have "square n T" "square n I" by auto
  then obtain T' I' where R: "inverse_step n i (T, I) = (T', I')" "square n T'" "square n I'"
    "\<And>r c. r < n \<Longrightarrow> c < n \<Longrightarrow> T' ! r ! c = reduced i ?s T T r c"
    "\<And>r c. r < n \<Longrightarrow> c < n \<Longrightarrow> I' ! r ! c = reduced i ?s T I r c"
    using inverse_step_point [OF _ _ assms(3)] by metis
  have "row_comb n S T' I'" using reduced_comb [of n S T I i ?s] J s assms(3) R(4,5) by (simp add: row_comb_def)
  moreover have "kernel_in n T' S" "nonsingular n I'"
    using reduced_kernel [OF p assms(3) s(2)] J R(4,5) by (auto simp: kernel_in_def nonsingular_def kills_def)
  moreover have "unit_columns n (Suc i) T'"
    using reduced_unit [OF _ p s] J R(4) assms(3) by (auto simp: unit_columns_def)
  ultimately show ?thesis using R(1-3) st by (simp add: inverse_inv_def)
qed

lemma inverse_fold_inv:
  fixes S :: "'a::linordered_field mat"
  assumes "square n S" "nonsingular n S" "i \<le> n"
  shows "inverse_inv n S i (fold (inverse_step n) [0..<i] (S, mat_of_scalar n 1))"
  using assms(3)
proof (induction i)
  case 0
  then show ?case using assms(1)
    by (simp add: inverse_inv_def mat_of_scalar_square row_comb_def mat_of_scalar_nth sum_unit kernel_in_def
        unit_columns_def nonsingular_def kills_def)
next
  case (Suc i)
  then show ?case using inverse_step_inv [OF _ assms(2)] by simp
qed

lemma inverse_nonsingular:
  fixes S :: "'a::linordered_field mat"
  assumes "square n S" "nonsingular n S" "0 < n"
  shows "square n (mat_inverse S)" "nonsingular n (mat_inverse S)" "multiply S (mat_inverse S) = mat_of_scalar n 1"
proof -
  obtain T I where st: "fold (inverse_step n) [0..<n] (S, mat_of_scalar n 1) = (T, I)" by fastforce
  note J = inverse_fold_inv [OF assms(1,2) order.refl, unfolded st inverse_inv_def split_conv]
  have I: "mat_inverse S = I" using assms st by (simp add: mat_inverse_def)
  show "square n (mat_inverse S)" "nonsingular n (mat_inverse S)" using J I by auto
  from J have "square n I" "row_comb n S T I" "unit_columns n n T" by auto
  then have "multiply S I = mat_of_scalar n 1"
    by (intro square_eqI [OF multiply_square [OF assms(1)] mat_of_scalar_square])
      (auto simp: multiply_nth [OF assms(1)] mat_of_scalar_nth row_comb_def unit_columns_def)
  then show "multiply S (mat_inverse S) = mat_of_scalar n 1" using I by simp
qed

lemma mat_vec_multiply:
  fixes v :: "'a::field list"
  assumes "square n a" "square n b" "0 < n"
  shows "mat_vec (multiply a b) v = mat_vec a (mat_vec b v)"
proof (rule nth_equalityI)
  note sq = multiply_square [OF assms(1,2)]
  show "length (mat_vec (multiply a b) v) = length (mat_vec a (mat_vec b v))"
    using mat_vec_nth(1) [OF sq assms(3)] mat_vec_nth(1) [OF assms(1,3)] by simp
  show "mat_vec (multiply a b) v ! i = mat_vec a (mat_vec b v) ! i" if "i < length (mat_vec (multiply a b) v)" for i
  proof -
    have i: "i < n" using that mat_vec_nth(1) [OF sq assms(3)] by simp
    have "mat_vec (multiply a b) v ! i = (\<Sum>r < n. \<Sum>k < n. v ! r * (b ! r ! k * a ! k ! i))"
      using i by (simp add: mat_vec_nth(2) [OF sq] multiply_nth [OF assms(1,2)] sum_distrib_left)
    also have "\<dots> = (\<Sum>k < n. \<Sum>r < n. v ! r * (b ! r ! k * a ! k ! i))" by (rule sum.swap)
    also have "\<dots> = mat_vec a (mat_vec b v) ! i"
      using i by (simp add: mat_vec_nth(2) [OF assms(1)] mat_vec_nth(2) [OF assms(2)] sum_distrib_right mult.assoc)
    finally show ?thesis .
  qed
qed

lemma multiply_assoc:
  assumes "square n a" "square n b" "square n c"
  shows "multiply (multiply a b) c = multiply a (multiply b c)"
proof (cases "n = 0")
  case False
  then show ?thesis using assms by (simp add: multiply_def [of "multiply a b"] mat_vec_multiply [OF assms(1,2)])
    (simp add: multiply_def row_size_def square_def)
qed (use assms in \<open>simp add: multiply_def square_def row_size_def\<close>)

lemma left_inverse_nonsingular:
  assumes "square n S" "square n B" "multiply S B = mat_of_scalar n 1"
  shows "nonsingular n S"
proof -
  have 1: "(\<Sum>k < n. B ! r ! k * S ! k ! c) = (if r = c then 1 else 0)" if "r < n" "c < n" for r c
    using multiply_nth [OF assms(1,2) that] that by (simp add: assms(3) mat_of_scalar_nth)
  have "x r = 0" if x: "kills n S x" and r: "r < n" for x r
  proof -
    have "x r = (\<Sum>c < n. (\<Sum>k < n. B ! r ! k * S ! k ! c) * x c)" using r by (simp add: 1 sum_unit)
    also have "\<dots> = (\<Sum>k < n. B ! r ! k * (\<Sum>c < n. S ! k ! c * x c))"
      by (simp add: sum_distrib_left sum_distrib_right mult.assoc) (rule sum.swap)
    also have "\<dots> = 0" using x by (simp add: kills_def)
    finally show ?thesis .
  qed
  then show ?thesis by (simp add: nonsingular_def)
qed

subsection \<open>The properties\<close>

lemma multiply_transpose:
  assumes "square n a" "square n b" "0 < n"
  shows "mat_transpose (multiply a b) = multiply (mat_transpose b) (mat_transpose a)"
  by (rule square_eqI [OF transpose_square [OF multiply_square [OF assms(1,2)] assms(3)]
        multiply_square [OF transpose_square transpose_square]])
    (use assms in \<open>simp_all add: transpose_nth [OF multiply_square [OF assms(1,2)]] multiply_nth [OF assms(1,2)]
        multiply_nth [OF transpose_square transpose_square] transpose_nth mult.commute\<close>)

lemma trace_multiply:
  assumes "square n a" "square n b"
  shows "mat_trace (multiply a b) = mat_trace (multiply b a)"
proof -
  have "mat_trace (multiply a b) = (\<Sum>r < n. \<Sum>k < n. b ! r ! k * a ! k ! r)"
    by (simp add: mat_trace_sum [OF multiply_square [OF assms]] multiply_nth [OF assms])
  also have "\<dots> = (\<Sum>k < n. \<Sum>r < n. b ! r ! k * a ! k ! r)" by (rule sum.swap)
  also have "\<dots> = mat_trace (multiply b a)"
    by (simp add: mat_trace_sum [OF multiply_square [OF assms(2,1)]] multiply_nth [OF assms(2,1)] mult.commute)
  finally show ?thesis .
qed

lemma transpose_twice: "square n a \<Longrightarrow> 0 < n \<Longrightarrow> mat_transpose (mat_transpose a) = a"
  by (rule square_eqI [of n]) (simp_all add: transpose_square transpose_nth [OF transpose_square] transpose_nth)

text \<open>C23: \<open>matrix::inverse\<close> of \<open>TMatHelpers.h\<close> is the inverse of every square matrix that has one, from
  either side, for every size and every order in which the pivot search exchanges rows: when some matrix
  \<open>b\<close> gives the identity in \<open>multiply(src, b)\<close>, the result of \<open>inverse(src)\<close> is that \<open>b\<close>, no division of
  the code is by zero on the way (the pivots are not 0), and \<open>b\<close> is the inverse on the other side too.
  Arithmetic is exact here: the rounding of \<open>float\<close> is not modelled.\<close>

theorem mat_inverse_correct:
  fixes src :: "'a::linordered_field mat"
  assumes "square n src" "square n b" "0 < n" "multiply src b = mat_of_scalar n 1"
  shows "mat_inverse src = b \<and> multiply b src = mat_of_scalar n 1 \<and>
    (\<forall>i < n. let (tmp, inv) = fold (inverse_step n) [0..<i] (src, mat_of_scalar n 1) in tmp ! pivot tmp n i ! i \<noteq> 0)"
proof (intro conjI)
  note ns = left_inverse_nonsingular [OF assms(1,2,4)]
  let ?I = "mat_inverse src"
  note I = inverse_nonsingular [OF assms(1) ns assms(3)]
  note J = inverse_nonsingular [OF I(1,2) assms(3)]
  have "mat_inverse ?I = multiply (multiply src ?I) (mat_inverse ?I)"
    using J(1) I(3) by (simp add: multiply_one)
  also have "\<dots> = src" using assms(1) I(1) J(1,3) by (simp add: multiply_assoc [of n] multiply_one)
  finally have 1: "multiply ?I src = mat_of_scalar n 1" using J(3) by simp
  have "b = multiply (multiply ?I src) b" using 1 assms(2) by (simp add: multiply_one)
  also have "\<dots> = ?I" using assms I(1) by (simp add: multiply_assoc [of n] multiply_one)
  finally show "?I = b" by simp
  with 1 show "multiply b src = mat_of_scalar n 1" by simp
  show "\<forall>i < n. let (tmp, inv) = fold (inverse_step n) [0..<i] (src, mat_of_scalar n 1) in tmp ! pivot tmp n i ! i \<noteq> 0"
  proof (intro allI impI)
    fix i assume i: "i < n"
    obtain T I where st: "fold (inverse_step n) [0..<i] (src, mat_of_scalar n 1) = (T, I)" by fastforce
    have "inverse_inv n src i (T, I)" using inverse_fold_inv [OF assms(1) ns, of i] i st by simp
    then have "T ! pivot T n i ! i \<noteq> 0"
      using pivot_nonzero [OF _ nonsingular_kernel [OF ns] i, of T] by (simp add: inverse_inv_def)
    then show "let (tmp, inv) = fold (inverse_step n) [0..<i] (src, mat_of_scalar n 1) in tmp ! pivot tmp n i ! i \<noteq> 0"
      by (simp add: st)
  qed
qed

theorem mat_inverse_correct_witness:
  "mat_inverse [[0, 2], [1, 1]] = [[- 1 / 2, 1], [1 / 2, 0 :: rat]]"
  using mat_inverse_correct [of 2 "[[0, 2], [1, 1]]" "[[- 1 / 2, 1], [1 / 2, 0 :: rat]]"]
  by (simp add: square_def less_Suc_eq numeral_2_eq_2 multiply_def mat_vec_def row_size_def col_size_def
      mat_of_scalar_def vec_add_def vec_mul_def vec_splat_def vec_add_assign_def vec_mul_assign_def)

text \<open>C33: the products of \<open>TMatHelpers.h\<close> fit together, for square matrices of any size over any field (no rounding): multiplying a vector by \<open>multiply(a, b)\<close> is
  multiplying it by \<open>b\<close> and then by \<open>a\<close>, \<open>multiply\<close> is associative, \<open>transpose\<close> reverses a product and
  undoes itself, and \<open>trace\<close> does not depend on the order of the factors.\<close>

theorem matrix_product_laws:
  fixes a :: "'a::field mat"
  assumes "square n a" "square n b" "square n c" "0 < n"
  shows "mat_vec (multiply a b) v = mat_vec a (mat_vec b v) \<and>
    multiply (multiply a b) c = multiply a (multiply b c) \<and>
    mat_transpose (multiply a b) = multiply (mat_transpose b) (mat_transpose a) \<and>
    mat_transpose (mat_transpose a) = a \<and>
    mat_trace (multiply a b) = mat_trace (multiply b a)"
  using assms mat_vec_multiply multiply_assoc multiply_transpose transpose_twice trace_multiply by metis

theorem matrix_product_laws_witness:
  "mat_trace (multiply [[1, 2], [3, 4]] [[0, 1], [5, 6 :: rat]]) = mat_trace (multiply [[0, 1], [5, 6]] [[1, 2], [3, 4]])"
  using matrix_product_laws [of 2 "[[1, 2], [3, 4]]" "[[0, 1], [5, 6 :: rat]]" "[[0, 1], [5, 6]]"]
  by (simp add: square_def less_Suc_eq numeral_2_eq_2)

lemma mat_vec_4:
  "mat_vec [[a0, a1, a2, a3], [b0, b1, b2, b3], [c0, c1, c2, c3], [d0, d1, d2, d3]] [x, y, z, w] =
    [a0 * x + b0 * y + c0 * z + d0 * w, a1 * x + b1 * y + c1 * z + d1 * w,
     a2 * x + b2 * y + c2 * z + d2 * w, a3 * x + b3 * y + c3 * z + d3 * w]"
  by (simp add: mat_vec_def row_size_def col_size_def upt_rec vec_op_defs mult.commute)

lemma tmat44_scalar_identity: "tmat44_scalar v = mat_of_scalar 4 v"
  by (simp add: tmat44_scalar_def mat_of_scalar_def tvec4_of_def upt_rec)

text \<open>\<open>ortho\<close> and \<open>frustum\<close> of \<open>mat4.h\<close> map their viewing volume to the cube of side 2, but with
  opposite depths: \<open>ortho\<close> takes the corner (left, bottom, -near) of the box to (-1, -1, -1) and (right,
  top, -far) to (1, 1, 1); \<open>frustum\<close> takes them, the far corner taken where the same rays meet the far
  plane, to (-1, -1, 1) and (1, 1, -1) after the division by the fourth coordinate: its depth runs from
  1 on the near plane to -1 on the far one.\<close>

lemma projections_map_volume:
  fixes l r b t n f :: "'a::field"
  assumes "r \<noteq> l" "t \<noteq> b" "f \<noteq> n" "n \<noteq> 0"
  shows "mat_vec (ortho l r b t n f) [l, b, - n, 1] = [- 1, - 1, - 1, 1] \<and>
    mat_vec (ortho l r b t n f) [r, t, - f, 1] = [1, 1, 1, 1] \<and>
    mat_vec (frustum l r b t n f) [l, b, - n, 1] = [- n, - n, n, n] \<and>
    mat_vec (frustum l r b t n f) [r * f / n, t * f / n, - f, 1] = [f, f, - f, f]"
  by (intro conjI; simp add: ortho_def frustum_def tmat44_default_def mat_vec_4 tvec4_of_def Let_def mat_set_def
      assms add_divide_eq_iff diff_divide_eq_iff divide_add_eq_iff divide_diff_eq_iff divide_eq_eq eq_divide_eq;
    simp add: algebra_simps)

theorem projections_map_volume_witness:
  "mat_vec (ortho 1 3 (- 1) 1 1 (5 :: rat)) [1, - 1, - 1, 1] = [- 1, - 1, - 1, 1]"
  using projections_map_volume [of "3 :: rat" 1 1 "- 1" 5 1] by simp

text \<open>The transposition of the rotation is missing from \<open>lookAt\<close>, and the translation is not rotated: an
  eye at (1, 0, 0) that looks along the first axis is not sent to the origin.\<close>

lemma lookAt_eye_not_origin:
  "mat_vec (lookAt sqrt [1, 0, 0] [2, 0, 0] [0, 1, 0]) [1, 0, 0, 1] = [- 1, 0, 1, 1 :: real]"
  by (simp add: lookAt_def normalize_def vec_length_def Let_def dot_def cross_def tvec3_of_def
      tmat44_columns_def tvec4_of_vec3_def vec_neg_def vec_op_defs numeral_2_eq_2 mat_vec_4 del: vec_op_length vec_op_nth)

text \<open>The search of \<open>inverse\<close> compares every row with the diagonal one, not with the largest so far: it
  takes the last larger element of the column, not the largest.\<close>

lemma pivot_not_largest: "pivot [[1, 0, 0], [3, 1, 0], [2, 0, 1 :: rat]] 3 0 = 2"
  by (simp add: pivot_def upt_rec)

end
