(* ===== verification/Hash_Table.thy ===== *)
theory Hash_Table
  imports Cam_Prelude "HOL-Library.Word"
begin

text \<open>
  \<open>utils/BasicHashtable.h\<close>: the probe sequence of \<open>BasicHashtableImpl\<close> and the template
  \<open>BasicHashtable\<close>. The functions of the base class that are only declared (\<open>find\<close>, \<open>add\<close>, ...) are in
  a source file the repository does not contain: they are the record \<open>table_impl\<close>, an argument of the
  wrappers, and \<open>impl_ok\<close> states what the comments of the header promise about them. A bucket is its
  cookie and the entry in its storage, absent where none is constructed; access to a bucket outside
  the array or to an entry that is not there is a fault (None). Copies share their buckets until one is
  edited; as values they are independent, so \<open>edit\<close> is not visible. The load factor is left out.
\<close>

unbundle bit_operations_syntax

subsection \<open>Buckets and chains\<close>

definition COLLISION :: "32 word" where "COLLISION = 0x80000000"
definition PRESENT :: "32 word" where "PRESENT = 0x40000000"
definition HASH_MASK :: "32 word" where "HASH_MASK = 0x3fffffff"

record 'e bucket =
  cookie :: "32 word"
  entry :: "'e option"

definition trimHash :: "32 word \<Rightarrow> 32 word" where
  "trimHash hash = (hash AND HASH_MASK) XOR drop_bit 30 hash"

text \<open>A remainder by 0 is undefined: the value None.\<close>

definition chainStart :: "32 word \<Rightarrow> nat \<Rightarrow> nat option" where
  "chainStart hash count = (if count = 0 then None else Some (unat hash mod count))"

definition chainIncrement :: "32 word \<Rightarrow> nat \<Rightarrow> nat option" where
  "chainIncrement hash count = (if count - 1 = 0 then None
     else Some (unat (drop_bit 7 hash OR push_bit 25 hash) mod (count - 1) + 1))"

definition chainSeek :: "nat \<Rightarrow> nat \<Rightarrow> nat \<Rightarrow> nat option" where
  "chainSeek index increment count = (if count = 0 then None else Some ((index + increment) mod count))"

subsection \<open>The table\<close>

record 'e table =
  mCapacity :: nat
  mSize :: nat
  mFilledBuckets :: nat
  mBuckets :: "'e bucket list"

record ('k, 'e) table_impl =
  impl_new :: "nat \<Rightarrow> 'e table"
  impl_clear :: "'e table \<Rightarrow> 'e table"
  impl_next :: "'e table \<Rightarrow> int \<Rightarrow> int"
  impl_find :: "'e table \<Rightarrow> int \<Rightarrow> 32 word \<Rightarrow> 'k \<Rightarrow> int"
  impl_add :: "'e table \<Rightarrow> 32 word \<Rightarrow> 'e \<Rightarrow> 'e table \<times> nat"
  impl_removeAt :: "'e table \<Rightarrow> nat \<Rightarrow> 'e table"
  impl_rehash :: "'e table \<Rightarrow> nat \<Rightarrow> 'e table"

definition bucketAt :: "'e table \<Rightarrow> nat \<Rightarrow> 'e bucket option" where
  "bucketAt t index = (if index < length (mBuckets t) then Some (mBuckets t ! index) else None)"

definition BasicHashtable_new :: "('k, 'e) table_impl \<Rightarrow> nat \<Rightarrow> 'e table" where
  "BasicHashtable_new impl minimumInitialCapacity = impl_new impl minimumInitialCapacity"

definition BasicHashtable_copy :: "'e table \<Rightarrow> 'e table" where
  "BasicHashtable_copy other = other"

definition BasicHashtable_assign :: "'e table \<Rightarrow> 'e table \<Rightarrow> 'e table" where
  "BasicHashtable_assign t other = other"

definition table_size :: "'e table \<Rightarrow> nat" where
  "table_size t = mSize t"

definition table_capacity :: "'e table \<Rightarrow> nat" where
  "table_capacity t = mCapacity t"

definition bucketCount :: "'e table \<Rightarrow> nat" where
  "bucketCount t = length (mBuckets t)"

definition entryFor :: "'e bucket \<Rightarrow> 'e option" where
  "entryFor b = entry b"

definition entryAt :: "'e table \<Rightarrow> nat \<Rightarrow> 'e option" where
  "entryAt t index = Option.bind (bucketAt t index) entryFor"

text \<open>A write through the reference that \<open>editEntryAt\<close> returns.\<close>

definition editEntryAt :: "'e table \<Rightarrow> nat \<Rightarrow> ('e \<Rightarrow> 'e) \<Rightarrow> 'e table option" where
  "editEntryAt t index f = do {
     b \<leftarrow> bucketAt t index;
     e \<leftarrow> entryFor b;
     Some (t\<lparr>mBuckets := (mBuckets t)[index := b\<lparr>entry := Some (f e)\<rparr>]\<rparr>)
   }"

definition table_clear :: "('k, 'e) table_impl \<Rightarrow> 'e table \<Rightarrow> 'e table" where
  "table_clear impl t = impl_clear impl t"

definition table_next :: "('k, 'e) table_impl \<Rightarrow> 'e table \<Rightarrow> int \<Rightarrow> int" where
  "table_next impl t index = impl_next impl t index"

definition table_find :: "('k, 'e) table_impl \<Rightarrow> 'e table \<Rightarrow> int \<Rightarrow> 32 word \<Rightarrow> 'k \<Rightarrow> int" where
  "table_find impl t index hash key = impl_find impl t index hash key"

definition table_add :: "('k, 'e) table_impl \<Rightarrow> 'e table \<Rightarrow> 32 word \<Rightarrow> 'e \<Rightarrow> 'e table \<times> nat" where
  "table_add impl t hash e = impl_add impl t hash e"

definition table_removeAt :: "('k, 'e) table_impl \<Rightarrow> 'e table \<Rightarrow> nat \<Rightarrow> 'e table" where
  "table_removeAt impl t index = impl_removeAt impl t index"

definition table_rehash :: "('k, 'e) table_impl \<Rightarrow> 'e table \<Rightarrow> nat \<Rightarrow> 'e table" where
  "table_rehash impl t minimumCapacity = impl_rehash impl t minimumCapacity"

definition hasMoreRoom :: "'e table \<Rightarrow> bool" where
  "hasMoreRoom t = (mCapacity t > mFilledBuckets t)"

definition cookieAt :: "'e table \<Rightarrow> nat \<Rightarrow> 32 word option" where
  "cookieAt t index = map_option cookie (bucketAt t index)"

text \<open>The hooks the base class calls on a bucket; \<open>getKey\<close> is the entry type's.\<close>

definition compareBucketKey :: "('e \<Rightarrow> 'k) \<Rightarrow> 'e bucket \<Rightarrow> 'k \<Rightarrow> bool option" where
  "compareBucketKey getKey b key = map_option (\<lambda>e. getKey e = key) (entryFor b)"

definition initializeBucketEntry :: "'e bucket \<Rightarrow> 'e \<Rightarrow> 'e bucket" where
  "initializeBucketEntry b e = b\<lparr>entry := Some e\<rparr>"

definition destroyBucketEntry :: "bool \<Rightarrow> 'e bucket \<Rightarrow> 'e bucket" where
  "destroyBucketEntry has_trivial_dtor b = (if \<not> has_trivial_dtor then b\<lparr>entry := None\<rparr> else b)"

subsection \<open>What the header promises\<close>

text \<open>
  \<open>ok\<close> holds of the tables the base class builds. An entry is added under the hash of its key. A table
  holds as many entries as it has present buckets, fills no more buckets than its capacity, and a new
  one has at least the requested capacity; \<open>find\<close> from -1 returns an entry with the key, or -1 if there
  is none; \<open>add\<close> takes a bucket that is free and, while there is room, moves nothing and fills at most
  one bucket; removing empties the bucket and moves nothing; writing an entry in place keeps the table
  as long as its key stays.
\<close>

definition entries :: "'e table \<Rightarrow> nat set" where
  "entries t = dom (entryAt t)"

definition new_ok :: "('k, 'e) table_impl \<Rightarrow> ('e table \<Rightarrow> bool) \<Rightarrow> bool" where
  "new_ok impl ok \<longleftrightarrow> (\<forall>n. ok (impl_new impl n) \<and> entries (impl_new impl n) = {} \<and> n \<le> mCapacity (impl_new impl n) \<and>
     mFilledBuckets (impl_new impl n) = 0)"

definition sizes_ok :: "('e table \<Rightarrow> bool) \<Rightarrow> bool" where
  "sizes_ok ok \<longleftrightarrow> (\<forall>t. ok t \<longrightarrow> mSize t = card (entries t) \<and> finite (entries t) \<and> mSize t \<le> mFilledBuckets t \<and> mFilledBuckets t \<le> mCapacity t)"

definition find_ok :: "('k, 'e) table_impl \<Rightarrow> ('e \<Rightarrow> 'k) \<Rightarrow> ('k \<Rightarrow> 32 word) \<Rightarrow> ('e table \<Rightarrow> bool) \<Rightarrow> bool" where
  "find_ok impl getKey hash ok \<longleftrightarrow> (\<forall>t k. ok t \<longrightarrow>
     (let i = impl_find impl t (- 1) (hash k) k
      in (0 \<le> i \<and> (\<exists>e. entryAt t (nat i) = Some e \<and> getKey e = k)) \<or>
         (i = - 1 \<and> (\<forall>j e. entryAt t j = Some e \<longrightarrow> getKey e \<noteq> k))))"

definition add_ok :: "('k, 'e) table_impl \<Rightarrow> ('e \<Rightarrow> 'k) \<Rightarrow> ('k \<Rightarrow> 32 word) \<Rightarrow> ('e table \<Rightarrow> bool) \<Rightarrow> bool" where
  "add_ok impl getKey hash ok \<longleftrightarrow> (\<forall>t e t' i. ok t \<longrightarrow> hasMoreRoom t \<or> entries t = {} \<longrightarrow>
     impl_add impl t (hash (getKey e)) e = (t', i) \<longrightarrow>
     ok t' \<and> entryAt t i = None \<and> entryAt t' = (entryAt t)(i \<mapsto> e) \<and>
     (hasMoreRoom t \<longrightarrow> mCapacity t' = mCapacity t \<and> mFilledBuckets t' \<le> mFilledBuckets t + 1))"

definition remove_ok :: "('k, 'e) table_impl \<Rightarrow> ('e table \<Rightarrow> bool) \<Rightarrow> bool" where
  "remove_ok impl ok \<longleftrightarrow> (\<forall>t i e. ok t \<longrightarrow> entryAt t i = Some e \<longrightarrow>
     ok (impl_removeAt impl t i) \<and> entryAt (impl_removeAt impl t i) = (entryAt t)(i := None)) \<and>
     (\<forall>t. ok t \<longrightarrow> ok (impl_clear impl t) \<and> entries (impl_clear impl t) = {})"

definition edit_ok :: "('e \<Rightarrow> 'k) \<Rightarrow> ('e table \<Rightarrow> bool) \<Rightarrow> bool" where
  "edit_ok getKey ok \<longleftrightarrow> (\<forall>t i e f t'. ok t \<longrightarrow> entryAt t i = Some e \<longrightarrow> getKey (f e) = getKey e \<longrightarrow>
     editEntryAt t i f = Some t' \<longrightarrow> ok t')"

definition impl_ok :: "('k, 'e) table_impl \<Rightarrow> ('e \<Rightarrow> 'k) \<Rightarrow> ('k \<Rightarrow> 32 word) \<Rightarrow> ('e table \<Rightarrow> bool) \<Rightarrow> bool" where
  "impl_ok impl getKey hash ok \<longleftrightarrow> new_ok impl ok \<and> sizes_ok ok \<and> find_ok impl getKey hash ok \<and> add_ok impl getKey hash ok \<and>
     remove_ok impl ok \<and> edit_ok getKey ok"

lemma editEntryAt_entry:
  assumes "entryAt t i = Some e"
  shows "\<exists>t'. editEntryAt t i f = Some t' \<and> entryAt t' = (entryAt t)(i \<mapsto> f e) \<and> mCapacity t' = mCapacity t \<and>
    mSize t' = mSize t \<and> mFilledBuckets t' = mFilledBuckets t"
  using assms
  by (auto simp: editEntryAt_def entryAt_def bucketAt_def entryFor_def fun_eq_iff nth_list_update split: if_splits)

lemma impl_new_ok: "impl_ok impl getKey hash ok \<Longrightarrow> ok (impl_new impl n) \<and> entries (impl_new impl n) = {} \<and>
    n \<le> mCapacity (impl_new impl n) \<and> mFilledBuckets (impl_new impl n) = 0"
  by (simp add: impl_ok_def new_ok_def)

lemma impl_sizes: "impl_ok impl getKey hash ok \<Longrightarrow> ok t \<Longrightarrow>
    mSize t = card (entries t) \<and> finite (entries t) \<and> mSize t \<le> mFilledBuckets t \<and> mFilledBuckets t \<le> mCapacity t"
  unfolding impl_ok_def sizes_ok_def by blast

lemma impl_find_cases:
  assumes "impl_ok impl getKey hash ok" "ok t"
  obtains (there) j e where "impl_find impl t (- 1) (hash k) k = int j" "entryAt t j = Some e" "getKey e = k"
    | (absent) "impl_find impl t (- 1) (hash k) k = - 1" "\<And>j e. entryAt t j = Some e \<Longrightarrow> getKey e \<noteq> k"
proof -
  let ?i = "impl_find impl t (- 1) (hash k) k"
  have "find_ok impl getKey hash ok" using assms(1) by (simp add: impl_ok_def)
  then have "(0 \<le> ?i \<and> (\<exists>e. entryAt t (nat ?i) = Some e \<and> getKey e = k)) \<or>
      (?i = - 1 \<and> (\<forall>j e. entryAt t j = Some e \<longrightarrow> getKey e \<noteq> k))"
    using assms(2) by (simp add: find_ok_def Let_def)
  then show thesis
  proof (elim disjE conjE exE)
    fix e assume "0 \<le> ?i" "entryAt t (nat ?i) = Some e" "getKey e = k"
    then show thesis using there [of "nat ?i" e] by simp
  next
    assume "?i = - 1" "\<forall>j e. entryAt t j = Some e \<longrightarrow> getKey e \<noteq> k"
    then show thesis using absent by blast
  qed
qed

lemma impl_add_ok:
  assumes "impl_ok impl getKey hash ok" "ok t" "hasMoreRoom t \<or> entries t = {}" "impl_add impl t (hash (getKey e)) e = (t', i)"
  shows "ok t' \<and> entryAt t i = None \<and> entryAt t' = (entryAt t)(i \<mapsto> e) \<and>
    (hasMoreRoom t \<longrightarrow> mCapacity t' = mCapacity t \<and> mFilledBuckets t' \<le> mFilledBuckets t + 1)"
proof -
  have "add_ok impl getKey hash ok" using assms(1) by (simp add: impl_ok_def)
  then show ?thesis using assms(2-4) unfolding add_ok_def by blast
qed

lemma impl_remove_ok: "impl_ok impl getKey hash ok \<Longrightarrow> ok t \<Longrightarrow> entryAt t i = Some e \<Longrightarrow>
    ok (impl_removeAt impl t i) \<and> entryAt (impl_removeAt impl t i) = (entryAt t)(i := None)"
  by (auto simp: impl_ok_def remove_ok_def)

lemma impl_clear_ok: "impl_ok impl getKey hash ok \<Longrightarrow> ok t \<Longrightarrow> ok (impl_clear impl t) \<and> entries (impl_clear impl t) = {}"
  by (simp add: impl_ok_def remove_ok_def)

lemma impl_edit_ok:
  assumes "impl_ok impl getKey hash ok" "ok t" "entryAt t i = Some e" "getKey (f e) = getKey e"
  shows "\<exists>t'. editEntryAt t i f = Some t' \<and> ok t' \<and> entryAt t' = (entryAt t)(i \<mapsto> f e) \<and> mCapacity t' = mCapacity t \<and>
    mSize t' = mSize t \<and> mFilledBuckets t' = mFilledBuckets t"
proof -
  have "edit_ok getKey ok" using assms(1) by (simp add: impl_ok_def)
  then show ?thesis using editEntryAt_entry [OF assms(3), of f] assms(2-4) unfolding edit_ok_def by blast
qed

text \<open>A table implementation for the witnesses: entries are appended to the array, searched from its
  start, and their buckets stay filled when they are removed.\<close>

definition search :: "('e \<Rightarrow> 'k) \<Rightarrow> 'e bucket list \<Rightarrow> 'k \<Rightarrow> int" where
  "search getKey bs k = (case find (\<lambda>i. map_option getKey (entry (bs ! i)) = Some k) [0..<length bs] of
     Some i \<Rightarrow> int i | None \<Rightarrow> - 1)"

definition demo_impl :: "('e \<Rightarrow> 'k) \<Rightarrow> ('k, 'e) table_impl" where
  "demo_impl getKey =
     \<lparr>impl_new = (\<lambda>n. \<lparr>mCapacity = n, mSize = 0, mFilledBuckets = 0, mBuckets = []\<rparr>),
      impl_clear = (\<lambda>t. t\<lparr>mSize := 0, mFilledBuckets := 0, mBuckets := []\<rparr>),
      impl_next = (\<lambda>t index. case find (\<lambda>i. entryAt t i \<noteq> None) [nat (index + 1)..<length (mBuckets t)] of
        Some i \<Rightarrow> int i | None \<Rightarrow> - 1),
      impl_find = (\<lambda>t index hash k. search getKey (mBuckets t) k),
      impl_add = (\<lambda>t hash e. (\<lparr>mCapacity = max (mCapacity t) (mFilledBuckets t + 1), mSize = mSize t + 1,
         mFilledBuckets = mFilledBuckets t + 1, mBuckets = mBuckets t @ [\<lparr>cookie = PRESENT, entry = Some e\<rparr>]\<rparr>, length (mBuckets t))),
      impl_removeAt = (\<lambda>t i. t\<lparr>mSize := mSize t - 1, mBuckets := (mBuckets t)[i := \<lparr>cookie = 0, entry = None\<rparr>]\<rparr>),
      impl_rehash = (\<lambda>t n. t)\<rparr>"

definition demo_table :: "'e table \<Rightarrow> bool" where
  "demo_table t \<longleftrightarrow> mSize t = card (entries t) \<and> mFilledBuckets t = length (mBuckets t) \<and> mFilledBuckets t \<le> mCapacity t"

lemma entryAt_iff: "entryAt t i = Some e \<longleftrightarrow> i < length (mBuckets t) \<and> entry (mBuckets t ! i) = Some e"
  by (auto simp: entryAt_def bucketAt_def entryFor_def)

lemma entries_finite: "entries t \<subseteq> {..<length (mBuckets t)}" "finite (entries t)"
proof -
  show "entries t \<subseteq> {..<length (mBuckets t)}" by (auto simp: entries_def dom_def entryAt_iff)
  then show "finite (entries t)" by (rule finite_subset) simp
qed

lemma search_cases: "(0 \<le> search getKey (mBuckets t) k \<and>
      (\<exists>e. entryAt t (nat (search getKey (mBuckets t) k)) = Some e \<and> getKey e = k)) \<or>
    (search getKey (mBuckets t) k = - 1 \<and> (\<forall>j e. entryAt t j = Some e \<longrightarrow> getKey e \<noteq> k))"
proof (cases "find (\<lambda>i. map_option getKey (entry (mBuckets t ! i)) = Some k) [0..<length (mBuckets t)]")
  case None
  then have "search getKey (mBuckets t) k = - 1" by (simp only: search_def option.case)
  moreover have "\<forall>i < length (mBuckets t). map_option getKey (entry (mBuckets t ! i)) \<noteq> Some k"
    using None by (auto simp: find_None_iff simp del: map_option_eq_Some)
  ultimately show ?thesis by (auto simp: entryAt_iff)
next
  case (Some i)
  then have "search getKey (mBuckets t) k = int i" by (simp only: search_def option.case)
  moreover have "i < length (mBuckets t)" "map_option getKey (entry (mBuckets t ! i)) = Some k"
    using Some by (auto simp: find_Some_iff simp del: map_option_eq_Some)
  ultimately show ?thesis by (auto simp: entryAt_iff)
qed

lemma demo_add: "add_ok (demo_impl getKey) getKey hash demo_table"
  unfolding add_ok_def
proof (intro allI impI)
  fix t e t' i
  assume ok: "demo_table t" and r: "impl_add (demo_impl getKey) t (hash (getKey e)) e = (t', i)"
  have i: "i = length (mBuckets t)" and t': "t' = \<lparr>mCapacity = max (mCapacity t) (mFilledBuckets t + 1), mSize = mSize t + 1,
      mFilledBuckets = mFilledBuckets t + 1, mBuckets = mBuckets t @ [\<lparr>cookie = PRESENT, entry = Some e\<rparr>]\<rparr>"
    using r by (simp_all add: demo_impl_def)
  have n: "entryAt t i = None" using entryAt_iff [of t i] i by (cases "entryAt t i") auto
  have u: "entryAt t' = (entryAt t)(i \<mapsto> e)"
    by (auto simp: t' i entryAt_def bucketAt_def entryFor_def fun_eq_iff nth_append)
  have "entries t' = insert i (entries t)" "i \<notin> entries t" using n by (auto simp: entries_def u)
  then have "demo_table t'" using ok entries_finite(2) [of t] by (simp add: demo_table_def t')
  then show "demo_table t' \<and> entryAt t i = None \<and> entryAt t' = (entryAt t)(i \<mapsto> e) \<and>
      (hasMoreRoom t \<longrightarrow> mCapacity t' = mCapacity t \<and> mFilledBuckets t' \<le> mFilledBuckets t + 1)"
    using n u by (simp add: t' hasMoreRoom_def)
qed

lemma demo_remove:
  fixes getKey :: "'e \<Rightarrow> 'k"
  shows "remove_ok (demo_impl getKey) demo_table"
  unfolding remove_ok_def
proof (intro conjI allI impI)
  fix t :: "'e table" and i e
  assume ok: "demo_table t" and e: "entryAt t i = Some e"
  show u: "entryAt (impl_removeAt (demo_impl getKey) t i) = (entryAt t)(i := None)"
    using e by (auto simp: demo_impl_def entryAt_def bucketAt_def entryFor_def fun_eq_iff nth_list_update)
  have "entries (impl_removeAt (demo_impl getKey) t i) = entries t - {i}" by (auto simp: entries_def u)
  moreover have "i \<in> entries t" using e by (auto simp: entries_def)
  ultimately show "demo_table (impl_removeAt (demo_impl getKey) t i)"
    using ok by (simp add: demo_table_def) (simp add: demo_impl_def)
qed (auto simp: demo_impl_def demo_table_def entries_def dom_def entryAt_def bucketAt_def)

lemma demo_edit: "edit_ok getKey demo_table"
  unfolding edit_ok_def
proof (intro allI impI)
  fix t i e f t'
  assume ok: "demo_table t" and e: "entryAt t i = Some e" and t': "editEntryAt t i f = Some t'"
  have "entryAt t' = (entryAt t)(i \<mapsto> f e)" "mSize t' = mSize t" "mCapacity t' = mCapacity t" "mFilledBuckets t' = mFilledBuckets t"
    using editEntryAt_entry [OF e, of f] t' by auto
  moreover have "entries t' = entries t" using calculation(1) e by (auto simp: entries_def)
  moreover have "length (mBuckets t') = length (mBuckets t)"
    using t' by (auto simp: editEntryAt_def Option.bind_eq_Some_conv)
  ultimately show "demo_table t'" using ok by (simp add: demo_table_def)
qed

lemma demo_impl_ok:
  fixes getKey :: "'e \<Rightarrow> 'k"
  shows "impl_ok (demo_impl getKey) getKey hash demo_table"
proof -
  have "new_ok (demo_impl getKey) demo_table"
    by (auto simp: new_ok_def demo_impl_def demo_table_def entries_def dom_def entryAt_def bucketAt_def)
  moreover have "sizes_ok (demo_table :: 'e table \<Rightarrow> bool)"
  proof -
    have "card (entries t) \<le> length (mBuckets t)" for t :: "'e table"
      using card_mono [OF _ entries_finite(1) [of t]] by simp
    then show ?thesis by (auto simp: sizes_ok_def demo_table_def entries_finite(2))
  qed
  moreover have "find_ok (demo_impl getKey) getKey hash demo_table"
    using search_cases [of getKey] by (simp add: find_ok_def Let_def) (simp add: demo_impl_def)
  ultimately show ?thesis by (simp add: impl_ok_def demo_add demo_remove demo_edit)
qed

subsection \<open>Properties\<close>

lemma trimHash_flags: "trimHash hash AND (COLLISION OR PRESENT) = 0"
proof -
  have m: "HASH_MASK = mask 30" and f: "take_bit 30 (COLLISION OR PRESENT) = 0"
    by (simp_all add: HASH_MASK_def COLLISION_def PRESENT_def mask_eq_exp_minus_1)
  have "\<not> bit (trimHash hash) n" if "30 \<le> n" for n
    using that by (auto simp: trimHash_def m bit_simps dest: bit_imp_le_length)
  moreover have "\<not> bit (COLLISION OR PRESENT) n" if "n < 30" for n
    using bit_take_bit_iff [of 30 "COLLISION OR PRESENT" n] that unfolding f by simp
  ultimately show ?thesis by (intro bit_word_eqI) (metis bit_and_iff bit_0_eq bot_apply bot_bool_def linorder_not_le)
qed

lemma chainIncrement_range: "chainIncrement hash count = Some i \<Longrightarrow> 0 < i \<and> i < count"
proof -
  assume i: "chainIncrement hash count = Some i"
  then have "0 < count - 1" by (auto simp: chainIncrement_def split: if_splits)
  then have "x mod (count - 1) + 1 < count" for x using mod_less_divisor [of "count - 1" x] by linarith
  then show ?thesis using i by (auto simp: chainIncrement_def split: if_splits)
qed

text \<open>\<open>n\<close> steps along the chain from an index.\<close>

primrec chain_walk :: "nat \<Rightarrow> nat \<Rightarrow> nat \<Rightarrow> nat \<Rightarrow> nat option" where
  "chain_walk 0 index increment count = Some index"
| "chain_walk (Suc n) index increment count = Option.bind (chain_walk n index increment count) (\<lambda>i. chainSeek i increment count)"

lemma chain_walk_eq: "0 < count \<Longrightarrow> index < count \<Longrightarrow> chain_walk n index increment count = Some ((index + n * increment) mod count)"
  by (induction n) (simp_all add: chainSeek_def mod_simps algebra_simps)

lemma coprime_steps_inj:
  assumes "coprime increment (count :: nat)"
  shows "inj_on (\<lambda>n. (index + n * increment) mod count) {..<count}"
proof (rule linorder_inj_onI)
  fix x y assume xy: "x < y" "x \<in> {..<count}" "y \<in> {..<count}"
  show "(index + x * increment) mod count \<noteq> (index + y * increment) mod count"
  proof
    assume "(index + x * increment) mod count = (index + y * increment) mod count"
    then have "count dvd (index + y * increment) - (index + x * increment)"
      using xy(1) by (subst mod_eq_dvd_iff_nat [symmetric]) simp_all
    then have "count dvd (y - x) * increment" by (simp add: diff_mult_distrib)
    then have "count dvd y - x" using assms by (simp add: coprime_commute coprime_dvd_mult_left_iff)
    then show False using xy by (auto dest: dvd_imp_le)
  qed
qed auto

text \<open>The probe sequence of the hash table: the trimmed hash never touches the two flag bits of the
  cookie, the increment is between 1 and the number of buckets, and if that number is prime the chain
  that starts at any hash visits every bucket once before it comes back.\<close>

lemma chain_visits_all:
  assumes "2 < count" and "\<forall>d. d dvd count \<longrightarrow> d = 1 \<or> d = count"
  shows "trimHash hash AND (COLLISION OR PRESENT) = 0 \<and>
    (\<exists>start increment. chainStart hash' count = Some start \<and> chainIncrement hash' count = Some increment \<and>
      (\<forall>n. chain_walk n start increment count \<noteq> None) \<and>
      bij_betw (\<lambda>n. the (chain_walk n start increment count)) {..<count} {..<count})"
proof -
  obtain start where s: "chainStart hash' count = Some start" "start < count"
    using assms(1) by (auto simp: chainStart_def)
  obtain increment where i: "chainIncrement hash' count = Some increment"
    using assms(1) by (auto simp: chainIncrement_def)
  have r: "0 < increment" "increment < count" using chainIncrement_range [OF i] by auto
  have "coprime increment count"
  proof (rule coprimeI)
    fix c assume c: "c dvd increment" "c dvd count"
    then have "c = 1 \<or> c = count" using assms(2) by blast
    then show "is_unit c" using c(1) r by (auto dest: dvd_imp_le)
  qed
  note inj = coprime_steps_inj [OF this, of start]
  have w: "chain_walk n start increment count = Some ((start + n * increment) mod count)" for n
    using s(2) by (simp add: chain_walk_eq)
  have "(\<lambda>n. (start + n * increment) mod count) ` {..<count} = {..<count}"
    by (rule endo_inj_surj [OF _ _ inj]) (use s(2) in auto)
  then show ?thesis using trimHash_flags s i inj by (auto simp: w bij_betw_def)
qed

theorem chain_visits_all_witness:
  "\<exists>start increment. chainStart 0x12345678 7 = Some start \<and> chainIncrement 0x12345678 7 = Some increment \<and>
     bij_betw (\<lambda>n. the (chain_walk n start increment 7)) {..<7} {..<7}"
proof -
  have "\<forall>d. d dvd (7::nat) \<longrightarrow> d = 1 \<or> d = 7"
  proof (intro allI impI)
    fix d :: nat assume "d dvd 7"
    then have "d \<le> 7" "7 mod d = 0" by (auto dest: dvd_imp_le simp: dvd_eq_mod_eq_0)
    then have "d \<in> {0, 1, 2, 3, 4, 5, 6, 7}" by auto
    then show "d = 1 \<or> d = 7" using \<open>7 mod d = 0\<close> by auto
  qed
  from chain_visits_all [OF _ this, of 0 "0x12345678"] show ?thesis by simp blast
qed

end
