(* ===== verification/Lru_Cache.thy ===== *)
theory Lru_Cache
  imports Hash_Table "HOL-Library.Monad_Syntax"
begin

text \<open>
  \<open>utils/LruCache.h\<close>: the cache that drops its least recently used entry. The entries live in the
  buckets of a hash table and form a list linked both ways from the oldest to the youngest. A pointer
  to an entry is the index of its bucket, which \<open>BasicHashtable\<close> keeps as long as it does not rehash; a
  pointer to an entry that is not there is a fault (None). The listener is told of every removal by the
  cache: the calls it gets are logged in \<open>mRemoved\<close>, so it does not call the cache back. \<open>put\<close> and
  \<open>rehash\<close> call each other: their fuel bounds the depth of these calls.
\<close>

subsection \<open>The cache\<close>

record ('k, 'v) Entry =
  key :: 'k
  val :: 'v
  parent :: "nat option"
  child :: "nat option"

record ('k, 'v) LruCache =
  mTable :: "('k, 'v) Entry table"
  mListener :: bool
  mRemoved :: "('k \<times> 'v) list"
  mOldest :: "nat option"
  mYoungest :: "nat option"
  mMaxCapacity :: nat
  mNullValue :: 'v

type_synonym ('k, 'v) lru_impl = "('k, ('k, 'v) Entry) table_impl"

definition kUnlimitedCapacity :: nat where
  "kUnlimitedCapacity = 0"

definition Entry_new :: "'k \<Rightarrow> 'v \<Rightarrow> ('k, 'v) Entry" where
  "Entry_new k v = \<lparr>key = k, val = v, parent = None, child = None\<rparr>"

definition getKey :: "('k, 'v) Entry \<Rightarrow> 'k" where
  "getKey e = key e"

definition LruCache_new :: "('k, 'v) lru_impl \<Rightarrow> 'v \<Rightarrow> nat \<Rightarrow> ('k, 'v) LruCache" where
  "LruCache_new impl null maxCapacity = \<lparr>mTable = BasicHashtable_new impl 0, mListener = False, mRemoved = [],
     mOldest = None, mYoungest = None, mMaxCapacity = maxCapacity, mNullValue = null\<rparr>"

definition setOnEntryRemovedListener :: "bool \<Rightarrow> ('k, 'v) LruCache \<Rightarrow> ('k, 'v) LruCache" where
  "setOnEntryRemovedListener listener c = c\<lparr>mListener := listener\<rparr>"

definition lru_size :: "('k, 'v) LruCache \<Rightarrow> nat" where
  "lru_size c = table_size (mTable c)"

text \<open>A write through a pointer to an entry, and the call of the listener.\<close>

definition set_entry :: "nat \<Rightarrow> (('k, 'v) Entry \<Rightarrow> ('k, 'v) Entry) \<Rightarrow> ('k, 'v) LruCache \<Rightarrow> ('k, 'v) LruCache option" where
  "set_entry p f c = map_option (\<lambda>t. c\<lparr>mTable := t\<rparr>) (editEntryAt (mTable c) p f)"

definition notify_removed :: "'k \<Rightarrow> 'v \<Rightarrow> ('k, 'v) LruCache \<Rightarrow> ('k, 'v) LruCache" where
  "notify_removed k v c = (if mListener c then c\<lparr>mRemoved := mRemoved c @ [(k, v)]\<rparr> else c)"

definition attachToCache :: "nat \<Rightarrow> ('k, 'v) LruCache \<Rightarrow> ('k, 'v) LruCache option" where
  "attachToCache e c = (case mYoungest c of
     None \<Rightarrow> Some (c\<lparr>mYoungest := Some e, mOldest := Some e\<rparr>)
   | Some y \<Rightarrow> do {
       c \<leftarrow> set_entry e (parent_update (\<lambda>_. Some y)) c;
       c \<leftarrow> set_entry y (child_update (\<lambda>_. Some e)) c;
       Some (c\<lparr>mYoungest := Some e\<rparr>)
     })"

definition detachFromCache :: "nat \<Rightarrow> ('k, 'v) LruCache \<Rightarrow> ('k, 'v) LruCache option" where
  "detachFromCache e c = do {
     en \<leftarrow> entryAt (mTable c) e;
     c \<leftarrow> (case parent en of
        Some p \<Rightarrow> set_entry p (child_update (\<lambda>_. child en)) c
      | None \<Rightarrow> Some (c\<lparr>mOldest := child en\<rparr>));
     en \<leftarrow> entryAt (mTable c) e;
     c \<leftarrow> (case child en of
        Some q \<Rightarrow> set_entry q (parent_update (\<lambda>_. parent en)) c
      | None \<Rightarrow> Some (c\<lparr>mYoungest := parent en\<rparr>));
     set_entry e (child_update (\<lambda>_. None) \<circ> parent_update (\<lambda>_. None)) c
   }"

definition lru_get :: "('k, 'v) lru_impl \<Rightarrow> ('k \<Rightarrow> 32 word) \<Rightarrow> 'k \<Rightarrow> ('k, 'v) LruCache \<Rightarrow> ('v \<times> ('k, 'v) LruCache) option" where
  "lru_get impl hash_type k c = (
     let hash = hash_type k; index = table_find impl (mTable c) (- 1) hash k in
     if index = - 1 then Some (mNullValue c, c)
     else do {
       c \<leftarrow> detachFromCache (nat index) c;
       c \<leftarrow> attachToCache (nat index) c;
       en \<leftarrow> entryAt (mTable c) (nat index);
       Some (val en, c)
     })"

definition lru_remove :: "('k, 'v) lru_impl \<Rightarrow> ('k \<Rightarrow> 32 word) \<Rightarrow> 'k \<Rightarrow> ('k, 'v) LruCache \<Rightarrow> (bool \<times> ('k, 'v) LruCache) option" where
  "lru_remove impl hash_type k c = (
     let hash = hash_type k; index = table_find impl (mTable c) (- 1) hash k in
     if index < 0 then Some (False, c)
     else do {
       en \<leftarrow> entryAt (mTable c) (nat index);
       c \<leftarrow> detachFromCache (nat index) (notify_removed (key en) (val en) c);
       Some (True, c\<lparr>mTable := table_removeAt impl (mTable c) (nat index)\<rparr>)
     })"

definition removeOldest :: "('k, 'v) lru_impl \<Rightarrow> ('k \<Rightarrow> 32 word) \<Rightarrow> ('k, 'v) LruCache \<Rightarrow> (bool \<times> ('k, 'v) LruCache) option" where
  "removeOldest impl hash_type c = (case mOldest c of
     Some p \<Rightarrow> do { en \<leftarrow> entryAt (mTable c) p; lru_remove impl hash_type (key en) c }
   | None \<Rightarrow> Some (False, c))"

partial_function (option) notify_all :: "nat option \<Rightarrow> ('k, 'v) LruCache \<Rightarrow> ('k, 'v) LruCache option" where
  "notify_all p c = (case p of None \<Rightarrow> Some c
     | Some i \<Rightarrow> do { en \<leftarrow> entryAt (mTable c) i; notify_all (child en) (notify_removed (key en) (val en) c) })"

definition lru_clear :: "('k, 'v) lru_impl \<Rightarrow> ('k, 'v) LruCache \<Rightarrow> ('k, 'v) LruCache option" where
  "lru_clear impl c = do {
     c \<leftarrow> (if mListener c then notify_all (mOldest c) c else Some c);
     Some (c\<lparr>mYoungest := None, mOldest := None, mTable := table_clear impl (mTable c)\<rparr>)
   }"

text \<open>\<open>put\<close>, given the function it calls to rehash; \<open>rehash\<close>, given the function it calls to put; and
  both tied together.\<close>

definition put_body :: "(nat \<Rightarrow> ('k, 'v) LruCache \<Rightarrow> ('k, 'v) LruCache option) \<Rightarrow> ('k, 'v) lru_impl \<Rightarrow> ('k \<Rightarrow> 32 word) \<Rightarrow>
    'k \<Rightarrow> 'v \<Rightarrow> ('k, 'v) LruCache \<Rightarrow> (bool \<times> ('k, 'v) LruCache) option" where
  "put_body rehash impl hash_type k v c = do {
     c \<leftarrow> (if mMaxCapacity c \<noteq> kUnlimitedCapacity \<and> lru_size c \<ge> mMaxCapacity c
           then map_option snd (removeOldest impl hash_type c) else Some c);
     let hash = hash_type k; index = table_find impl (mTable c) (- 1) hash k in
     if index \<ge> 0 then Some (False, c)
     else do {
       c \<leftarrow> (if \<not> hasMoreRoom (mTable c) then rehash (table_capacity (mTable c) * 2) c else Some c);
       let (t, i) = table_add impl (mTable c) hash (Entry_new k v);
       c \<leftarrow> attachToCache i (c\<lparr>mTable := t\<rparr>);
       Some (True, c)
     }
   }"

partial_function (option) reput :: "('k \<Rightarrow> 'v \<Rightarrow> ('k, 'v) LruCache \<Rightarrow> (bool \<times> ('k, 'v) LruCache) option) \<Rightarrow> ('k, 'v) Entry table \<Rightarrow>
    nat option \<Rightarrow> ('k, 'v) LruCache \<Rightarrow> ('k, 'v) LruCache option" where
  "reput put_fn oldTable p c = (case p of None \<Rightarrow> Some c
     | Some i \<Rightarrow> do {
         en \<leftarrow> entryAt oldTable i;
         rc \<leftarrow> put_fn (key en) (val en) c;
         reput put_fn oldTable (child en) (snd rc)
       })"

definition lru_rehash :: "('k \<Rightarrow> 'v \<Rightarrow> ('k, 'v) LruCache \<Rightarrow> (bool \<times> ('k, 'v) LruCache) option) \<Rightarrow> ('k, 'v) lru_impl \<Rightarrow>
    nat \<Rightarrow> ('k, 'v) LruCache \<Rightarrow> ('k, 'v) LruCache option" where
  "lru_rehash put_fn impl newCapacity c =
     (let oldTable = mTable c; oldest = mOldest c
      in reput put_fn oldTable oldest
           (c\<lparr>mOldest := None, mYoungest := None, mTable := BasicHashtable_new impl newCapacity\<rparr>))"

primrec lru_put :: "nat \<Rightarrow> ('k, 'v) lru_impl \<Rightarrow> ('k \<Rightarrow> 32 word) \<Rightarrow> 'k \<Rightarrow> 'v \<Rightarrow> ('k, 'v) LruCache \<Rightarrow>
    (bool \<times> ('k, 'v) LruCache) option" where
  "lru_put 0 impl hash_type = put_body (\<lambda>_ _. None) impl hash_type"
| "lru_put (Suc n) impl hash_type = put_body (lru_rehash (lru_put n impl hash_type) impl) impl hash_type"

text \<open>The iterator is the index of the bucket it stands on, -1 before the first \<open>next\<close>.\<close>

definition Iterator_new :: int where
  "Iterator_new = - 1"

definition Iterator_next :: "('k, 'v) lru_impl \<Rightarrow> ('k, 'v) LruCache \<Rightarrow> int \<Rightarrow> bool \<times> int" where
  "Iterator_next impl c mIndex = (let mIndex = table_next impl (mTable c) mIndex in (mIndex \<noteq> - 1, mIndex))"

definition Iterator_index :: "int \<Rightarrow> int" where
  "Iterator_index mIndex = mIndex"

definition Iterator_value :: "('k, 'v) LruCache \<Rightarrow> int \<Rightarrow> 'v option" where
  "Iterator_value c mIndex = (if mIndex < 0 then None else map_option val (entryAt (mTable c) (nat mIndex)))"

definition Iterator_key :: "('k, 'v) LruCache \<Rightarrow> int \<Rightarrow> 'k option" where
  "Iterator_key c mIndex = (if mIndex < 0 then None else map_option key (entryAt (mTable c) (nat mIndex)))"

subsection \<open>The chain of entries\<close>

text \<open>The nodes of the chain, oldest first: bucket, key and value. \<open>links m p ns q\<close> says that the entries at
  the nodes of \<open>ns\<close> are linked to each other, to \<open>p\<close> before the first and to \<open>q\<close> after the last.\<close>

type_synonym ('k, 'v) node = "nat \<times> 'k \<times> 'v"

definition first_of :: "('k, 'v) node list \<Rightarrow> nat option \<Rightarrow> nat option" where
  "first_of ns q = (if ns = [] then q else Some (fst (hd ns)))"

definition last_of :: "nat option \<Rightarrow> ('k, 'v) node list \<Rightarrow> nat option" where
  "last_of p ns = (if ns = [] then p else Some (fst (last ns)))"

fun links :: "(nat \<Rightarrow> ('k, 'v) Entry option) \<Rightarrow> nat option \<Rightarrow> ('k, 'v) node list \<Rightarrow> nat option \<Rightarrow> bool" where
  "links m p [] q = True"
| "links m p ((i, k, v) # ns) q = (m i = Some \<lparr>key = k, val = v, parent = p, child = first_of ns q\<rparr> \<and> links m (Some i) ns q)"

lemma ends_simps [simp]:
  "first_of [] q = q" "first_of (n # ns) q = Some (fst n)" "last_of p [] = p" "last_of p (ns @ [n]) = Some (fst n)"
  "last_of p (n # ns) = last_of (Some (fst n)) ns" "first_of (ms @ ns) q = first_of ms (first_of ns q)"
  by (auto simp: first_of_def last_of_def)

lemma last_of_append [simp]: "last_of p (ms @ ns) = last_of (last_of p ms) ns"
  by (simp add: last_of_def)

lemma links_append: "links m p (ms @ ns) q \<longleftrightarrow> links m p ms (first_of ns q) \<and> links m (last_of p ms) ns q"
  by (induction m p ms q rule: links.induct) auto

lemma links_cong: "(\<And>i. i \<in> fst ` set ns \<Longrightarrow> m' i = m i) \<Longrightarrow> links m' p ns q = links m p ns q"
  by (induction ns arbitrary: p) auto

lemma links_upd: "j \<notin> fst ` set ns \<Longrightarrow> links (m(j := x)) p ns q = links m p ns q"
  by (rule links_cong) auto

lemma links_parent:
  assumes "links m p (n # ns) q" "fst n \<notin> fst ` set ns"
  shows "\<exists>e. m (fst n) = Some e \<and> links (m(fst n \<mapsto> e\<lparr>parent := p'\<rparr>)) p' (n # ns) q"
  using assms by (cases n) (simp add: links_upd)

lemma links_child:
  assumes "links m p (ns @ [n]) q" "fst n \<notin> fst ` set ns"
  shows "\<exists>e. m (fst n) = Some e \<and> links (m(fst n \<mapsto> e\<lparr>child := q'\<rparr>)) p (ns @ [n]) q'"
  using assms by (cases n) (simp add: links_append links_upd)

text \<open>What the two list operations keep of the cache.\<close>

definition kept :: "('k, 'v) LruCache \<Rightarrow> ('k, 'v) LruCache \<Rightarrow> bool" where
  "kept c c' \<longleftrightarrow> mListener c' = mListener c \<and> mRemoved c' = mRemoved c \<and> mMaxCapacity c' = mMaxCapacity c \<and>
     mNullValue c' = mNullValue c \<and> mCapacity (mTable c') = mCapacity (mTable c) \<and> mSize (mTable c') = mSize (mTable c) \<and>
     mFilledBuckets (mTable c') = mFilledBuckets (mTable c) \<and> entries (mTable c') = entries (mTable c)"

lemma kept_refl [simp]: "kept c c" "kept c (c\<lparr>mOldest := x\<rparr>)" "kept c (c\<lparr>mYoungest := x\<rparr>)"
  by (simp_all add: kept_def)

lemma kept_trans [trans]: "kept a b \<Longrightarrow> kept b c \<Longrightarrow> kept a c"
  by (simp add: kept_def)

lemma set_entry_ok:
  assumes "impl_ok impl getKey hash_type ok" "ok (mTable c)" "entryAt (mTable c) p = Some e" "key (f e) = key e"
  shows "\<exists>c'. set_entry p f c = Some c' \<and> ok (mTable c') \<and> entryAt (mTable c') = (entryAt (mTable c))(p \<mapsto> f e) \<and>
    mOldest c' = mOldest c \<and> mYoungest c' = mYoungest c \<and> kept c c'"
proof -
  have "getKey (f e) = getKey e" using assms(4) by (simp add: getKey_def)
  from impl_edit_ok [of impl getKey hash_type ok "mTable c" p e f, OF assms(1-3) this] assms(3)
  show ?thesis by (auto simp: set_entry_def kept_def entries_def)
qed

definition chain_is :: "('k, 'v) LruCache \<Rightarrow> ('k, 'v) node list \<Rightarrow> bool" where
  "chain_is c ns \<longleftrightarrow> links (entryAt (mTable c)) None ns None \<and> distinct (map fst ns) \<and>
     mOldest c = first_of ns None \<and> mYoungest c = last_of None ns"

lemma attach_ok:
  assumes "impl_ok impl getKey hash_type ok" "ok (mTable c)" "chain_is c ns"
    and "entryAt (mTable c) i = Some \<lparr>key = k, val = v, parent = None, child = None\<rparr>" "i \<notin> fst ` set ns"
  shows "\<exists>c'. attachToCache i c = Some c' \<and> ok (mTable c') \<and> chain_is c' (ns @ [(i, k, v)]) \<and> kept c c'"
proof (cases ns rule: rev_cases)
  case Nil
  then show ?thesis using assms(2-4) by (auto simp: attachToCache_def chain_is_def kept_def)
next
  case (snoc ms n)
  let ?y = "fst n"
  have y: "mYoungest c = Some ?y" "?y \<notin> fst ` set ms" "i \<noteq> ?y" "i \<notin> fst ` set ms"
    using assms(3,5) by (auto simp: chain_is_def snoc)
  obtain c1 where c1: "set_entry i (parent_update (\<lambda>_. Some ?y)) c = Some c1" "ok (mTable c1)"
      "entryAt (mTable c1) = (entryAt (mTable c))(i \<mapsto> \<lparr>key = k, val = v, parent = Some ?y, child = None\<rparr>)"
      "mOldest c1 = mOldest c" "mYoungest c1 = mYoungest c" "kept c c1"
    using set_entry_ok [OF assms(1,2,4), of "parent_update (\<lambda>_. Some ?y)"] by auto
  have "links (entryAt (mTable c1)) None (ms @ [n]) None"
    using assms(3,5) by (simp add: c1(3) links_upd chain_is_def snoc)
  from links_child [OF this y(2), of "Some i"] obtain e where e: "entryAt (mTable c1) ?y = Some e"
      "links ((entryAt (mTable c1))(?y \<mapsto> e\<lparr>child := Some i\<rparr>)) None (ms @ [n]) (Some i)" by blast
  obtain c2 where c2: "set_entry ?y (child_update (\<lambda>_. Some i)) c1 = Some c2" "ok (mTable c2)"
      "entryAt (mTable c2) = (entryAt (mTable c1))(?y \<mapsto> e\<lparr>child := Some i\<rparr>)"
      "mOldest c2 = mOldest c1" "mYoungest c2 = mYoungest c1" "kept c1 c2"
    using set_entry_ok [OF assms(1) c1(2) e(1), of "child_update (\<lambda>_. Some i)"] by auto
  have "chain_is (c2\<lparr>mYoungest := Some i\<rparr>) (ns @ [(i, k, v)])"
    using e(2) y assms(3,5) by (cases n) (simp add: chain_is_def snoc links_append links_upd c2(3,4) c1(3,4))
  moreover have "kept c (c2\<lparr>mYoungest := Some i\<rparr>)" using c1(6) c2(6) by (simp add: kept_def)
  ultimately show ?thesis using y(1) c1(1) c2(1,2) by (simp add: attachToCache_def)
qed

lemma detach_parent:
  assumes "impl_ok impl getKey hash_type ok" "ok (mTable c)" "chain_is c (as @ (i, k, v) # bs)"
  shows "\<exists>c1. (case last_of None as of Some p \<Rightarrow> set_entry p (child_update (\<lambda>_. first_of bs None)) c
        | None \<Rightarrow> Some (c\<lparr>mOldest := first_of bs None\<rparr>)) = Some c1 \<and> ok (mTable c1) \<and>
      links (entryAt (mTable c1)) None as (first_of bs None) \<and> links (entryAt (mTable c1)) (Some i) bs None \<and>
      entryAt (mTable c1) i = entryAt (mTable c) i \<and> mOldest c1 = first_of (as @ bs) None \<and> mYoungest c1 = mYoungest c \<and> kept c c1"
proof (cases as rule: rev_cases)
  case Nil
  then show ?thesis using assms(2,3) by (simp add: chain_is_def)
next
  case (snoc as' a)
  let ?p = "fst a"
  have d: "?p \<notin> fst ` set as'" "?p \<noteq> i" "?p \<notin> fst ` set bs" using assms(3) by (auto simp: chain_is_def snoc)
  have l: "links (entryAt (mTable c)) None (as' @ [a]) (Some i)" "links (entryAt (mTable c)) (Some i) bs None"
    using assms(3) by (cases a, simp add: chain_is_def snoc links_append)+
  from links_child [OF l(1) d(1), of "first_of bs None"] obtain e where e: "entryAt (mTable c) ?p = Some e"
      "links ((entryAt (mTable c))(?p \<mapsto> e\<lparr>child := first_of bs None\<rparr>)) None (as' @ [a]) (first_of bs None)" by blast
  obtain c1 where c1: "set_entry ?p (child_update (\<lambda>_. first_of bs None)) c = Some c1" "ok (mTable c1)"
      "entryAt (mTable c1) = (entryAt (mTable c))(?p \<mapsto> e\<lparr>child := first_of bs None\<rparr>)"
      "mOldest c1 = mOldest c" "mYoungest c1 = mYoungest c" "kept c c1"
    using set_entry_ok [OF assms(1,2) e(1), of "child_update (\<lambda>_. first_of bs None)"] by auto
  have "mOldest c = first_of (as @ bs) None" using assms(3) by (simp add: chain_is_def snoc)
  then show ?thesis using c1 e(2) l(2) d by (simp add: snoc links_upd)
qed

lemma detach_child:
  assumes "impl_ok impl getKey hash_type ok" "ok (mTable c)"
    and "links (entryAt (mTable c)) None as (first_of bs None)" "links (entryAt (mTable c)) (Some i) bs None"
    and "distinct (map fst (as @ (i, k, v) # bs))" "mYoungest c = last_of (Some i) bs"
  shows "\<exists>c1. (case first_of bs None of Some q \<Rightarrow> set_entry q (parent_update (\<lambda>_. last_of None as)) c
        | None \<Rightarrow> Some (c\<lparr>mYoungest := last_of None as\<rparr>)) = Some c1 \<and> ok (mTable c1) \<and>
      links (entryAt (mTable c1)) None (as @ bs) None \<and>
      entryAt (mTable c1) i = entryAt (mTable c) i \<and> mOldest c1 = mOldest c \<and> mYoungest c1 = last_of None (as @ bs) \<and> kept c c1"
proof (cases bs)
  case Nil
  then show ?thesis using assms(2,3) by simp
next
  case (Cons b bs')
  let ?q = "fst b"
  have d: "?q \<notin> fst ` set bs'" "?q \<noteq> i" "?q \<notin> fst ` set as" using assms(5) by (auto simp: Cons)
  from links_parent [of _ "Some i" b bs' None "last_of None as", OF _ d(1)] assms(4)
  obtain e where e: "entryAt (mTable c) ?q = Some e"
      "links ((entryAt (mTable c))(?q \<mapsto> e\<lparr>parent := last_of None as\<rparr>)) (last_of None as) (b # bs') None"
    unfolding Cons by blast
  obtain c1 where c1: "set_entry ?q (parent_update (\<lambda>_. last_of None as)) c = Some c1" "ok (mTable c1)"
      "entryAt (mTable c1) = (entryAt (mTable c))(?q \<mapsto> e\<lparr>parent := last_of None as\<rparr>)"
      "mOldest c1 = mOldest c" "mYoungest c1 = mYoungest c" "kept c c1"
    using set_entry_ok [OF assms(1,2) e(1), of "parent_update (\<lambda>_. last_of None as)"] by auto
  show ?thesis using c1 e(2) assms(3,6) d by (simp add: Cons links_append links_upd last_of_def)
qed

lemma detach_ok:
  assumes "impl_ok impl getKey hash_type ok" "ok (mTable c)" "chain_is c (as @ (i, k, v) # bs)"
  shows "\<exists>c'. detachFromCache i c = Some c' \<and> ok (mTable c') \<and> chain_is c' (as @ bs) \<and>
    entryAt (mTable c') i = Some \<lparr>key = k, val = v, parent = None, child = None\<rparr> \<and> kept c c'"
proof -
  have e: "entryAt (mTable c) i = Some \<lparr>key = k, val = v, parent = last_of None as, child = first_of bs None\<rparr>"
    and d: "distinct (map fst (as @ (i, k, v) # bs))" and y: "mYoungest c = last_of (Some i) bs"
    using assms(3) by (simp_all add: chain_is_def links_append)
  obtain c1 where c1: "(case last_of None as of Some p \<Rightarrow> set_entry p (child_update (\<lambda>_. first_of bs None)) c
        | None \<Rightarrow> Some (c\<lparr>mOldest := first_of bs None\<rparr>)) = Some c1" "ok (mTable c1)"
      "links (entryAt (mTable c1)) None as (first_of bs None)" "links (entryAt (mTable c1)) (Some i) bs None"
      "entryAt (mTable c1) i = entryAt (mTable c) i" "mOldest c1 = first_of (as @ bs) None" "mYoungest c1 = mYoungest c" "kept c c1"
    using detach_parent [OF assms] by blast
  obtain c2 where c2: "(case first_of bs None of Some q \<Rightarrow> set_entry q (parent_update (\<lambda>_. last_of None as)) c1
        | None \<Rightarrow> Some (c1\<lparr>mYoungest := last_of None as\<rparr>)) = Some c2" "ok (mTable c2)"
      "links (entryAt (mTable c2)) None (as @ bs) None"
      "entryAt (mTable c2) i = entryAt (mTable c1) i" "mOldest c2 = mOldest c1" "mYoungest c2 = last_of None (as @ bs)" "kept c1 c2"
    using detach_child [OF assms(1) c1(2-4) d] c1(7) y by auto
  obtain c3 where c3: "set_entry i (child_update (\<lambda>_. None) \<circ> parent_update (\<lambda>_. None)) c2 = Some c3" "ok (mTable c3)"
      "entryAt (mTable c3) = (entryAt (mTable c2))(i \<mapsto> \<lparr>key = k, val = v, parent = None, child = None\<rparr>)"
      "mOldest c3 = mOldest c2" "mYoungest c3 = mYoungest c2" "kept c2 c3"
    using set_entry_ok [OF assms(1) c2(2), of i _ "child_update (\<lambda>_. None) \<circ> parent_update (\<lambda>_. None)"] c1(5) c2(4) e by auto
  have "i \<notin> fst ` set (as @ bs)" using d by auto
  then have "chain_is c3 (as @ bs)" using c2(3,6) c3(3-5) c1(6) c2(5) d by (simp add: chain_is_def links_upd)
  moreover have "detachFromCache i c = Some c3" using e c1(1,5) c2(1) c3(1) by (simp add: detachFromCache_def cong: option.case_cong)
  moreover have "kept c c3" using kept_trans [OF kept_trans [OF c1(8) c2(7)] c3(6)] .
  ultimately show ?thesis using c3(2,3) by simp
qed

subsection \<open>The cache as a list\<close>

text \<open>A cache holds the pairs \<open>xs\<close>, oldest first, at the buckets of the chain; its table has no other
  entries and it is not over its capacity.\<close>

definition lru_is :: "(('k, 'v) Entry table \<Rightarrow> bool) \<Rightarrow> ('k, 'v) LruCache \<Rightarrow> ('k, 'v) node list \<Rightarrow> bool" where
  "lru_is ok c ns \<longleftrightarrow> ok (mTable c) \<and> entries (mTable c) = fst ` set ns \<and> distinct (map (fst \<circ> snd) ns) \<and> chain_is c ns \<and>
     (mMaxCapacity c = kUnlimitedCapacity \<or> length ns \<le> mMaxCapacity c)"

definition lru_holds :: "(('k, 'v) Entry table \<Rightarrow> bool) \<Rightarrow> ('k, 'v) LruCache \<Rightarrow> ('k \<times> 'v) list \<Rightarrow> bool" where
  "lru_holds ok c xs \<longleftrightarrow> (\<exists>ns. lru_is ok c ns \<and> map snd ns = xs)"

text \<open>The abstract cache: a list of pairs with distinct keys.\<close>

definition drop_key :: "'k \<Rightarrow> ('k \<times> 'v) list \<Rightarrow> ('k \<times> 'v) list" where
  "drop_key k xs = filter (\<lambda>p. fst p \<noteq> k) xs"

definition use_key :: "'k \<Rightarrow> ('k \<times> 'v) list \<Rightarrow> ('k \<times> 'v) list" where
  "use_key k xs = drop_key k xs @ filter (\<lambda>p. fst p = k) xs"

definition evict :: "nat \<Rightarrow> ('k \<times> 'v) list \<Rightarrow> ('k \<times> 'v) list" where
  "evict cap xs = (if cap \<noteq> 0 \<and> length xs \<ge> cap then tl xs else xs)"

definition put_pair :: "nat \<Rightarrow> 'k \<Rightarrow> 'v \<Rightarrow> ('k \<times> 'v) list \<Rightarrow> ('k \<times> 'v) list" where
  "put_pair cap k v xs = (let ys = evict cap xs in if k \<in> fst ` set ys then ys else ys @ [(k, v)])"

definition settings :: "('k, 'v) LruCache \<Rightarrow> bool \<times> nat \<times> 'v" where
  "settings c = (mListener c, mMaxCapacity c, mNullValue c)"

lemma kept_settings: "kept c c' \<Longrightarrow> settings c' = settings c"
  by (simp add: kept_def settings_def)

lemma filter_key:
  assumes "distinct (map fst (xs @ (k, v) # ys))"
  shows "filter (\<lambda>p. fst p \<noteq> k) (xs @ (k, v) # ys) = xs @ ys" "filter (\<lambda>p. fst p = k) (xs @ (k, v) # ys) = [(k, v)]"
proof -
  have "\<forall>p \<in> set (xs @ ys). fst p \<noteq> k" using assms by force
  then show "filter (\<lambda>p. fst p \<noteq> k) (xs @ (k, v) # ys) = xs @ ys" "filter (\<lambda>p. fst p = k) (xs @ (k, v) # ys) = [(k, v)]"
    by (simp_all add: filter_True filter_False)
qed

lemma absent_key: "k \<notin> fst ` set xs \<Longrightarrow> drop_key k xs = xs \<and> filter (\<lambda>p. fst p = k) xs = [] \<and> use_key k xs = xs"
  by (induction xs) (auto simp: drop_key_def use_key_def)

lemma chain_entry:
  "chain_is c (as @ (i, k, v) # bs) \<Longrightarrow>
    entryAt (mTable c) i = Some \<lparr>key = k, val = v, parent = last_of None as, child = first_of bs None\<rparr>"
  by (simp add: chain_is_def links_append)

lemma lru_find:
  assumes "impl_ok impl getKey hash_type ok" "lru_is ok c ns"
  obtains (there) as i v bs where "table_find impl (mTable c) (- 1) (hash_type k) k = int i" "ns = as @ (i, k, v) # bs"
    | (absent) "table_find impl (mTable c) (- 1) (hash_type k) k = - 1" "k \<notin> fst ` set (map snd ns)"
proof -
  have ok: "ok (mTable c)" using assms(2) by (simp add: lru_is_def)
  show thesis
  proof (rule impl_find_cases [OF assms(1) ok, of k])
    fix j e assume j: "impl_find impl (mTable c) (- 1) (hash_type k) k = int j" "entryAt (mTable c) j = Some e" "getKey e = k"
    then have "j \<in> fst ` set ns" using assms(2) by (auto simp: lru_is_def entries_def)
    then obtain k' v where "(j, k', v) \<in> set ns" by auto
    then obtain as bs where ns: "ns = as @ (j, k', v) # bs" by (metis split_list)
    moreover have "k' = k" using chain_entry [of c as j k' v bs] assms(2) j ns by (simp add: lru_is_def getKey_def)
    ultimately show thesis using there j(1) by (simp add: table_find_def)
  next
    assume *: "impl_find impl (mTable c) (- 1) (hash_type k) k = - 1" "\<And>j e. entryAt (mTable c) j = Some e \<Longrightarrow> getKey e \<noteq> k"
    have "k' \<noteq> k" if "(j, k', v) \<in> set ns" for j k' v
    proof -
      obtain as bs where "ns = as @ (j, k', v) # bs" using \<open>(j, k', v) \<in> set ns\<close> by (metis split_list)
      then show ?thesis using chain_entry [of c as j k' v bs] assms(2) *(2) [of j] by (auto simp: lru_is_def getKey_def)
    qed
    then have "k \<notin> fst ` set (map snd ns)" by force
    then show thesis using absent *(1) by (simp add: table_find_def)
  qed
qed

lemma lru_size_holds:
  assumes "impl_ok impl getKey hash_type ok" "lru_is ok c ns"
  shows "lru_size c = length ns"
proof -
  have "distinct (map fst ns)" using assms(2) by (simp add: lru_is_def chain_is_def)
  then have "card (fst ` set ns) = length ns" by (metis distinct_card length_map list.set_map)
  then show ?thesis using impl_sizes [OF assms(1)] assms(2) by (simp add: lru_is_def lru_size_def table_size_def)
qed

lemma get_ok:
  assumes "impl_ok impl getKey hash_type ok" "lru_holds ok c xs"
  shows "\<exists>c'. lru_get impl hash_type k c = Some (case map_of xs k of Some v \<Rightarrow> v | None \<Rightarrow> mNullValue c, c') \<and>
    lru_holds ok c' (use_key k xs) \<and> mRemoved c' = mRemoved c \<and> settings c' = settings c"
proof -
  obtain ns where ns: "lru_is ok c ns" "map snd ns = xs" using assms(2) by (auto simp: lru_holds_def)
  show ?thesis
    using assms(1) ns(1)
  proof (cases rule: lru_find [where k = k])
    case absent
    have "map_of xs k = None" "use_key k xs = xs"
      using absent(2) ns(2) by (simp_all add: map_of_eq_None_iff absent_key)
    then show ?thesis using absent(1) assms(2) by (simp add: lru_get_def)
  next
    case (there as i v bs)
    have d: "distinct (map fst (map snd as @ (k, v) # map snd bs))"
      using ns(1) by (simp add: there(2) lru_is_def comp_def)
    have xs: "xs = map snd as @ (k, v) # map snd bs" using ns(2) there(2) by simp
    obtain c1 where c1: "detachFromCache i c = Some c1" "ok (mTable c1)" "chain_is c1 (as @ bs)"
      "entryAt (mTable c1) i = Some \<lparr>key = k, val = v, parent = None, child = None\<rparr>" "kept c c1"
      using detach_ok [OF assms(1), of c as i k v bs] ns(1) there(2) by (auto simp: lru_is_def)
    have "i \<notin> fst ` set (as @ bs)" using ns(1) there(2) by (auto simp: lru_is_def chain_is_def)
    from attach_ok [OF assms(1) c1(2,3,4) this] obtain c2 where c2: "attachToCache i c1 = Some c2" "ok (mTable c2)"
      "chain_is c2 ((as @ bs) @ [(i, k, v)])" "kept c1 c2" by blast
    have "lru_is ok c2 ((as @ bs) @ [(i, k, v)])"
      using ns(1) c1(5) c2 by (auto simp: there(2) lru_is_def kept_def)
    then have "lru_holds ok c2 (use_key k xs)"
      using filter_key [OF d] by (auto simp: lru_holds_def use_key_def drop_key_def xs)
    moreover have "map_of xs k = Some v" unfolding xs by (rule map_of_is_SomeI [OF d]) simp
    moreover have "entryAt (mTable c2) i = Some \<lparr>key = k, val = v, parent = last_of None (as @ bs), child = None\<rparr>"
      using chain_entry [OF c2(3)] by simp
    ultimately show ?thesis using there(1) c1(1,5) c2(1,4) by (auto simp: lru_get_def kept_def settings_def)
  qed
qed

lemma remove_ok:
  assumes "impl_ok impl getKey hash_type ok" "lru_holds ok c xs"
  shows "\<exists>c'. lru_remove impl hash_type k c = Some (k \<in> fst ` set xs, c') \<and> lru_holds ok c' (drop_key k xs) \<and>
    mRemoved c' = mRemoved c @ (if mListener c then filter (\<lambda>p. fst p = k) xs else []) \<and> settings c' = settings c"
proof -
  obtain ns where ns: "lru_is ok c ns" "map snd ns = xs" using assms(2) by (auto simp: lru_holds_def)
  show ?thesis
    using assms(1) ns(1)
  proof (cases rule: lru_find [where k = k])
    case absent
    then have a: "k \<notin> fst ` set xs" using ns(2) by simp
    then show ?thesis using absent(1) assms(2) absent_key [OF a] by (simp add: lru_remove_def)
  next
    case (there as i v bs)
    have d: "distinct (map fst (map snd as @ (k, v) # map snd bs))"
      using ns(1) by (simp add: there(2) lru_is_def comp_def)
    have xs: "xs = map snd as @ (k, v) # map snd bs" using ns(2) there(2) by simp
    let ?c = "notify_removed k v c"
    have nc: "ok (mTable ?c)" "chain_is ?c (as @ (i, k, v) # bs)" "mTable ?c = mTable c" "settings ?c = settings c"
      "mRemoved ?c = mRemoved c @ (if mListener c then [(k, v)] else [])"
      using ns(1) there(2) by (simp_all add: lru_is_def notify_removed_def chain_is_def settings_def)
    obtain c1 where c1: "detachFromCache i ?c = Some c1" "ok (mTable c1)" "chain_is c1 (as @ bs)"
      "entryAt (mTable c1) i = Some \<lparr>key = k, val = v, parent = None, child = None\<rparr>" "kept ?c c1"
      using detach_ok [OF assms(1) nc(1,2)] by blast
    have i: "i \<notin> fst ` set (as @ bs)" using ns(1) there(2) by (auto simp: lru_is_def chain_is_def)
    let ?c2 = "c1\<lparr>mTable := table_removeAt impl (mTable c1) i\<rparr>"
    have r: "ok (mTable ?c2)" "entryAt (mTable ?c2) = (entryAt (mTable c1))(i := None)"
      using impl_remove_ok [OF assms(1) c1(2,4)] by (simp_all add: table_removeAt_def)
    have "chain_is ?c2 (as @ bs)" using c1(3) i unfolding chain_is_def r(2) by (simp add: links_upd)
    moreover have "entries (mTable ?c2) = fst ` set (as @ bs)"
    proof -
      have "entries (mTable ?c2) = entries (mTable c1) - {i}" unfolding entries_def r(2) by auto
      then show ?thesis using ns(1) c1(5) i by (auto simp: there(2) lru_is_def kept_def nc(3))
    qed
    moreover have s: "settings c1 = settings c" "mRemoved c1 = mRemoved ?c"
      using kept_settings [OF c1(5)] nc(4) c1(5) by (simp_all add: kept_def)
    ultimately have "lru_is ok ?c2 (as @ bs)"
      using ns(1) r(1) by (auto simp: there(2) lru_is_def settings_def)
    then have "lru_holds ok ?c2 (drop_key k xs)"
      using filter_key(1) [OF d] by (auto simp: lru_holds_def drop_key_def xs)
    moreover have "entryAt (mTable c) i = Some \<lparr>key = k, val = v, parent = last_of None as, child = first_of bs None\<rparr>"
      using chain_entry [OF nc(2)] nc(3) by simp
    moreover have "filter (\<lambda>p. fst p = k) xs = [(k, v)]" "k \<in> fst ` set xs" using filter_key(2) [OF d] by (simp_all add: xs)
    ultimately show ?thesis using there(1) c1(1) s nc(5) by (simp add: lru_remove_def settings_def)
  qed
qed

lemma removeOldest_ok:
  assumes "impl_ok impl getKey hash_type ok" "lru_holds ok c xs"
  shows "\<exists>c'. removeOldest impl hash_type c = Some (xs \<noteq> [], c') \<and> lru_holds ok c' (tl xs) \<and>
    mRemoved c' = mRemoved c @ (if mListener c then take 1 xs else []) \<and> settings c' = settings c"
proof -
  obtain ns where ns: "lru_is ok c ns" "map snd ns = xs" using assms(2) by (auto simp: lru_holds_def)
  have o: "mOldest c = first_of ns None" using ns(1) by (simp add: lru_is_def chain_is_def)
  show ?thesis
  proof (cases ns)
    case Nil
    then show ?thesis using o ns(2) assms(2) by (auto simp: removeOldest_def)
  next
    case (Cons n ns')
    obtain i k v where n: "n = (i, k, v)" by (cases n)
    have d: "distinct (map fst ([] @ (k, v) # map snd ns'))"
      using ns(1) by (simp add: Cons n lru_is_def comp_def)
    have "entryAt (mTable c) i = Some \<lparr>key = k, val = v, parent = None, child = first_of ns' None\<rparr>"
      using chain_entry [of c "[]" i k v ns'] ns(1) by (simp add: lru_is_def Cons n)
    moreover have xs: "xs = (k, v) # map snd ns'" using ns(2) by (simp add: Cons n)
    moreover have "drop_key k xs = tl xs" "filter (\<lambda>p. fst p = k) xs = [(k, v)]"
      using filter_key [OF d] by (simp_all add: xs drop_key_def)
    ultimately show ?thesis using remove_ok [OF assms, of k] o by (cases "mListener c") (simp_all add: removeOldest_def Cons n)
  qed
qed

lemma notify_all_ok:
  "links (entryAt (mTable c)) p ns None \<Longrightarrow> notify_all (first_of ns None) c =
     Some (c\<lparr>mRemoved := mRemoved c @ (if mListener c then map snd ns else [])\<rparr>)"
proof (induction ns arbitrary: c p)
  case Nil
  then show ?case by (simp add: notify_all.simps)
next
  case (Cons n ns)
  obtain i k v where n: "n = (i, k, v)" by (cases n)
  have "links (entryAt (mTable (notify_removed k v c))) (Some i) ns None"
    using Cons.prems by (simp add: n notify_removed_def)
  from Cons.IH [OF this] Cons.prems show ?case
    by (subst notify_all.simps, cases "mListener c") (simp_all add: n notify_removed_def)
qed

lemma clear_ok:
  assumes "impl_ok impl getKey hash_type ok" "lru_holds ok c xs"
  shows "\<exists>c'. lru_clear impl c = Some c' \<and> lru_holds ok c' [] \<and>
    mRemoved c' = mRemoved c @ (if mListener c then xs else []) \<and> settings c' = settings c"
proof -
  obtain ns where ns: "lru_is ok c ns" "map snd ns = xs" using assms(2) by (auto simp: lru_holds_def)
  have l: "links (entryAt (mTable c)) None ns None" "mOldest c = first_of ns None" "ok (mTable c)"
    using ns(1) by (simp_all add: lru_is_def chain_is_def)
  let ?c = "c\<lparr>mRemoved := mRemoved c @ (if mListener c then xs else [])\<rparr>"
  have "(if mListener c then notify_all (mOldest c) c else Some c) = Some ?c"
    using notify_all_ok [OF l(1)] l(2) ns(2) by simp
  then show ?thesis using impl_clear_ok [OF assms(1) l(3)]
    by (auto simp: lru_clear_def lru_holds_def lru_is_def chain_is_def table_clear_def settings_def)
qed

subsection \<open>put and rehash\<close>

text \<open>Adding a new entry once there is room, or the table is empty.\<close>

lemma add_ok:
  assumes "impl_ok impl getKey hash_type ok" "lru_holds ok c xs" "hasMoreRoom (mTable c) \<or> xs = []" "k \<notin> fst ` set xs"
    and "mMaxCapacity c = kUnlimitedCapacity \<or> length xs < mMaxCapacity c"
    and "table_add impl (mTable c) (hash_type k) (Entry_new k v) = (t, i)"
  shows "\<exists>c'. attachToCache i (c\<lparr>mTable := t\<rparr>) = Some c' \<and> lru_holds ok c' (xs @ [(k, v)]) \<and> mRemoved c' = mRemoved c \<and>
    settings c' = settings c \<and> (hasMoreRoom (mTable c) \<longrightarrow> mCapacity (mTable c') = mCapacity (mTable c) \<and>
      mFilledBuckets (mTable c') \<le> mFilledBuckets (mTable c) + 1)"
proof -
  obtain ns where ns: "lru_is ok c ns" "map snd ns = xs" using assms(2) by (auto simp: lru_holds_def)
  have "entries (mTable c) = {}" if "xs = []" using ns that by (simp add: lru_is_def)
  then have r: "hasMoreRoom (mTable c) \<or> entries (mTable c) = {}" using assms(3) by blast
  have ok: "ok (mTable c)" "entries (mTable c) = fst ` set ns" using ns(1) by (simp_all add: lru_is_def)
  have "impl_add impl (mTable c) (hash_type (getKey (Entry_new k v))) (Entry_new k v) = (t, i)"
    using assms(6) by (simp add: table_add_def getKey_def Entry_new_def)
  note a = impl_add_ok [OF assms(1) ok(1) r this]
  let ?c = "c\<lparr>mTable := t\<rparr>"
  have i: "i \<notin> fst ` set ns" using a ok(2) by (auto simp: entries_def)
  have "chain_is ?c ns" using ns(1) a i by (simp add: lru_is_def chain_is_def links_upd)
  moreover have "entryAt (mTable ?c) i = Some \<lparr>key = k, val = v, parent = None, child = None\<rparr>"
    using a by (simp add: Entry_new_def)
  ultimately obtain c' where c': "attachToCache i ?c = Some c'" "ok (mTable c')" "chain_is c' (ns @ [(i, k, v)])" "kept ?c c'"
    using attach_ok [OF assms(1), of ?c ns i k v] a i by auto
  have "entries (mTable c') = insert i (fst ` set ns)"
    using c'(4) a ok(2) by (auto simp: kept_def entries_def)
  moreover have "distinct (map (fst \<circ> snd) (ns @ [(i, k, v)]))"
  proof -
    have "k \<notin> (fst \<circ> snd) ` set ns" using assms(4) by (simp add: ns(2) [symmetric] image_comp)
    then show ?thesis using ns(1) by (simp add: lru_is_def)
  qed
  moreover have "length (ns @ [(i, k, v)]) = length xs + 1" using ns(2) by auto
  ultimately have "lru_is ok c' (ns @ [(i, k, v)])"
    using c' assms(5) by (auto simp: lru_is_def kept_def)
  then have "lru_holds ok c' (xs @ [(k, v)])" using ns(2) by (auto simp: lru_holds_def)
  then show ?thesis using c'(1,4) a by (simp add: kept_def settings_def)
qed

lemma find_new:
  assumes "impl_ok impl getKey hash_type ok" "lru_holds ok c xs"
  shows "(table_find impl (mTable c) (- 1) (hash_type k) k \<ge> 0) = (k \<in> fst ` set xs)"
proof -
  obtain ns where ns: "lru_is ok c ns" "map snd ns = xs" using assms(2) by (auto simp: lru_holds_def)
  show ?thesis using assms(1) ns(1) by (cases rule: lru_find [where k = k]) (use ns(2) in force)+
qed

text \<open>While the old entries are put into the larger table nothing is evicted and nothing moves.\<close>

lemma reput_ok:
  assumes "impl_ok impl getKey hash_type ok" "links (entryAt old) p ns None"
    and "lru_holds ok c zs" "distinct (map fst (zs @ map snd ns))"
    and "mFilledBuckets (mTable c) \<le> length zs" "length zs + length ns \<le> mCapacity (mTable c)"
    and "mMaxCapacity c = kUnlimitedCapacity \<or> length zs + length ns \<le> mMaxCapacity c"
  shows "\<exists>c'. reput (put_body r impl hash_type) old (first_of ns None) c = Some c' \<and> lru_holds ok c' (zs @ map snd ns) \<and>
    mRemoved c' = mRemoved c \<and> settings c' = settings c \<and> mCapacity (mTable c') = mCapacity (mTable c) \<and>
    mFilledBuckets (mTable c') \<le> length zs + length ns"
  using assms(2-7)
proof (induction ns arbitrary: p c zs)
  case Nil
  then show ?case by (simp add: reput.simps)
next
  case (Cons n ns)
  obtain i k v where n: "n = (i, k, v)" by (cases n)
  have e: "entryAt old i = Some \<lparr>key = k, val = v, parent = p, child = first_of ns None\<rparr>" "links (entryAt old) (Some i) ns None"
    using Cons.prems(1) by (simp_all add: n)
  obtain ms where ms: "lru_is ok c ms" "map snd ms = zs" using Cons.prems(2) by (auto simp: lru_holds_def)
  have sz: "lru_size c = length zs" using lru_size_holds [OF assms(1) ms(1)] ms(2) by auto
  have lt: "mMaxCapacity c = kUnlimitedCapacity \<or> length zs < mMaxCapacity c" using Cons.prems(6) by auto
  have k: "k \<notin> fst ` set zs" using Cons.prems(3) by (auto simp: n)
  have room: "hasMoreRoom (mTable c)" using Cons.prems(4,5) by (simp add: hasMoreRoom_def)
  obtain t j where tj: "table_add impl (mTable c) (hash_type k) (Entry_new k v) = (t, j)" by fastforce
  obtain c1 where c1: "attachToCache j (c\<lparr>mTable := t\<rparr>) = Some c1" "lru_holds ok c1 (zs @ [(k, v)])" "mRemoved c1 = mRemoved c"
      "settings c1 = settings c" "mCapacity (mTable c1) = mCapacity (mTable c)" "mFilledBuckets (mTable c1) \<le> mFilledBuckets (mTable c) + 1"
    using add_ok [OF assms(1) Cons.prems(2) _ k lt tj] room by auto
  have "put_body r impl hash_type k v c = Some (True, c1)"
    using sz lt find_new [OF assms(1) Cons.prems(2), of k] k room tj c1(1) by (auto simp: put_body_def)
  moreover have "\<exists>c'. reput (put_body r impl hash_type) old (first_of ns None) c1 = Some c' \<and>
      lru_holds ok c' ((zs @ [(k, v)]) @ map snd ns) \<and> mRemoved c' = mRemoved c1 \<and> settings c' = settings c1 \<and>
      mCapacity (mTable c') = mCapacity (mTable c1) \<and> mFilledBuckets (mTable c') \<le> length (zs @ [(k, v)]) + length ns"
    by (rule Cons.IH [OF e(2) c1(2)]) (use Cons.prems(3-6) c1(4-6) in \<open>auto simp: n settings_def\<close>)
  ultimately show ?case using e(1) c1(3-5) by (subst reput.simps) (simp add: n)
qed

lemma rehash_ok:
  assumes "impl_ok impl getKey hash_type ok" "lru_holds ok c xs" "length xs \<le> newCapacity"
  shows "\<exists>c'. lru_rehash (put_body r impl hash_type) impl newCapacity c = Some c' \<and> lru_holds ok c' xs \<and>
    mRemoved c' = mRemoved c \<and> settings c' = settings c \<and> newCapacity \<le> mCapacity (mTable c') \<and>
    mFilledBuckets (mTable c') \<le> length xs"
proof -
  obtain ns where ns: "lru_is ok c ns" "map snd ns = xs" using assms(2) by (auto simp: lru_holds_def)
  let ?c = "c\<lparr>mOldest := None, mYoungest := None, mTable := BasicHashtable_new impl newCapacity\<rparr>"
  note new = impl_new_ok [OF assms(1), of newCapacity]
  have c0: "lru_holds ok ?c []"
    using new by (simp add: lru_holds_def lru_is_def chain_is_def BasicHashtable_new_def)
  have l: "links (entryAt (mTable c)) None ns None" "mOldest c = first_of ns None"
    using ns(1) by (simp_all add: lru_is_def chain_is_def)
  have d: "distinct (map fst ([] @ map snd ns))" using ns(1) by (simp add: lru_is_def comp_def)
  have cap: "length ([] :: ('a \<times> 'b) list) + length ns \<le> mCapacity (mTable ?c)"
    "mFilledBuckets (mTable ?c) \<le> length ([] :: ('a \<times> 'b) list)"
    using new assms(3) ns(2) by (auto simp: BasicHashtable_new_def)
  have m: "mMaxCapacity ?c = kUnlimitedCapacity \<or> length ([] :: ('a \<times> 'b) list) + length ns \<le> mMaxCapacity ?c"
    using ns(1) by (simp add: lru_is_def)
  from reput_ok [OF assms(1) l(1) c0 d cap(2,1) m, of r]
  show ?thesis using ns(2) new l(2) by (auto simp: lru_rehash_def Let_def settings_def BasicHashtable_new_def)
qed

lemma evict_ok:
  assumes "impl_ok impl getKey hash_type ok" "lru_holds ok c xs"
  shows "\<exists>c'. (if mMaxCapacity c \<noteq> kUnlimitedCapacity \<and> lru_size c \<ge> mMaxCapacity c
        then map_option snd (removeOldest impl hash_type c) else Some c) = Some c' \<and>
      lru_holds ok c' (evict (mMaxCapacity c) xs) \<and> settings c' = settings c \<and>
      mRemoved c' = mRemoved c @ (if mListener c then take (length xs - length (evict (mMaxCapacity c) xs)) xs else [])"
proof -
  obtain ns where ns: "lru_is ok c ns" "map snd ns = xs" using assms(2) by (auto simp: lru_holds_def)
  have sz: "lru_size c = length xs" using lru_size_holds [OF assms(1) ns(1)] ns(2) by auto
  obtain c' where c': "removeOldest impl hash_type c = Some (xs \<noteq> [], c')" "lru_holds ok c' (tl xs)"
      "mRemoved c' = mRemoved c @ (if mListener c then take 1 xs else [])" "settings c' = settings c"
    using removeOldest_ok [OF assms] by blast
  have "take (length xs - length (tl xs)) xs = take 1 xs" by (cases xs) auto
  then show ?thesis using c' assms(2) sz by (auto simp: evict_def kUnlimitedCapacity_def)
qed

lemma put_ok:
  assumes "impl_ok impl getKey hash_type ok" "lru_holds ok c xs"
  defines "ys \<equiv> evict (mMaxCapacity c) xs"
  shows "\<exists>c'. lru_put (Suc n) impl hash_type k v c = Some (k \<notin> fst ` set ys, c') \<and>
    lru_holds ok c' (put_pair (mMaxCapacity c) k v xs) \<and>
    mRemoved c' = mRemoved c @ (if mListener c then take (length xs - length ys) xs else []) \<and> settings c' = settings c"
proof -
  obtain c1 where c1: "(if mMaxCapacity c \<noteq> kUnlimitedCapacity \<and> lru_size c \<ge> mMaxCapacity c
        then map_option snd (removeOldest impl hash_type c) else Some c) = Some c1" "lru_holds ok c1 ys" "settings c1 = settings c"
      "mRemoved c1 = mRemoved c @ (if mListener c then take (length xs - length ys) xs else [])"
    using evict_ok [OF assms(1,2)] by (auto simp: ys_def)
  note f = find_new [OF assms(1) c1(2), of k]
  show ?thesis
  proof (cases "k \<in> fst ` set ys")
    case True
    then have "lru_put (Suc n) impl hash_type k v c = Some (False, c1)"
      using c1(1) f by (simp add: put_body_def)
    then show ?thesis using True c1(2-4) by (simp add: put_pair_def ys_def)
  next
    case False
    have bound: "length xs \<le> mMaxCapacity c" if "mMaxCapacity c \<noteq> 0"
      using assms(2) that by (auto simp: lru_holds_def lru_is_def kUnlimitedCapacity_def)
    have lt: "mMaxCapacity c1 = kUnlimitedCapacity \<or> length ys < mMaxCapacity c1"
      using c1(3) bound by (auto simp: settings_def ys_def evict_def kUnlimitedCapacity_def)
    obtain ms where ms: "lru_is ok c1 ms" "map snd ms = ys" using c1(2) by (auto simp: lru_holds_def)
    have "length ys = mSize (mTable c1)" using lru_size_holds [OF assms(1) ms(1)] ms(2) by (auto simp: lru_size_def table_size_def)
    then have cap: "length ys \<le> mFilledBuckets (mTable c1)" "mFilledBuckets (mTable c1) \<le> mCapacity (mTable c1)"
      using impl_sizes [OF assms(1), of "mTable c1"] ms(1) by (simp_all add: lru_is_def)
    obtain put0 where put0: "lru_put n impl hash_type = put_body put0 impl hash_type" by (cases n) auto
    obtain c2 where c2: "(if \<not> hasMoreRoom (mTable c1)
          then lru_rehash (lru_put n impl hash_type) impl (table_capacity (mTable c1) * 2) c1 else Some c1) = Some c2"
        "lru_holds ok c2 ys" "mRemoved c2 = mRemoved c1" "settings c2 = settings c1" "hasMoreRoom (mTable c2) \<or> ys = []"
    proof (cases "hasMoreRoom (mTable c1)")
      case True
      then show thesis using that c1(2) by simp
    next
      case nr: False
      have "length ys \<le> table_capacity (mTable c1) * 2" using cap by (simp add: table_capacity_def)
      from rehash_ok [OF assms(1) c1(2) this, of put0] obtain c2 where c2:
        "lru_rehash (lru_put n impl hash_type) impl (table_capacity (mTable c1) * 2) c1 = Some c2" "lru_holds ok c2 ys"
        "mRemoved c2 = mRemoved c1" "settings c2 = settings c1" "table_capacity (mTable c1) * 2 \<le> mCapacity (mTable c2)"
        "mFilledBuckets (mTable c2) \<le> length ys" unfolding put0 by blast
      moreover have "hasMoreRoom (mTable c2) \<or> ys = []"
      proof (cases "ys = []")
        case False
        then have "0 < length ys" by simp
        then show ?thesis using c2(5,6) cap unfolding hasMoreRoom_def table_capacity_def by linarith
      qed simp
      ultimately show thesis using that nr by simp
    qed
    obtain t i where ti: "table_add impl (mTable c2) (hash_type k) (Entry_new k v) = (t, i)" by fastforce
    have "mMaxCapacity c2 = kUnlimitedCapacity \<or> length ys < mMaxCapacity c2" using lt c2(4) by (auto simp: settings_def)
    from add_ok [OF assms(1) c2(2,5) False this ti] obtain c3 where c3: "attachToCache i (c2\<lparr>mTable := t\<rparr>) = Some c3"
      "lru_holds ok c3 (ys @ [(k, v)])" "mRemoved c3 = mRemoved c2" "settings c3 = settings c2" by blast
    have "lru_put (Suc n) impl hash_type k v c = Some (True, c3)"
      using c1(1) f False c2(1) ti c3(1) by (simp add: put_body_def)
    then show ?thesis using False c1(3,4) c2(3,4) c3(2-4) by (simp add: put_pair_def ys_def)
  qed
qed

subsection \<open>Properties\<close>

text \<open>C17: The LRU cache refines a list of pairs with distinct keys, oldest first, over any hash table that
  keeps the promises of its header. \<open>get\<close> returns the value of the key, or the null value, and moves its
  pair to the young end; \<open>remove\<close> says whether the key was there and takes its pair out; \<open>put\<close> first
  drops the oldest pair of a full cache and then adds the new pair at the young end unless its key is
  there, growing the table when it is full; \<open>removeOldest\<close> and \<open>clear\<close> drop the first and all pairs.
  None of them can fault, the size never exceeds the capacity, and the listener is called exactly for
  the pairs that leave. Two levels of \<open>put\<close> are enough fuel, because while the entries are put into
  the larger table it never fills up.\<close>

theorem lru_refines_list:
  assumes "impl_ok impl getKey hash_type ok" and "lru_holds ok c xs"
  shows "let told = (\<lambda>c' ps. mRemoved c' = mRemoved c @ (if mListener c then ps else []) \<and> settings c' = settings c) in
    lru_size c = length xs \<and> distinct (map fst xs) \<and> (mMaxCapacity c \<noteq> 0 \<longrightarrow> length xs \<le> mMaxCapacity c) \<and>
    (\<exists>c'. lru_get impl hash_type k c = Some (case map_of xs k of Some v \<Rightarrow> v | None \<Rightarrow> mNullValue c, c') \<and>
       lru_holds ok c' (use_key k xs) \<and> told c' []) \<and>
    (\<exists>c'. lru_remove impl hash_type k c = Some (k \<in> fst ` set xs, c') \<and> lru_holds ok c' (drop_key k xs) \<and>
       told c' (filter (\<lambda>p. fst p = k) xs)) \<and>
    (\<exists>c'. lru_put (Suc n) impl hash_type k v c = Some (k \<notin> fst ` set (evict (mMaxCapacity c) xs), c') \<and>
       lru_holds ok c' (put_pair (mMaxCapacity c) k v xs) \<and> told c' (take (length xs - length (evict (mMaxCapacity c) xs)) xs)) \<and>
    (\<exists>c'. removeOldest impl hash_type c = Some (xs \<noteq> [], c') \<and> lru_holds ok c' (tl xs) \<and> told c' (take 1 xs)) \<and>
    (\<exists>c'. lru_clear impl c = Some c' \<and> lru_holds ok c' [] \<and> told c' xs)"
proof -
  obtain ns where ns: "lru_is ok c ns" "map snd ns = xs" using assms(2) by (auto simp: lru_holds_def)
  have "lru_size c = length xs" using lru_size_holds [OF assms(1) ns(1)] ns(2) by auto
  moreover have "distinct (map fst xs)" "mMaxCapacity c \<noteq> 0 \<longrightarrow> length xs \<le> mMaxCapacity c"
    using ns by (auto simp: lru_is_def kUnlimitedCapacity_def comp_def)
  ultimately show ?thesis
    using get_ok [OF assms, of k] remove_ok [OF assms, of k] put_ok [OF assms, of n k v] removeOldest_ok [OF assms] clear_ok [OF assms]
    unfolding Let_def by (intro conjI) (simp_all split del: if_split)
qed

lemma new_ok_holds: "impl_ok impl getKey hash_type ok \<Longrightarrow> lru_holds ok (LruCache_new impl null cap) []"
  using impl_new_ok [of impl getKey hash_type ok 0]
  by (simp add: lru_holds_def lru_is_def chain_is_def LruCache_new_def BasicHashtable_new_def)

definition demo_cache :: "(string, int) LruCache" where
  "demo_cache = LruCache_new (demo_impl getKey) 0 2"

lemma demo_cache_holds: "lru_holds demo_table demo_cache []" "mMaxCapacity demo_cache = 2"
  using new_ok_holds [OF demo_impl_ok [of getKey "\<lambda>_. 0"], of 0 2] by (simp_all add: demo_cache_def LruCache_new_def)

theorem lru_refines_list_witness:
  "\<exists>c'. lru_put (Suc 0) (demo_impl getKey) (\<lambda>_. 0) ''a'' 7 demo_cache = Some (True, c') \<and> lru_holds demo_table c' [(''a'', 7)]"
  using lru_refines_list [OF demo_impl_ok [of getKey "\<lambda>_. 0"] demo_cache_holds(1), where k = "''a''" and v = 7 and n = 0]
  by (auto simp: Let_def demo_cache_holds put_pair_def evict_def simp del: lru_put.simps)

text \<open>Putting a key that a full cache already has still costs its oldest pair: the cache shrinks by
  one, the new value is not stored, and when the key itself was the oldest its old value is dropped and
  replaced.\<close>

lemma lru_put_existing_evicts:
  assumes "impl_ok impl getKey hash_type ok" and "lru_holds ok c ((k0, v0) # xs)"
    and "mMaxCapacity c = length xs + 1"
  shows "(k \<in> fst ` set xs \<longrightarrow> (\<exists>c'. lru_put (Suc n) impl hash_type k v c = Some (False, c') \<and> lru_holds ok c' xs)) \<and>
    (\<exists>c'. lru_put (Suc n) impl hash_type k0 v c = Some (True, c') \<and> lru_holds ok c' (xs @ [(k0, v)]))"
proof -
  obtain ns where "lru_is ok c ns" "map snd ns = (k0, v0) # xs" using assms(2) by (auto simp: lru_holds_def)
  then have "distinct (map fst ((k0, v0) # xs))" by (metis lru_is_def list.map_comp)
  then have "k0 \<notin> fst ` set xs" by simp
  moreover have e: "evict (mMaxCapacity c) ((k0, v0) # xs) = xs" by (simp add: evict_def assms(3))
  ultimately have "put_pair (mMaxCapacity c) k0 v ((k0, v0) # xs) = xs @ [(k0, v)]"
    "k \<in> fst ` set xs \<Longrightarrow> put_pair (mMaxCapacity c) k v ((k0, v0) # xs) = xs"
    by (simp_all add: put_pair_def)
  then show ?thesis using put_ok [OF assms(1,2), of n k v] put_ok [OF assms(1,2), of n k0 v] \<open>k0 \<notin> fst ` set xs\<close>
    by (cases "k \<in> fst ` set xs") (simp_all add: e del: lru_put.simps, blast+)
qed

theorem lru_put_existing_evicts_witness:
  "\<exists>c c'. lru_holds demo_table c [(''a'', 1), (''b'', 2 :: int)] \<and>
     lru_put (Suc 0) (demo_impl getKey) (\<lambda>_. 0) ''b'' 3 c = Some (False, c') \<and> lru_holds demo_table c' [(''b'', 2)]"
proof -
  note ok = demo_impl_ok [of getKey "\<lambda>_. 0"]
  obtain c1 where c1: "lru_holds demo_table c1 [(''a'', 1 :: int)]" "mMaxCapacity c1 = 2"
    using put_ok [OF ok demo_cache_holds(1), of 0 "''a''" 1] demo_cache_holds(2)
    by (auto simp: put_pair_def evict_def settings_def)
  obtain c2 where c2: "lru_holds demo_table c2 [(''a'', 1 :: int), (''b'', 2)]" "mMaxCapacity c2 = 2"
    using put_ok [OF ok c1(1), of 0 "''b''" 2] c1(2) by (auto simp: put_pair_def evict_def settings_def)
  have "mMaxCapacity c2 = length [(''b'', 2 :: int)] + 1" using c2(2) by simp
  from lru_put_existing_evicts [OF ok c2(1) this, of "''b''" 0 3] c2(1) show ?thesis by auto
qed

end
