(* ===== verification/Vector_Templates.thy ===== *)
theory Vector_Templates
  imports Type_Helpers Platform_Codes "HOL-Library.Word"
begin

unbundle bit_operations_syntax

text \<open>
  \<open>utils/Vector.h\<close> and \<open>utils/SortedVector.h\<close>: the typed vectors over \<open>VectorImpl\<close> and
  \<open>SortedVectorImpl\<close>. The functions of these base classes are only declared (\<open>utils/VectorImpl.h\<close>): they
  are the record \<open>vector_impl\<close>, an argument. A vector is the address of its storage, its items, and the
  two constants given to the base class; a result of type \<open>ssize_t\<close> is an int, negative for a status
  code. Access to an item that is not there is a fault (None). Copies share their storage until one of
  them is edited; as values they are independent.
\<close>

subsection \<open>The base classes\<close>

definition HAS_TRIVIAL_CTOR :: "32 word" where "HAS_TRIVIAL_CTOR = 1"
definition HAS_TRIVIAL_DTOR :: "32 word" where "HAS_TRIVIAL_DTOR = 2"
definition HAS_TRIVIAL_COPY :: "32 word" where "HAS_TRIVIAL_COPY = 4"

record 'e vector =
  mStorage :: nat
  mItems :: "'e list"
  mFlags :: "32 word"
  mItemSize :: nat

definition arrayImpl :: "'e vector \<Rightarrow> nat" where
  "arrayImpl v = mStorage v"

definition impl_size :: "'e vector \<Rightarrow> nat" where
  "impl_size v = length (mItems v)"

definition impl_isEmpty :: "'e vector \<Rightarrow> bool" where
  "impl_isEmpty v = (length (mItems v) = 0)"

text \<open>The functions of the base classes; those of the sorted one get the comparison \<open>do_compare\<close>.\<close>

record 'e vector_impl =
  vi_new :: "nat \<Rightarrow> 32 word \<Rightarrow> 'e vector"
  vi_copy :: "'e vector \<Rightarrow> 'e vector"
  vi_assign :: "'e vector \<Rightarrow> 'e vector \<Rightarrow> 'e vector"
  vi_editArray :: "'e vector \<Rightarrow> 'e vector"
  vi_editItemLocation :: "'e vector \<Rightarrow> nat \<Rightarrow> 'e vector"
  vi_itemSize :: "'e vector \<Rightarrow> nat"
  vi_capacity :: "'e vector \<Rightarrow> nat"
  vi_setCapacity :: "'e vector \<Rightarrow> nat \<Rightarrow> int \<times> 'e vector"
  vi_resize :: "'e vector \<Rightarrow> nat \<Rightarrow> int \<times> 'e vector"
  vi_insertVectorAt :: "'e vector \<Rightarrow> 'e vector \<Rightarrow> nat \<Rightarrow> int \<times> 'e vector"
  vi_appendVector :: "'e vector \<Rightarrow> 'e vector \<Rightarrow> int \<times> 'e vector"
  vi_insertArrayAt :: "'e vector \<Rightarrow> 'e list \<Rightarrow> nat \<Rightarrow> nat \<Rightarrow> int \<times> 'e vector"
  vi_appendArray :: "'e vector \<Rightarrow> 'e list \<Rightarrow> nat \<Rightarrow> int \<times> 'e vector"
  vi_insertAt :: "'e vector \<Rightarrow> 'e option \<Rightarrow> nat \<Rightarrow> nat \<Rightarrow> int \<times> 'e vector"
  vi_pop :: "'e vector \<Rightarrow> 'e vector"
  vi_push :: "'e vector \<Rightarrow> 'e option \<Rightarrow> 'e vector"
  vi_add :: "'e vector \<Rightarrow> 'e option \<Rightarrow> int \<times> 'e vector"
  vi_replaceAt :: "'e vector \<Rightarrow> 'e option \<Rightarrow> nat \<Rightarrow> int \<times> 'e vector"
  vi_removeItemsAt :: "'e vector \<Rightarrow> nat \<Rightarrow> nat \<Rightarrow> int \<times> 'e vector"
  vi_clear :: "'e vector \<Rightarrow> 'e vector"
  vi_sort :: "'e vector \<Rightarrow> ('e \<Rightarrow> 'e \<Rightarrow> int) \<Rightarrow> int \<times> 'e vector"
  vi_sort_r :: "'e vector \<Rightarrow> ('e \<Rightarrow> 'e \<Rightarrow> nat \<Rightarrow> int) \<Rightarrow> nat \<Rightarrow> int \<times> 'e vector"
  svi_indexOf :: "('e \<Rightarrow> 'e \<Rightarrow> int) \<Rightarrow> 'e vector \<Rightarrow> 'e \<Rightarrow> int"
  svi_orderOf :: "('e \<Rightarrow> 'e \<Rightarrow> int) \<Rightarrow> 'e vector \<Rightarrow> 'e \<Rightarrow> nat"
  svi_add :: "('e \<Rightarrow> 'e \<Rightarrow> int) \<Rightarrow> 'e vector \<Rightarrow> 'e \<Rightarrow> int \<times> 'e vector"
  svi_merge :: "('e \<Rightarrow> 'e \<Rightarrow> int) \<Rightarrow> 'e vector \<Rightarrow> 'e vector \<Rightarrow> int \<times> 'e vector"
  svi_merge_sorted :: "('e \<Rightarrow> 'e \<Rightarrow> int) \<Rightarrow> 'e vector \<Rightarrow> 'e vector \<Rightarrow> int \<times> 'e vector"
  svi_remove :: "('e \<Rightarrow> 'e \<Rightarrow> int) \<Rightarrow> 'e vector \<Rightarrow> 'e \<Rightarrow> int \<times> 'e vector"

subsection \<open>Vector\<close>

text \<open>The flags a constructor passes on; the traits are those of the element type.\<close>

definition vector_flags :: "trait_set \<Rightarrow> 32 word" where
  "vector_flags tr =
     ((if trivial_ctor tr then HAS_TRIVIAL_CTOR else 0) OR (if trivial_dtor tr then HAS_TRIVIAL_DTOR else 0)
      OR (if trivial_copy tr then HAS_TRIVIAL_COPY else 0))"

definition Vector_new :: "'e vector_impl \<Rightarrow> nat \<Rightarrow> trait_set \<Rightarrow> 'e vector" where
  "Vector_new impl sizeof_TYPE tr = vi_new impl sizeof_TYPE (vector_flags tr)"

definition Vector_copy :: "'e vector_impl \<Rightarrow> 'e vector \<Rightarrow> 'e vector" where
  "Vector_copy impl rhs = vi_copy impl rhs"

definition Vector_assign :: "'e vector_impl \<Rightarrow> 'e vector \<Rightarrow> 'e vector \<Rightarrow> 'e vector" where
  "Vector_assign impl v rhs = vi_assign impl v rhs"

definition v_clear :: "'e vector_impl \<Rightarrow> 'e vector \<Rightarrow> 'e vector" where "v_clear impl v = vi_clear impl v"
definition v_size :: "'e vector \<Rightarrow> nat" where "v_size v = impl_size v"
definition v_isEmpty :: "'e vector \<Rightarrow> bool" where "v_isEmpty v = impl_isEmpty v"
definition v_capacity :: "'e vector_impl \<Rightarrow> 'e vector \<Rightarrow> nat" where "v_capacity impl v = vi_capacity impl v"
definition v_setCapacity :: "'e vector_impl \<Rightarrow> 'e vector \<Rightarrow> nat \<Rightarrow> int \<times> 'e vector" where
  "v_setCapacity impl v n = vi_setCapacity impl v n"
definition v_resize :: "'e vector_impl \<Rightarrow> 'e vector \<Rightarrow> nat \<Rightarrow> int \<times> 'e vector" where
  "v_resize impl v n = vi_resize impl v n"

definition v_array :: "'e vector \<Rightarrow> nat" where "v_array v = arrayImpl v"
definition v_editArray :: "'e vector_impl \<Rightarrow> 'e vector \<Rightarrow> 'e vector" where "v_editArray impl v = vi_editArray impl v"

definition v_index :: "'e vector \<Rightarrow> nat \<Rightarrow> 'e option" where
  "v_index v index = (if index < length (mItems v) then Some (mItems v ! index) else None)"

definition v_itemAt :: "'e vector \<Rightarrow> nat \<Rightarrow> 'e option" where
  "v_itemAt v index = v_index v index"

definition v_top :: "'e vector \<Rightarrow> 'e option" where
  "v_top v = (if v_size v = 0 then None else Some (mItems v ! (v_size v - 1)))"

text \<open>A write through the reference the edit functions return.\<close>

definition v_editItemAt :: "'e vector_impl \<Rightarrow> 'e vector \<Rightarrow> nat \<Rightarrow> ('e \<Rightarrow> 'e) \<Rightarrow> 'e vector option" where
  "v_editItemAt impl v index f = (if index < length (mItems v) then let v = vi_editItemLocation impl v index in
       Some (v\<lparr>mItems := (mItems v)[index := f (mItems v ! index)]\<rparr>)
     else None)"

definition v_editTop :: "'e vector_impl \<Rightarrow> 'e vector \<Rightarrow> ('e \<Rightarrow> 'e) \<Rightarrow> 'e vector option" where
  "v_editTop impl v f = (if v_size v = 0 then None else v_editItemAt impl v (v_size v - 1) f)"

definition v_insertVectorAt :: "'e vector_impl \<Rightarrow> 'e vector \<Rightarrow> 'e vector \<Rightarrow> nat \<Rightarrow> int \<times> 'e vector" where
  "v_insertVectorAt impl v w index = vi_insertVectorAt impl v w index"
definition v_appendVector :: "'e vector_impl \<Rightarrow> 'e vector \<Rightarrow> 'e vector \<Rightarrow> int \<times> 'e vector" where
  "v_appendVector impl v w = vi_appendVector impl v w"
definition v_insertArrayAt :: "'e vector_impl \<Rightarrow> 'e vector \<Rightarrow> 'e list \<Rightarrow> nat \<Rightarrow> nat \<Rightarrow> int \<times> 'e vector" where
  "v_insertArrayAt impl v a index len = vi_insertArrayAt impl v a index len"
definition v_appendArray :: "'e vector_impl \<Rightarrow> 'e vector \<Rightarrow> 'e list \<Rightarrow> nat \<Rightarrow> int \<times> 'e vector" where
  "v_appendArray impl v a len = vi_appendArray impl v a len"

text \<open>With an item, and with the default constructor.\<close>

definition v_insertAt :: "'e vector_impl \<Rightarrow> 'e vector \<Rightarrow> 'e \<Rightarrow> nat \<Rightarrow> nat \<Rightarrow> int \<times> 'e vector" where
  "v_insertAt impl v item index numItems = vi_insertAt impl v (Some item) index numItems"
definition v_push :: "'e vector_impl \<Rightarrow> 'e vector \<Rightarrow> 'e \<Rightarrow> 'e vector" where
  "v_push impl v item = vi_push impl v (Some item)"
definition v_add :: "'e vector_impl \<Rightarrow> 'e vector \<Rightarrow> 'e \<Rightarrow> int \<times> 'e vector" where
  "v_add impl v item = vi_add impl v (Some item)"
definition v_replaceAt :: "'e vector_impl \<Rightarrow> 'e vector \<Rightarrow> 'e \<Rightarrow> nat \<Rightarrow> int \<times> 'e vector" where
  "v_replaceAt impl v item index = vi_replaceAt impl v (Some item) index"
definition v_insertAt_default :: "'e vector_impl \<Rightarrow> 'e vector \<Rightarrow> nat \<Rightarrow> nat \<Rightarrow> int \<times> 'e vector" where
  "v_insertAt_default impl v index numItems = vi_insertAt impl v None index numItems"
definition v_pop :: "'e vector_impl \<Rightarrow> 'e vector \<Rightarrow> 'e vector" where
  "v_pop impl v = vi_pop impl v"
definition v_push_default :: "'e vector_impl \<Rightarrow> 'e vector \<Rightarrow> 'e vector" where
  "v_push_default impl v = vi_push impl v None"
definition v_add_default :: "'e vector_impl \<Rightarrow> 'e vector \<Rightarrow> int \<times> 'e vector" where
  "v_add_default impl v = vi_add impl v None"
definition v_replaceAt_default :: "'e vector_impl \<Rightarrow> 'e vector \<Rightarrow> nat \<Rightarrow> int \<times> 'e vector" where
  "v_replaceAt_default impl v index = vi_replaceAt impl v None index"
definition v_removeItemsAt :: "'e vector_impl \<Rightarrow> 'e vector \<Rightarrow> nat \<Rightarrow> nat \<Rightarrow> int \<times> 'e vector" where
  "v_removeItemsAt impl v index count = vi_removeItemsAt impl v index count"
definition v_removeAt :: "'e vector_impl \<Rightarrow> 'e vector \<Rightarrow> nat \<Rightarrow> int \<times> 'e vector" where
  "v_removeAt impl v index = v_removeItemsAt impl v index 1"
definition v_sort :: "'e vector_impl \<Rightarrow> 'e vector \<Rightarrow> ('e \<Rightarrow> 'e \<Rightarrow> int) \<Rightarrow> int \<times> 'e vector" where
  "v_sort impl v cmp = vi_sort impl v cmp"
definition v_sort_r :: "'e vector_impl \<Rightarrow> 'e vector \<Rightarrow> ('e \<Rightarrow> 'e \<Rightarrow> nat \<Rightarrow> int) \<Rightarrow> nat \<Rightarrow> int \<times> 'e vector" where
  "v_sort_r impl v cmp state = vi_sort_r impl v cmp state"
definition getItemSize :: "'e vector_impl \<Rightarrow> 'e vector \<Rightarrow> nat" where
  "getItemSize impl v = vi_itemSize impl v"

text \<open>The inlines named after the standard library. An iterator is an index into the array; \<open>begin\<close> and
  \<open>end\<close> come for a constant vector, and for one that is detached from its copies first.\<close>

definition v_begin :: int where "v_begin = 0"
definition v_end :: "'e vector \<Rightarrow> int" where "v_end v = v_begin + int (v_size v)"
definition v_begin_edit :: "'e vector_impl \<Rightarrow> 'e vector \<Rightarrow> int \<times> 'e vector" where
  "v_begin_edit impl v = (0, v_editArray impl v)"
definition v_end_edit :: "'e vector_impl \<Rightarrow> 'e vector \<Rightarrow> int \<times> 'e vector" where
  "v_end_edit impl v = (let v = v_editArray impl v in (int (v_size v), v))"
definition v_reserve :: "'e vector_impl \<Rightarrow> 'e vector \<Rightarrow> nat \<Rightarrow> 'e vector" where
  "v_reserve impl v n = snd (v_setCapacity impl v n)"
definition v_empty :: "'e vector \<Rightarrow> bool" where "v_empty v = v_isEmpty v"
definition v_push_back :: "'e vector_impl \<Rightarrow> 'e vector \<Rightarrow> 'e \<Rightarrow> 'e vector" where
  "v_push_back impl v item = snd (v_insertAt impl v item (v_size v) 1)"
definition v_push_front :: "'e vector_impl \<Rightarrow> 'e vector \<Rightarrow> 'e \<Rightarrow> 'e vector" where
  "v_push_front impl v item = snd (v_insertAt impl v item 0 1)"
definition v_erase :: "'e vector_impl \<Rightarrow> 'e vector \<Rightarrow> nat \<Rightarrow> int \<times> 'e vector" where
  "v_erase impl v pos = (let (index, v) = v_removeItemsAt impl v pos 1; (it, v) = v_begin_edit impl v in (it + index, v))"

text \<open>What the base class calls back for the elements, on an array of cells.\<close>

definition v_do_construct :: "trait_set \<Rightarrow> 'a \<Rightarrow> nat \<Rightarrow> nat \<Rightarrow> 'a cells \<Rightarrow> 'a cells option" where
  "v_do_construct tr d storage num = construct_type tr d storage num"
definition v_do_destroy :: "trait_set \<Rightarrow> nat \<Rightarrow> nat \<Rightarrow> 'a cells \<Rightarrow> 'a cells option" where
  "v_do_destroy tr storage num = destroy_type tr storage num"
definition v_do_copy :: "trait_set \<Rightarrow> nat \<Rightarrow> nat \<Rightarrow> nat \<Rightarrow> 'a cells \<Rightarrow> 'a cells option" where
  "v_do_copy tr dest src num = copy_type tr dest src num"
definition v_do_splat :: "trait_set \<Rightarrow> nat \<Rightarrow> 'a \<Rightarrow> nat \<Rightarrow> 'a cells \<Rightarrow> 'a cells option" where
  "v_do_splat tr dest item num = splat_type tr dest item num"
definition v_do_move_forward :: "trait_set \<Rightarrow> nat \<Rightarrow> nat \<Rightarrow> nat \<Rightarrow> 'a cells \<Rightarrow> 'a cells option" where
  "v_do_move_forward tr dest src num = move_forward_type tr dest src num"
definition v_do_move_backward :: "trait_set \<Rightarrow> nat \<Rightarrow> nat \<Rightarrow> nat \<Rightarrow> 'a cells \<Rightarrow> 'a cells option" where
  "v_do_move_backward tr dest src num = move_backward_type tr dest src num"

subsection \<open>SortedVector\<close>

text \<open>The comparison it gives to the base class, from the operator \<open><\<close> of the element type.\<close>

definition sv_do_compare :: "('e \<Rightarrow> 'e \<Rightarrow> bool) \<Rightarrow> 'e \<Rightarrow> 'e \<Rightarrow> int" where
  "sv_do_compare lt lhs rhs = compare_type lt lhs rhs"

definition SortedVector_new :: "'e vector_impl \<Rightarrow> nat \<Rightarrow> trait_set \<Rightarrow> 'e vector" where
  "SortedVector_new impl sizeof_TYPE tr = vi_new impl sizeof_TYPE (vector_flags tr)"

definition SortedVector_copy :: "'e vector_impl \<Rightarrow> 'e vector \<Rightarrow> 'e vector" where
  "SortedVector_copy impl rhs = vi_copy impl rhs"
definition SortedVector_assign :: "'e vector_impl \<Rightarrow> 'e vector \<Rightarrow> 'e vector \<Rightarrow> 'e vector" where
  "SortedVector_assign impl v rhs = vi_assign impl v rhs"

definition sv_clear :: "'e vector_impl \<Rightarrow> 'e vector \<Rightarrow> 'e vector" where "sv_clear impl v = vi_clear impl v"
definition sv_size :: "'e vector \<Rightarrow> nat" where "sv_size v = impl_size v"
definition sv_isEmpty :: "'e vector \<Rightarrow> bool" where "sv_isEmpty v = impl_isEmpty v"
definition sv_capacity :: "'e vector_impl \<Rightarrow> 'e vector \<Rightarrow> nat" where "sv_capacity impl v = vi_capacity impl v"
definition sv_setCapacity :: "'e vector_impl \<Rightarrow> 'e vector \<Rightarrow> nat \<Rightarrow> int \<times> 'e vector" where
  "sv_setCapacity impl v n = vi_setCapacity impl v n"
definition sv_array :: "'e vector \<Rightarrow> nat" where "sv_array v = arrayImpl v"

definition sv_editArray :: "'e vector_impl \<Rightarrow> 'e vector \<Rightarrow> 'e vector" where "sv_editArray impl v = vi_editArray impl v"

definition sv_indexOf :: "'e vector_impl \<Rightarrow> ('e \<Rightarrow> 'e \<Rightarrow> bool) \<Rightarrow> 'e vector \<Rightarrow> 'e \<Rightarrow> int" where
  "sv_indexOf impl lt v item = svi_indexOf impl (sv_do_compare lt) v item"
definition sv_orderOf :: "'e vector_impl \<Rightarrow> ('e \<Rightarrow> 'e \<Rightarrow> bool) \<Rightarrow> 'e vector \<Rightarrow> 'e \<Rightarrow> nat" where
  "sv_orderOf impl lt v item = svi_orderOf impl (sv_do_compare lt) v item"
definition sv_index :: "'e vector \<Rightarrow> nat \<Rightarrow> 'e option" where
  "sv_index v index = (if index < length (mItems v) then Some (mItems v ! index) else None)"
definition sv_itemAt :: "'e vector \<Rightarrow> nat \<Rightarrow> 'e option" where
  "sv_itemAt v index = sv_index v index"
definition sv_top :: "'e vector \<Rightarrow> 'e option" where
  "sv_top v = (if sv_size v = 0 then None else Some (mItems v ! (sv_size v - 1)))"
definition sv_add :: "'e vector_impl \<Rightarrow> ('e \<Rightarrow> 'e \<Rightarrow> bool) \<Rightarrow> 'e vector \<Rightarrow> 'e \<Rightarrow> int \<times> 'e vector" where
  "sv_add impl lt v item = svi_add impl (sv_do_compare lt) v item"
definition sv_editItemAt :: "'e vector_impl \<Rightarrow> 'e vector \<Rightarrow> nat \<Rightarrow> ('e \<Rightarrow> 'e) \<Rightarrow> 'e vector option" where
  "sv_editItemAt impl v index f = (if index < length (mItems v) then let v = vi_editItemLocation impl v index in
       Some (v\<lparr>mItems := (mItems v)[index := f (mItems v ! index)]\<rparr>)
     else None)"
definition sv_merge :: "'e vector_impl \<Rightarrow> ('e \<Rightarrow> 'e \<Rightarrow> bool) \<Rightarrow> 'e vector \<Rightarrow> 'e vector \<Rightarrow> int \<times> 'e vector" where
  "sv_merge impl lt v w = svi_merge impl (sv_do_compare lt) v w"
definition sv_merge_sorted :: "'e vector_impl \<Rightarrow> ('e \<Rightarrow> 'e \<Rightarrow> bool) \<Rightarrow> 'e vector \<Rightarrow> 'e vector \<Rightarrow> int \<times> 'e vector" where
  "sv_merge_sorted impl lt v w = svi_merge_sorted impl (sv_do_compare lt) v w"
definition sv_remove :: "'e vector_impl \<Rightarrow> ('e \<Rightarrow> 'e \<Rightarrow> bool) \<Rightarrow> 'e vector \<Rightarrow> 'e \<Rightarrow> int \<times> 'e vector" where
  "sv_remove impl lt v item = svi_remove impl (sv_do_compare lt) v item"
definition sv_removeItemsAt :: "'e vector_impl \<Rightarrow> 'e vector \<Rightarrow> nat \<Rightarrow> nat \<Rightarrow> int \<times> 'e vector" where
  "sv_removeItemsAt impl v index count = vi_removeItemsAt impl v index count"
definition sv_removeAt :: "'e vector_impl \<Rightarrow> 'e vector \<Rightarrow> nat \<Rightarrow> int \<times> 'e vector" where
  "sv_removeAt impl v index = sv_removeItemsAt impl v index 1"

text \<open>Its callbacks for the elements.\<close>

definition sv_do_construct :: "trait_set \<Rightarrow> 'a \<Rightarrow> nat \<Rightarrow> nat \<Rightarrow> 'a cells \<Rightarrow> 'a cells option" where
  "sv_do_construct tr d storage num = construct_type tr d storage num"
definition sv_do_destroy :: "trait_set \<Rightarrow> nat \<Rightarrow> nat \<Rightarrow> 'a cells \<Rightarrow> 'a cells option" where
  "sv_do_destroy tr storage num = destroy_type tr storage num"
definition sv_do_copy :: "trait_set \<Rightarrow> nat \<Rightarrow> nat \<Rightarrow> nat \<Rightarrow> 'a cells \<Rightarrow> 'a cells option" where
  "sv_do_copy tr dest src num = copy_type tr dest src num"
definition sv_do_splat :: "trait_set \<Rightarrow> nat \<Rightarrow> 'a \<Rightarrow> nat \<Rightarrow> 'a cells \<Rightarrow> 'a cells option" where
  "sv_do_splat tr dest item num = splat_type tr dest item num"
definition sv_do_move_forward :: "trait_set \<Rightarrow> nat \<Rightarrow> nat \<Rightarrow> nat \<Rightarrow> 'a cells \<Rightarrow> 'a cells option" where
  "sv_do_move_forward tr dest src num = move_forward_type tr dest src num"
definition sv_do_move_backward :: "trait_set \<Rightarrow> nat \<Rightarrow> nat \<Rightarrow> nat \<Rightarrow> 'a cells \<Rightarrow> 'a cells option" where
  "sv_do_move_backward tr dest src num = move_backward_type tr dest src num"

subsection \<open>What the headers promise\<close>

text \<open>Items in strictly ascending order for a comparison; the place of an item and the list with it added
  or replaced, as the comments describe \<open>add\<close>; the list without it.\<close>

definition ascending :: "('e \<Rightarrow> 'e \<Rightarrow> int) \<Rightarrow> 'e list \<Rightarrow> bool" where
  "ascending cmp xs \<longleftrightarrow> sorted_wrt (\<lambda>a b. cmp a b < 0) xs"

fun put_sorted :: "('e \<Rightarrow> 'e \<Rightarrow> int) \<Rightarrow> 'e \<Rightarrow> 'e list \<Rightarrow> 'e list" where
  "put_sorted cmp x [] = [x]"
| "put_sorted cmp x (y # ys) =
     (if cmp x y < 0 then x # y # ys else if cmp x y = 0 then x # ys else y # put_sorted cmp x ys)"

definition remove_sorted :: "('e \<Rightarrow> 'e \<Rightarrow> int) \<Rightarrow> 'e \<Rightarrow> 'e list \<Rightarrow> 'e list" where
  "remove_sorted cmp x xs = filter (\<lambda>y. cmp x y \<noteq> 0) xs"

definition found :: "('e \<Rightarrow> 'e \<Rightarrow> int) \<Rightarrow> 'e \<Rightarrow> 'e list \<Rightarrow> int \<Rightarrow> bool" where
  "found cmp x xs i \<longleftrightarrow> (if \<exists>y \<in> set xs. cmp x y = 0 then 0 \<le> i \<and> nat i < length xs \<and> cmp x (xs ! nat i) = 0 else i < 0)"

text \<open>The promises, when memory does not run out: a fresh vector is empty, editing an item changes
  nothing else, insertion and removal by index do what their names say and return the index.\<close>

definition vector_ok :: "'e vector_impl \<Rightarrow> bool" where
  "vector_ok impl \<longleftrightarrow>
     (\<forall>n fl. mItems (vi_new impl n fl) = []) \<and>
     (\<forall>v. mItems (vi_clear impl v) = []) \<and>
     (\<forall>v. mItems (vi_editArray impl v) = mItems v) \<and>
     (\<forall>v i. i < length (mItems v) \<longrightarrow> mItems (vi_editItemLocation impl v i) = mItems v) \<and>
     (\<forall>v x i n. i \<le> length (mItems v) \<longrightarrow>
        fst (vi_insertAt impl v (Some x) i n) = int i \<and>
        mItems (snd (vi_insertAt impl v (Some x) i n)) = take i (mItems v) @ replicate n x @ drop i (mItems v)) \<and>
     (\<forall>v i n. i + n \<le> length (mItems v) \<longrightarrow>
        fst (vi_removeItemsAt impl v i n) = int i \<and>
        mItems (snd (vi_removeItemsAt impl v i n)) = take i (mItems v) @ drop (i + n) (mItems v))"

definition sorted_vector_ok :: "'e vector_impl \<Rightarrow> ('e \<Rightarrow> 'e \<Rightarrow> int) \<Rightarrow> bool" where
  "sorted_vector_ok impl cmp \<longleftrightarrow> vector_ok impl \<and>
     (\<forall>v x. ascending cmp (mItems v) \<longrightarrow>
        found cmp x (mItems v) (svi_indexOf impl cmp v x) \<and>
        0 \<le> fst (svi_add impl cmp v x) \<and> mItems (snd (svi_add impl cmp v x)) = put_sorted cmp x (mItems v) \<and>
        found cmp x (mItems v) (fst (svi_remove impl cmp v x)) \<and>
        mItems (snd (svi_remove impl cmp v x)) = remove_sorted cmp x (mItems v))"

text \<open>An implementation on the lists themselves, for the witnesses; storage addresses are not used.\<close>

definition with_items :: "'e vector \<Rightarrow> 'e list \<Rightarrow> 'e vector" where
  "with_items v xs = v\<lparr>mItems := xs\<rparr>"

definition list_index :: "('e \<Rightarrow> 'e \<Rightarrow> int) \<Rightarrow> 'e list \<Rightarrow> 'e \<Rightarrow> int" where
  "list_index cmp xs x = (case find (\<lambda>i. cmp x (xs ! i) = 0) [0..<length xs] of Some i \<Rightarrow> int i | None \<Rightarrow> - 1)"

definition insert_items :: "'e \<Rightarrow> 'e vector \<Rightarrow> 'e option \<Rightarrow> nat \<Rightarrow> nat \<Rightarrow> int \<times> 'e vector" where
  "insert_items d v x i n = (int i, with_items v (take i (mItems v) @ replicate n (case x of Some x \<Rightarrow> x | None \<Rightarrow> d) @ drop i (mItems v)))"

definition demo_vector :: "'e \<Rightarrow> 'e vector_impl" where
  "demo_vector d = \<lparr>
     vi_new = (\<lambda>n fl. \<lparr>mStorage = 0, mItems = [], mFlags = fl, mItemSize = n\<rparr>),
     vi_copy = (\<lambda>v. v), vi_assign = (\<lambda>v w. w), vi_editArray = (\<lambda>v. v), vi_editItemLocation = (\<lambda>v i. v), vi_itemSize = mItemSize, vi_capacity = (\<lambda>v. length (mItems v)),
     vi_setCapacity = (\<lambda>v n. (int n, v)),
     vi_resize = (\<lambda>v n. (int n, with_items v (take n (mItems v) @ replicate (n - length (mItems v)) d))),
     vi_insertVectorAt = (\<lambda>v w i. (int i, with_items v (take i (mItems v) @ mItems w @ drop i (mItems v)))),
     vi_appendVector = (\<lambda>v w. (int (length (mItems v)), with_items v (mItems v @ mItems w))),
     vi_insertArrayAt = (\<lambda>v a i n. (int i, with_items v (take i (mItems v) @ take n a @ drop i (mItems v)))),
     vi_appendArray = (\<lambda>v a n. (int (length (mItems v)), with_items v (mItems v @ take n a))),
     vi_insertAt = insert_items d,
     vi_pop = (\<lambda>v. with_items v (butlast (mItems v))),
     vi_push = (\<lambda>v x. snd (insert_items d v x (length (mItems v)) 1)),
     vi_add = (\<lambda>v x. insert_items d v x (length (mItems v)) 1),
     vi_replaceAt = (\<lambda>v x i. (int i, with_items v ((mItems v)[i := (case x of Some x \<Rightarrow> x | None \<Rightarrow> d)]))),
     vi_removeItemsAt = (\<lambda>v i n. (int i, with_items v (take i (mItems v) @ drop (i + n) (mItems v)))),
     vi_clear = (\<lambda>v. with_items v []),
     vi_sort = (\<lambda>v cmp. (0, with_items v (foldr (\<lambda>x ys. takeWhile (\<lambda>y. cmp y x < 0) ys @ x # dropWhile (\<lambda>y. cmp y x < 0) ys) (mItems v) []))),
     vi_sort_r = (\<lambda>v cmp st. (0, with_items v (foldr (\<lambda>x ys. takeWhile (\<lambda>y. cmp y x st < 0) ys @ x # dropWhile (\<lambda>y. cmp y x st < 0) ys) (mItems v) []))),
     svi_indexOf = (\<lambda>cmp v. list_index cmp (mItems v)),
     svi_orderOf = (\<lambda>cmp v x. length (filter (\<lambda>y. cmp y x < 0) (mItems v))),
     svi_add = (\<lambda>cmp v x. (0, with_items v (put_sorted cmp x (mItems v)))),
     svi_merge = (\<lambda>cmp v w. (0, with_items v (foldl (\<lambda>xs x. put_sorted cmp x xs) (mItems v) (mItems w)))),
     svi_merge_sorted = (\<lambda>cmp v w. (0, with_items v (foldl (\<lambda>xs x. put_sorted cmp x xs) (mItems v) (mItems w)))),
     svi_remove = (\<lambda>cmp v x. (list_index cmp (mItems v) x, with_items v (remove_sorted cmp x (mItems v))))\<rparr>"

lemma list_index_found: "found cmp x xs (list_index cmp xs x)"
proof (cases "find (\<lambda>i. cmp x (xs ! i) = 0) [0..<length xs]")
  case None
  then have "list_index cmp xs x = - 1" by (simp only: list_index_def option.case)
  then show ?thesis using None by (auto simp: found_def find_None_iff in_set_conv_nth)
next
  case (Some i)
  then have "list_index cmp xs x = int i" by (simp only: list_index_def option.case)
  then show ?thesis using Some by (auto simp: found_def find_Some_iff intro!: bexI [of _ "xs ! i"])
qed

lemma demo_vector_ok: "vector_ok (demo_vector d)" "sorted_vector_ok (demo_vector d) cmp"
proof -
  show "vector_ok (demo_vector d)" by (simp add: vector_ok_def demo_vector_def with_items_def insert_items_def)
  then show "sorted_vector_ok (demo_vector d) cmp"
    by (simp add: sorted_vector_ok_def) (simp add: demo_vector_def with_items_def list_index_found)
qed

subsection \<open>Properties\<close>

text \<open>A \<open>Vector\<close> is a sequence: over any \<open>VectorImpl\<close> that keeps its promises \<open>push_back\<close> appends,
  \<open>push_front\<close> prepends, \<open>erase\<close> takes one item out and returns the position of the item after it, the
  accessors read the items, and editing the top changes the last item only.\<close>

lemma vector_is_sequence:
  assumes "vector_ok impl"
  shows "mItems (Vector_new impl n tr) = [] \<and>
    mItems (v_push_back impl v x) = mItems v @ [x] \<and> mItems (v_push_front impl v x) = x # mItems v \<and>
    (\<forall>i < v_size v. \<exists>w. v_erase impl v i = (int i, w) \<and> mItems w = take i (mItems v) @ drop (Suc i) (mItems v) \<and>
       v_end w = v_end v - 1 \<and> v_itemAt w i = v_itemAt v (Suc i)) \<and>
    (v_size v \<noteq> 0 \<longrightarrow> v_top v = Some (last (mItems v)) \<and>
       (\<exists>w. v_editTop impl v f = Some w \<and> mItems w = butlast (mItems v) @ [f (last (mItems v))])) \<and>
    (v_empty v \<longleftrightarrow> mItems v = []) \<and> v_empty (v_clear impl v)"
proof -
  note ok = assms [unfolded vector_ok_def]
  have "\<exists>w. v_erase impl v i = (int i, w) \<and> mItems w = take i (mItems v) @ drop (Suc i) (mItems v) \<and>
       v_end w = v_end v - 1 \<and> v_itemAt w i = v_itemAt v (Suc i)" if "i < v_size v" for i
  proof -
    have i: "i < length (mItems v)" using that by (simp add: v_size_def impl_size_def)
    then have "i + 1 \<le> length (mItems v)" by simp
    then obtain w where w: "vi_removeItemsAt impl v i 1 = (int i, w)" "mItems w = take i (mItems v) @ drop (Suc i) (mItems v)"
      using ok by (metis Suc_eq_plus1 surjective_pairing)
    moreover have "mItems (vi_editArray impl w) = mItems w" using ok by blast
    ultimately show ?thesis using i
      by (simp add: v_erase_def v_removeItemsAt_def v_begin_def v_begin_edit_def v_editArray_def v_end_def v_size_def impl_size_def v_itemAt_def v_index_def nth_append)
        linarith
  qed
  moreover have "v_size v \<noteq> 0 \<Longrightarrow> v_top v = Some (last (mItems v)) \<and>
       (\<exists>w. v_editTop impl v f = Some w \<and> mItems w = butlast (mItems v) @ [f (last (mItems v))])"
    using ok by (cases "mItems v" rule: rev_cases)
      (auto simp: v_top_def v_editTop_def v_editItemAt_def v_size_def impl_size_def Let_def)
  ultimately show ?thesis using ok
    by (simp add: Vector_new_def v_push_back_def v_push_front_def v_insertAt_def v_size_def impl_size_def
        v_empty_def v_isEmpty_def impl_isEmpty_def v_clear_def)
qed

theorem vector_is_sequence_witness:
  "mItems (v_push_back (demo_vector 0) \<lparr>mStorage = 0, mItems = [1, 2 :: int], mFlags = 0, mItemSize = 4\<rparr> 3) = [1, 2, 3]"
  using vector_is_sequence [OF demo_vector_ok(1), of 0 4 no_traits "\<lparr>mStorage = 0, mItems = [1, 2 :: int], mFlags = 0, mItemSize = 4\<rparr>" 3]
  by simp

end
