(* ===== verification/Keyed_Vector.thy ===== *)
theory Keyed_Vector
  imports Vector_Templates
begin

text \<open>
  \<open>utils/KeyedVector.h\<close>: a map as a \<open>SortedVector\<close> of pairs, ordered by their keys, and the variant with
  a default value. A pair made from a key alone has an unset value: it is the argument \<open>junk\<close>.
  \<open>LOG_ALWAYS_FATAL_IF\<close> ends the program: None. Over any \<open>SortedVectorImpl\<close> that keeps the promises of
  its header the vector refines a finite map.
\<close>

type_synonym ('k, 'v) pairs = "('k, 'v) key_value_pair vector"
type_synonym ('k, 'v) pairs_impl = "('k, 'v) key_value_pair vector_impl"

definition kv_pair :: "'k \<Rightarrow> 'v \<Rightarrow> ('k, 'v) key_value_pair" where
  "kv_pair k v = \<lparr>kv_key = k, kv_value = v\<rparr>"

definition KeyedVector_new :: "('k, 'v) pairs_impl \<Rightarrow> nat \<Rightarrow> trait_set \<Rightarrow> ('k, 'v) pairs" where
  "KeyedVector_new impl sizeof_pair tr = SortedVector_new impl sizeof_pair tr"

definition kv_clear :: "('k, 'v) pairs_impl \<Rightarrow> ('k, 'v) pairs \<Rightarrow> ('k, 'v) pairs" where "kv_clear impl m = sv_clear impl m"
definition kv_size :: "('k, 'v) pairs \<Rightarrow> nat" where "kv_size m = sv_size m"
definition kv_isEmpty :: "('k, 'v) pairs \<Rightarrow> bool" where "kv_isEmpty m = sv_isEmpty m"
definition kv_capacity :: "('k, 'v) pairs_impl \<Rightarrow> ('k, 'v) pairs \<Rightarrow> nat" where "kv_capacity impl m = sv_capacity impl m"
definition kv_setCapacity :: "('k, 'v) pairs_impl \<Rightarrow> ('k, 'v) pairs \<Rightarrow> nat \<Rightarrow> int \<times> ('k, 'v) pairs" where
  "kv_setCapacity impl m n = sv_setCapacity impl m n"

definition isIdenticalTo :: "('k, 'v) pairs \<Rightarrow> ('k, 'v) pairs \<Rightarrow> bool" where
  "isIdenticalTo m rhs = (sv_array m = sv_array rhs)"

definition indexOfKey :: "('k::linorder, 'v) pairs_impl \<Rightarrow> 'v \<Rightarrow> ('k, 'v) pairs \<Rightarrow> 'k \<Rightarrow> int" where
  "indexOfKey impl junk m k = sv_indexOf impl (kv_less (<)) m (kv_pair k junk)"

definition valueFor :: "('k::linorder, 'v) pairs_impl \<Rightarrow> 'v \<Rightarrow> ('k, 'v) pairs \<Rightarrow> 'k \<Rightarrow> 'v option" where
  "valueFor impl junk m k = (let i = indexOfKey impl junk m k in
     if i < 0 then None else map_option kv_value (sv_itemAt m (nat i)))"

definition valueAt :: "('k, 'v) pairs \<Rightarrow> nat \<Rightarrow> 'v option" where
  "valueAt m index = map_option kv_value (sv_itemAt m index)"

definition kv_index :: "('k, 'v) pairs \<Rightarrow> nat \<Rightarrow> 'v option" where
  "kv_index m index = valueAt m index"

definition keyAt :: "('k, 'v) pairs \<Rightarrow> nat \<Rightarrow> 'k option" where
  "keyAt m index = map_option kv_key (sv_itemAt m index)"

text \<open>Writes through the references of the two edit functions.\<close>

definition editValueFor :: "('k::linorder, 'v) pairs_impl \<Rightarrow> 'v \<Rightarrow> ('k, 'v) pairs \<Rightarrow> 'k \<Rightarrow> ('v \<Rightarrow> 'v) \<Rightarrow> ('k, 'v) pairs option" where
  "editValueFor impl junk m k f = (let i = indexOfKey impl junk m k in
     if i < 0 then None else sv_editItemAt impl m (nat i) (kv_value_update f))"

definition editValueAt :: "('k, 'v) pairs_impl \<Rightarrow> ('k, 'v) pairs \<Rightarrow> nat \<Rightarrow> ('v \<Rightarrow> 'v) \<Rightarrow> ('k, 'v) pairs option" where
  "editValueAt impl m index f = sv_editItemAt impl m index (kv_value_update f)"

definition kv_add :: "('k::linorder, 'v) pairs_impl \<Rightarrow> ('k, 'v) pairs \<Rightarrow> 'k \<Rightarrow> 'v \<Rightarrow> int \<times> ('k, 'v) pairs" where
  "kv_add impl m k v = sv_add impl (kv_less (<)) m (kv_pair k v)"

definition replaceValueFor :: "('k::linorder, 'v) pairs_impl \<Rightarrow> ('k, 'v) pairs \<Rightarrow> 'k \<Rightarrow> 'v \<Rightarrow> int \<times> ('k, 'v) pairs" where
  "replaceValueFor impl m k v = (let pair = kv_pair k v; m = snd (sv_remove impl (kv_less (<)) m pair)
     in sv_add impl (kv_less (<)) m pair)"

definition replaceValueAt :: "('k, 'v) pairs_impl \<Rightarrow> ('k, 'v) pairs \<Rightarrow> nat \<Rightarrow> 'v \<Rightarrow> (int \<times> ('k, 'v) pairs) option" where
  "replaceValueAt impl m index item =
     (if index < kv_size m then map_option (Pair (int index)) (sv_editItemAt impl m index (kv_value_update (\<lambda>_. item)))
      else Some (sint (status_code BAD_INDEX), m))"

definition removeItem :: "('k::linorder, 'v) pairs_impl \<Rightarrow> 'v \<Rightarrow> ('k, 'v) pairs \<Rightarrow> 'k \<Rightarrow> int \<times> ('k, 'v) pairs" where
  "removeItem impl junk m k = sv_remove impl (kv_less (<)) m (kv_pair k junk)"

definition kv_removeItemsAt :: "('k, 'v) pairs_impl \<Rightarrow> ('k, 'v) pairs \<Rightarrow> nat \<Rightarrow> nat \<Rightarrow> int \<times> ('k, 'v) pairs" where
  "kv_removeItemsAt impl m index count = sv_removeItemsAt impl m index count"

record ('k, 'v) default_pairs =
  dk_base :: "('k, 'v) pairs"
  mDefault :: 'v

definition DefaultKeyedVector_new :: "('k, 'v) pairs_impl \<Rightarrow> nat \<Rightarrow> trait_set \<Rightarrow> 'v \<Rightarrow> ('k, 'v) default_pairs" where
  "DefaultKeyedVector_new impl sizeof_pair tr defValue = \<lparr>dk_base = KeyedVector_new impl sizeof_pair tr, mDefault = defValue\<rparr>"

definition default_valueFor :: "('k::linorder, 'v) pairs_impl \<Rightarrow> 'v \<Rightarrow> ('k, 'v) default_pairs \<Rightarrow> 'k \<Rightarrow> 'v option" where
  "default_valueFor impl junk d k = (let i = indexOfKey impl junk (dk_base d) k in
     if i \<ge> 0 then valueAt (dk_base d) (nat i) else Some (mDefault d))"

subsection \<open>The map\<close>

abbreviation kv_compare :: "('k::linorder, 'v) key_value_pair \<Rightarrow> ('k, 'v) key_value_pair \<Rightarrow> int" where
  "kv_compare \<equiv> sv_do_compare (kv_less (<))"

definition kv_map :: "('k, 'v) key_value_pair list \<Rightarrow> 'k \<Rightarrow> 'v option" where
  "kv_map xs = map_of (map (\<lambda>p. (kv_key p, kv_value p)) xs)"

definition kv_holds :: "('k::linorder, 'v) pairs \<Rightarrow> ('k \<Rightarrow> 'v option) \<Rightarrow> bool" where
  "kv_holds m M \<longleftrightarrow> sorted_wrt (<) (map kv_key (mItems m)) \<and> kv_map (mItems m) = M"

lemma kv_pair_simps [simp]: "kv_key (kv_pair k v) = k" "kv_value (kv_pair k v) = v"
  by (simp_all add: kv_pair_def)

lemma kv_compare_iff: "kv_compare a b < 0 \<longleftrightarrow> kv_key a < kv_key b" "kv_compare a b = 0 \<longleftrightarrow> kv_key a = kv_key b"
  by (auto simp: sv_do_compare_def compare_type_def strictly_order_type_def kv_less_def)

lemma ascending_keys: "ascending kv_compare xs \<longleftrightarrow> sorted_wrt (<) (map kv_key xs)"
  by (simp add: ascending_def kv_compare_iff sorted_wrt_map)

lemma kv_map_simps [simp]: "kv_map [] = Map.empty" "kv_map (p # xs) = (kv_map xs)(kv_key p \<mapsto> kv_value p)"
  by (simp_all add: kv_map_def)

lemma kv_map_None: "kv_map xs k = None \<longleftrightarrow> k \<notin> kv_key ` set xs"
  by (induction xs) auto

lemma kv_map_nth:
  fixes xs :: "('k::linorder, 'v) key_value_pair list"
  assumes "sorted_wrt (<) (map kv_key xs)" "i < length xs"
  shows "kv_map xs (kv_key (xs ! i)) = Some (kv_value (xs ! i))"
proof -
  have "distinct (map kv_key xs)" using assms(1) unfolding strict_sorted_iff by simp
  then have "distinct (map fst (map (\<lambda>p. (kv_key p, kv_value p)) xs))" by (simp add: comp_def)
  then show ?thesis unfolding kv_map_def by (rule map_of_is_SomeI) (use assms(2) in simp)
qed

lemma put_sorted_keys: "set (map kv_key (put_sorted kv_compare x xs)) = insert (kv_key x) (set (map kv_key xs))"
  by (induction xs) (auto simp: kv_compare_iff)

lemma put_sorted_map:
  assumes "sorted_wrt (<) (map kv_key xs)"
  shows "sorted_wrt (<) (map kv_key (put_sorted kv_compare x xs))"
    "kv_map (put_sorted kv_compare x xs) = (kv_map xs)(kv_key x \<mapsto> kv_value x)"
proof -
  show "sorted_wrt (<) (map kv_key (put_sorted kv_compare x xs))"
    using assms
  proof (induction xs)
    case (Cons y ys)
    then show ?case using put_sorted_keys [of x ys] by (auto simp: kv_compare_iff not_less)
  qed simp
  show "kv_map (put_sorted kv_compare x xs) = (kv_map xs)(kv_key x \<mapsto> kv_value x)"
    using assms by (induction xs) (auto simp: kv_compare_iff)
qed

lemma remove_sorted_map:
  assumes "sorted_wrt (<) (map kv_key xs)"
  shows "sorted_wrt (<) (map kv_key (remove_sorted kv_compare x xs))"
    "kv_map (remove_sorted kv_compare x xs) = (kv_map xs)(kv_key x := None)"
  using assms by (induction xs) (auto simp: remove_sorted_def kv_compare_iff)

lemma update_map:
  fixes xs :: "('k::linorder, 'v) key_value_pair list"
  assumes "sorted_wrt (<) (map kv_key xs)" "i < length xs" "kv_key (xs ! i) = k"
  shows "map kv_key (xs[i := kv_value_update f (xs ! i)]) = map kv_key xs"
    "kv_map (xs[i := kv_value_update f (xs ! i)]) = (kv_map xs)(k \<mapsto> f (kv_value (xs ! i)))"
proof -
  show "map kv_key (xs[i := kv_value_update f (xs ! i)]) = map kv_key xs"
    by (simp add: map_update list_update_same_conv assms(2))
  show "kv_map (xs[i := kv_value_update f (xs ! i)]) = (kv_map xs)(k \<mapsto> f (kv_value (xs ! i)))"
    using assms
  proof (induction xs arbitrary: i)
    case (Cons y ys)
    show ?case
    proof (cases i)
      case (Suc j)
      then have "kv_key y < k" using Cons.prems nth_mem [of j ys] by auto
      then show ?thesis using Cons.IH [of j] Cons.prems Suc by (auto simp: fun_eq_iff)
    qed (use Cons.prems in auto)
  qed simp
qed

subsection \<open>Each operation on the map\<close>

lemma indexOfKey_cases [consumes 2, case_names absent present]:
  assumes "sorted_vector_ok impl kv_compare" "kv_holds m M"
  obtains "indexOfKey impl junk m k < 0" "M k = None"
  | i where "indexOfKey impl junk m k = int i" "i < length (mItems m)" "kv_key (mItems m ! i) = k"
      "M k = Some (kv_value (mItems m ! i))"
proof -
  let ?xs = "mItems m" and ?i = "indexOfKey impl junk m k"
  have xs: "sorted_wrt (<) (map kv_key ?xs)" "M = kv_map ?xs" using assms(2) by (auto simp: kv_holds_def)
  have "found kv_compare (kv_pair k junk) ?xs ?i"
    using assms(1) xs(1) by (simp add: sorted_vector_ok_def indexOfKey_def sv_indexOf_def ascending_keys)
  then have f: "if k \<in> kv_key ` set ?xs then 0 \<le> ?i \<and> nat ?i < length ?xs \<and> kv_key (?xs ! nat ?i) = k else ?i < 0"
    by (auto simp: found_def kv_compare_iff image_iff split: if_splits)
  show ?thesis
  proof (cases "k \<in> kv_key ` set ?xs")
    case True
    then show ?thesis using f that(2) [of "nat ?i"] kv_map_nth [OF xs(1), of "nat ?i"] xs(2) by simp
  next
    case False
    then show ?thesis using f that(1) xs(2) by (simp add: kv_map_None)
  qed
qed

lemma indexOfKey_iff:
  assumes "sorted_vector_ok impl kv_compare" "kv_holds m M"
  shows "indexOfKey impl junk m k \<ge> 0 \<longleftrightarrow> k \<in> dom M"
  using assms by (cases rule: indexOfKey_cases [where k = k and junk = junk]) auto

lemma valueFor_map:
  assumes "sorted_vector_ok impl kv_compare" "kv_holds m M"
  shows "valueFor impl junk m k = M k"
    "default_valueFor impl junk \<lparr>dk_base = m, mDefault = d\<rparr> k = Some (case M k of Some v \<Rightarrow> v | None \<Rightarrow> d)"
proof -
  have "valueFor impl junk m k = M k \<and>
    default_valueFor impl junk \<lparr>dk_base = m, mDefault = d\<rparr> k = Some (case M k of Some v \<Rightarrow> v | None \<Rightarrow> d)"
    using assms
  proof (cases rule: indexOfKey_cases [where k = k and junk = junk])
    case absent
    then show ?thesis by (simp add: valueFor_def default_valueFor_def)
  next
    case (present i)
    then show ?thesis by (simp add: valueFor_def default_valueFor_def valueAt_def sv_itemAt_def sv_index_def)
  qed
  then show "valueFor impl junk m k = M k"
    "default_valueFor impl junk \<lparr>dk_base = m, mDefault = d\<rparr> k = Some (case M k of Some v \<Rightarrow> v | None \<Rightarrow> d)" by blast+
qed

lemma sorted_promises:
  assumes "sorted_vector_ok impl kv_compare" "kv_holds m M"
  shows "0 \<le> fst (svi_add impl kv_compare m x)"
    "mItems (snd (svi_add impl kv_compare m x)) = put_sorted kv_compare x (mItems m)"
    "found kv_compare x (mItems m) (fst (svi_remove impl kv_compare m x))"
    "mItems (snd (svi_remove impl kv_compare m x)) = remove_sorted kv_compare x (mItems m)"
proof -
  have "ascending kv_compare (mItems m)" using assms(2) by (simp add: kv_holds_def ascending_keys)
  then show "0 \<le> fst (svi_add impl kv_compare m x)"
    "mItems (snd (svi_add impl kv_compare m x)) = put_sorted kv_compare x (mItems m)"
    "found kv_compare x (mItems m) (fst (svi_remove impl kv_compare m x))"
    "mItems (snd (svi_remove impl kv_compare m x)) = remove_sorted kv_compare x (mItems m)"
    using assms(1) unfolding sorted_vector_ok_def by blast+
qed

lemma kv_holds_dom: "kv_holds m M \<Longrightarrow> dom M = set (map kv_key (mItems m))"
  using kv_map_None [of "mItems m"] by (auto simp: kv_holds_def set_eq_iff domIff)

lemma kv_add_map:
  assumes "sorted_vector_ok impl kv_compare" "kv_holds m M"
  shows "0 \<le> fst (kv_add impl m k v)" "kv_holds (snd (kv_add impl m k v)) (M(k \<mapsto> v))"
proof -
  show "0 \<le> fst (kv_add impl m k v)" using sorted_promises(1) [OF assms] by (simp add: kv_add_def sv_add_def)
  show "kv_holds (snd (kv_add impl m k v)) (M(k \<mapsto> v))"
    using assms(2) put_sorted_map [of "mItems m" "kv_pair k v"] sorted_promises(2) [OF assms, of "kv_pair k v"]
    unfolding kv_holds_def kv_add_def sv_add_def by simp
qed

lemma sv_remove_map:
  assumes "sorted_vector_ok impl kv_compare" "kv_holds m M"
  shows "0 \<le> fst (sv_remove impl (kv_less (<)) m (kv_pair k v)) \<longleftrightarrow> k \<in> dom M"
    "kv_holds (snd (sv_remove impl (kv_less (<)) m (kv_pair k v))) (M(k := None))"
proof -
  have "k \<in> dom M \<longleftrightarrow> (\<exists>y \<in> set (mItems m). kv_compare (kv_pair k v) y = 0)"
    using kv_holds_dom [OF assms(2)] by (auto simp: kv_compare_iff)
  then show "0 \<le> fst (sv_remove impl (kv_less (<)) m (kv_pair k v)) \<longleftrightarrow> k \<in> dom M"
    using sorted_promises(3) [OF assms, of "kv_pair k v"] by (simp add: sv_remove_def found_def split: if_splits)
  show "kv_holds (snd (sv_remove impl (kv_less (<)) m (kv_pair k v))) (M(k := None))"
    using assms(2) remove_sorted_map [of "mItems m" "kv_pair k v"] sorted_promises(4) [OF assms, of "kv_pair k v"]
    unfolding kv_holds_def sv_remove_def by simp
qed

lemma replaceValueFor_map:
  assumes "sorted_vector_ok impl kv_compare" "kv_holds m M"
  shows "0 \<le> fst (replaceValueFor impl m k v)" "kv_holds (snd (replaceValueFor impl m k v)) (M(k \<mapsto> v))"
  using kv_add_map [OF assms(1) sv_remove_map(2) [OF assms], of k v k v]
  by (simp_all add: replaceValueFor_def kv_add_def Let_def)

lemma kv_edit_map:
  assumes "sorted_vector_ok impl kv_compare" "kv_holds m M" "i < length (mItems m)" "kv_key (mItems m ! i) = k"
  shows "\<exists>w. sv_editItemAt impl m i (kv_value_update f) = Some w \<and> kv_holds w (M(k \<mapsto> f (kv_value (mItems m ! i))))"
proof -
  have "sorted_wrt (<) (map kv_key (mItems m))" "M = kv_map (mItems m)" using assms(2) by (auto simp: kv_holds_def)
  note u = update_map [OF this(1) assms(3,4), of f] this
  have "mItems (vi_editItemLocation impl m i) = mItems m" using assms(1,3) by (simp add: sorted_vector_ok_def vector_ok_def)
  then show ?thesis using u assms(3) by (simp add: sv_editItemAt_def kv_holds_def Let_def)
qed

lemma kv_size_card: "kv_holds m M \<Longrightarrow> kv_size m = card (dom M)"
  using kv_holds_dom [of m M] distinct_card [of "map kv_key (mItems m)"]
  by (simp add: kv_holds_def strict_sorted_iff kv_size_def sv_size_def impl_size_def)

subsection \<open>What a client can build\<close>

text \<open>One call of a member that changes the vector; the range removed has to exist.\<close>

inductive kv_step :: "('k::linorder, 'v) pairs_impl \<Rightarrow> 'v \<Rightarrow> ('k, 'v) pairs \<Rightarrow> ('k, 'v) pairs \<Rightarrow> bool" for impl junk where
  step_add: "kv_step impl junk m (snd (kv_add impl m k v))"
| step_replace: "kv_step impl junk m (snd (replaceValueFor impl m k v))"
| step_replaceAt: "replaceValueAt impl m i v = Some (r, w) \<Longrightarrow> kv_step impl junk m w"
| step_edit: "editValueFor impl junk m k f = Some w \<Longrightarrow> kv_step impl junk m w"
| step_editAt: "editValueAt impl m i f = Some w \<Longrightarrow> kv_step impl junk m w"
| step_remove: "kv_step impl junk m (snd (removeItem impl junk m k))"
| step_removeAt: "i + n \<le> kv_size m \<Longrightarrow> kv_step impl junk m (snd (kv_removeItemsAt impl m i n))"
| step_clear: "kv_step impl junk m (kv_clear impl m)"

definition kv_ordered :: "('k::linorder, 'v) pairs \<Rightarrow> bool" where
  "kv_ordered m \<longleftrightarrow> sorted_wrt (<) (map kv_key (mItems m))"

lemma kv_ordered_holds: "kv_ordered m \<longleftrightarrow> kv_holds m (kv_map (mItems m))"
  by (simp add: kv_ordered_def kv_holds_def)

lemma kv_holds_ordered: "kv_holds m M \<Longrightarrow> kv_ordered m"
  by (simp add: kv_ordered_def kv_holds_def)

lemma edit_ordered:
  assumes "sorted_vector_ok impl kv_compare" "kv_ordered m" "sv_editItemAt impl m i (kv_value_update f) = Some w"
  shows "kv_ordered w"
proof -
  have "i < length (mItems m)" using assms(3) by (simp add: sv_editItemAt_def split: if_splits)
  then show ?thesis
    using kv_edit_map [OF assms(1) assms(2) [unfolded kv_ordered_holds] _ refl, of i f] assms(3) kv_holds_ordered by fastforce
qed

lemma remove_range_ordered:
  assumes "sorted_wrt R xs"
  shows "sorted_wrt R (take i xs @ drop (i + n) xs)"
proof -
  have "sorted_wrt R (take i xs @ drop i xs)" using assms by simp
  then have "\<forall>x \<in> set (take i xs). \<forall>y \<in> set (drop i xs). R x y" unfolding sorted_wrt_append by blast
  moreover have "set (drop (i + n) xs) \<subseteq> set (drop i xs)" by (simp add: set_drop_subset_set_drop)
  ultimately show ?thesis using assms by (auto simp: sorted_wrt_append sorted_wrt_take sorted_wrt_drop)
qed

lemma kv_step_ordered:
  assumes "sorted_vector_ok impl kv_compare" "kv_step impl junk m w" "kv_ordered m"
  shows "kv_ordered w"
  using assms(2,3)
proof (cases rule: kv_step.cases)
  case (step_replaceAt i v r)
  then show ?thesis using edit_ordered [OF assms(1,3)] assms(3) by (auto simp: replaceValueAt_def split: if_splits)
next
  case (step_removeAt i n)
  then show ?thesis using assms(1,3) remove_range_ordered [of "(<)" "map kv_key (mItems m)" i n]
    by (simp add: kv_ordered_def kv_removeItemsAt_def sv_removeItemsAt_def sorted_vector_ok_def vector_ok_def
        kv_size_def sv_size_def impl_size_def take_map drop_map)
next
  case step_clear
  then show ?thesis using assms(1)
    by (simp add: kv_ordered_def kv_clear_def sv_clear_def sorted_vector_ok_def vector_ok_def)
qed (use assms(1,3) edit_ordered [OF assms(1,3)] in \<open>auto simp: editValueFor_def editValueAt_def Let_def kv_ordered_holds removeItem_def
    intro: kv_add_map replaceValueFor_map sv_remove_map kv_holds_ordered [unfolded kv_ordered_holds] split: if_splits\<close>)

subsection \<open>Properties\<close>

text \<open>C19: The class invariant of \<open>KeyedVector\<close>: whatever sequence of its members a client calls on a new
  vector, whether a call succeeds or returns an error, the keys stay strictly ascending, so that every key
  is stored once and \<open>indexOfKey\<close> of the key at a position is that position.\<close>

theorem keyed_vector_well_formed:
  assumes "sorted_vector_ok impl kv_compare" "(kv_step impl junk)\<^sup>*\<^sup>* (KeyedVector_new impl n tr) m"
  shows "kv_ordered m \<and> distinct (map kv_key (mItems m)) \<and>
    (\<forall>i < kv_size m. \<exists>k. keyAt m i = Some k \<and> indexOfKey impl junk m k = int i \<and> valueFor impl junk m k = valueAt m i)"
proof -
  from assms(2) have o: "kv_ordered m"
  proof (induction rule: rtranclp_induct)
    case base
    show ?case using assms(1)
      by (simp add: kv_ordered_def KeyedVector_new_def SortedVector_new_def sorted_vector_ok_def vector_ok_def)
  qed (use kv_step_ordered [OF assms(1)] in blast)
  then have d: "distinct (map kv_key (mItems m))" by (simp add: kv_ordered_def strict_sorted_iff)
  note h = o [unfolded kv_ordered_holds]
  have "\<exists>k. keyAt m i = Some k \<and> indexOfKey impl junk m k = int i \<and> valueFor impl junk m k = valueAt m i"
    if "i < kv_size m" for i
  proof -
    have i: "i < length (mItems m)" using that by (simp add: kv_size_def sv_size_def impl_size_def)
    let ?k = "kv_key (mItems m ! i)"
    have "kv_map (mItems m) ?k = Some (kv_value (mItems m ! i))" using kv_map_nth o i by (simp add: kv_ordered_def)
    moreover from assms(1) h have "indexOfKey impl junk m ?k = int i"
    proof (cases rule: indexOfKey_cases [where k = ?k and junk = junk])
      case absent
      then show ?thesis using calculation by simp
    next
      case (present j)
      have "j = i" using nth_eq_iff_index_eq [OF d, of j i] i present(2,3) by simp
      then show ?thesis using present(1) by simp
    qed
    ultimately show ?thesis using i valueFor_map(1) [OF assms(1) h, of junk ?k]
      by (simp add: keyAt_def valueAt_def sv_itemAt_def sv_index_def)
  qed
  then show ?thesis using o d by blast
qed

theorem keyed_vector_well_formed_witness:
  "kv_ordered (snd (kv_add (demo_vector (kv_pair 0 0)) (snd (kv_add (demo_vector (kv_pair 0 0)) (KeyedVector_new (demo_vector (kv_pair 0 (0 :: nat))) 8 no_traits) (7 :: nat) 1)) 2 5))"
proof -
  let ?impl = "demo_vector (kv_pair (0 :: nat) (0 :: nat))"
  let ?m = "KeyedVector_new ?impl 8 no_traits"
  have "kv_step ?impl 0 ?m (snd (kv_add ?impl ?m 7 1))"
    "kv_step ?impl 0 (snd (kv_add ?impl ?m 7 1)) (snd (kv_add ?impl (snd (kv_add ?impl ?m 7 1)) 2 5))"
    by (rule step_add)+
  then have "(kv_step ?impl 0)\<^sup>*\<^sup>* ?m (snd (kv_add ?impl (snd (kv_add ?impl ?m 7 1)) 2 5))"
    by (rule converse_rtranclp_into_rtranclp [OF _ r_into_rtranclp])
  then show ?thesis by (rule keyed_vector_well_formed [OF demo_vector_ok(2), THEN conjunct1])
qed

text \<open>C18: A \<open>KeyedVector\<close> refines a finite map over any \<open>SortedVectorImpl\<close> that keeps its promises:
  \<open>indexOfKey\<close> tells membership, \<open>valueFor\<close> is lookup (the program ends on an absent key, \<open>DefaultKeyedVector\<close> answers
  its default instead), \<open>add\<close> and \<open>replaceValueFor\<close> update, whether the key is there or not,
  \<open>removeItem\<close> deletes and its result tells whether there was anything to delete, \<open>editValueFor\<close> writes
  through, the size counts the keys, and \<open>keyAt\<close> lists them in strictly ascending order.\<close>

theorem keyed_vector_refines_map:
  assumes "sorted_vector_ok impl kv_compare" "kv_holds m M"
  shows "(indexOfKey impl junk m k \<ge> 0 \<longleftrightarrow> k \<in> dom M) \<and> valueFor impl junk m k = M k \<and>
    default_valueFor impl junk \<lparr>dk_base = m, mDefault = d\<rparr> k = Some (case M k of Some v \<Rightarrow> v | None \<Rightarrow> d) \<and>
    kv_holds (snd (kv_add impl m k v)) (M(k \<mapsto> v)) \<and> kv_holds (snd (replaceValueFor impl m k v)) (M(k \<mapsto> v)) \<and>
    (0 \<le> fst (removeItem impl junk m k) \<longleftrightarrow> k \<in> dom M) \<and> kv_holds (snd (removeItem impl junk m k)) (M(k := None)) \<and>
    (case M k of None \<Rightarrow> editValueFor impl junk m k f = None
      | Some x \<Rightarrow> \<exists>w. editValueFor impl junk m k f = Some w \<and> kv_holds w (M(k \<mapsto> f x))) \<and>
    kv_size m = card (dom M) \<and>
    (\<forall>j < kv_size m. \<forall>i < j. \<exists>a b. keyAt m i = Some a \<and> keyAt m j = Some b \<and> a < b)"
proof -
  have edit: "case M k of None \<Rightarrow> editValueFor impl junk m k f = None
      | Some x \<Rightarrow> \<exists>w. editValueFor impl junk m k f = Some w \<and> kv_holds w (M(k \<mapsto> f x))"
    using assms
  proof (cases rule: indexOfKey_cases [where k = k and junk = junk])
    case (present i)
    then show ?thesis using kv_edit_map [OF assms present(2,3), of f] by (simp add: editValueFor_def)
  qed (simp add: editValueFor_def)
  have keys: "\<exists>a b. keyAt m i = Some a \<and> keyAt m j = Some b \<and> a < b" if "j < kv_size m" "i < j" for i j
    using assms(2) that sorted_wrt_nth_less [of "(<)" "map kv_key (mItems m)" i j]
    by (simp add: kv_holds_def keyAt_def sv_itemAt_def sv_index_def kv_size_def sv_size_def impl_size_def)
  show ?thesis unfolding removeItem_def
    by (intro conjI allI impI indexOfKey_iff [OF assms] valueFor_map [OF assms] kv_add_map(2) [OF assms]
        replaceValueFor_map(2) [OF assms] sv_remove_map [OF assms] kv_size_card [OF assms(2)] edit keys)
qed

abbreviation demo_pairs :: "(nat, nat) pairs" where
  "demo_pairs \<equiv> \<lparr>mStorage = 0, mItems = [\<lparr>kv_key = 3, kv_value = 30\<rparr>, \<lparr>kv_key = 5, kv_value = 50\<rparr>], mFlags = 0, mItemSize = 8\<rparr>"

theorem keyed_vector_refines_map_witness:
  "valueFor (demo_vector (kv_pair 0 0)) 0 demo_pairs 5 = Some 50 \<and> valueFor (demo_vector (kv_pair 0 0)) 0 demo_pairs 4 = None \<and>
   kv_holds (snd (kv_add (demo_vector (kv_pair 0 0)) demo_pairs 4 40)) [3 \<mapsto> 30, 4 \<mapsto> 40, 5 \<mapsto> 50]"
proof -
  have h: "kv_holds demo_pairs [3 \<mapsto> 30, 5 \<mapsto> 50]" by (simp add: kv_holds_def fun_upd_twist)
  have "[3 \<mapsto> 30, 5 \<mapsto> 50, 4 \<mapsto> 40] = [3 :: nat \<mapsto> 30, 4 \<mapsto> 40, 5 \<mapsto> 50 :: nat]" by (simp add: fun_upd_twist)
  then show ?thesis
    using keyed_vector_refines_map [OF demo_vector_ok(2) h, of "kv_pair 0 0" 0 4 0 40 id]
      keyed_vector_refines_map [OF demo_vector_ok(2) h, of "kv_pair 0 0" 0 5 0 40 id] by simp
qed

end
