(* ===== verification/Audio_Codes.thy ===== *)
theory Audio_Codes
  imports Bit_Sets "HOL-Library.Word"
begin

unbundle bit_operations_syntax

text \<open>
  The codes of the audio system: \<open>system/audio.h\<close> with its enumerations (one datatype each, a function
  to the number; the combinations a header writes with \<open>|\<close> have a datatype of their own), the predicates on
  devices, channels and formats, and the frame size of a stream of \<open>hardware/audio.h\<close>. The lemmas say
  which words each predicate accepts.
\<close>

subsection \<open>Enumerations\<close>

text \<open>Streams, sources and sessions.\<close>

datatype audio_stream_type = AUDIO_STREAM_DEFAULT | AUDIO_STREAM_VOICE_CALL | AUDIO_STREAM_SYSTEM
  | AUDIO_STREAM_RING | AUDIO_STREAM_MUSIC | AUDIO_STREAM_ALARM | AUDIO_STREAM_NOTIFICATION
  | AUDIO_STREAM_BLUETOOTH_SCO | AUDIO_STREAM_ENFORCED_AUDIBLE | AUDIO_STREAM_DTMF | AUDIO_STREAM_TTS
  | AUDIO_STREAM_FM | AUDIO_STREAM_CNT | AUDIO_STREAM_MAX

fun stream_code :: "audio_stream_type \<Rightarrow> int" where
  "stream_code AUDIO_STREAM_DEFAULT = - 1"
| "stream_code AUDIO_STREAM_VOICE_CALL = 0"
| "stream_code AUDIO_STREAM_SYSTEM = 1"
| "stream_code AUDIO_STREAM_RING = 2"
| "stream_code AUDIO_STREAM_MUSIC = 3"
| "stream_code AUDIO_STREAM_ALARM = 4"
| "stream_code AUDIO_STREAM_NOTIFICATION = 5"
| "stream_code AUDIO_STREAM_BLUETOOTH_SCO = 6"
| "stream_code AUDIO_STREAM_ENFORCED_AUDIBLE = 7"
| "stream_code AUDIO_STREAM_DTMF = 8"
| "stream_code AUDIO_STREAM_TTS = 9"
| "stream_code AUDIO_STREAM_FM = 10"
| "stream_code AUDIO_STREAM_CNT = 11"
| "stream_code AUDIO_STREAM_MAX = 10"

datatype audio_source = AUDIO_SOURCE_DEFAULT | AUDIO_SOURCE_MIC | AUDIO_SOURCE_VOICE_UPLINK
  | AUDIO_SOURCE_VOICE_DOWNLINK | AUDIO_SOURCE_VOICE_CALL | AUDIO_SOURCE_CAMCORDER
  | AUDIO_SOURCE_VOICE_RECOGNITION | AUDIO_SOURCE_VOICE_COMMUNICATION | AUDIO_SOURCE_REMOTE_SUBMIX
  | AUDIO_SOURCE_AF | AUDIO_SOURCE_FM | AUDIO_SOURCE_CNT | AUDIO_SOURCE_MAX | AUDIO_SOURCE_HOTWORD

fun source_code :: "audio_source \<Rightarrow> int" where
  "source_code AUDIO_SOURCE_DEFAULT = 0"
| "source_code AUDIO_SOURCE_MIC = 1"
| "source_code AUDIO_SOURCE_VOICE_UPLINK = 2"
| "source_code AUDIO_SOURCE_VOICE_DOWNLINK = 3"
| "source_code AUDIO_SOURCE_VOICE_CALL = 4"
| "source_code AUDIO_SOURCE_CAMCORDER = 5"
| "source_code AUDIO_SOURCE_VOICE_RECOGNITION = 6"
| "source_code AUDIO_SOURCE_VOICE_COMMUNICATION = 7"
| "source_code AUDIO_SOURCE_REMOTE_SUBMIX = 8"
| "source_code AUDIO_SOURCE_AF = 9"
| "source_code AUDIO_SOURCE_FM = 10"
| "source_code AUDIO_SOURCE_CNT = 11"
| "source_code AUDIO_SOURCE_MAX = 10"
| "source_code AUDIO_SOURCE_HOTWORD = 1999"

datatype audio_session = AUDIO_SESSION_OUTPUT_STAGE | AUDIO_SESSION_OUTPUT_MIX

fun session_code :: "audio_session \<Rightarrow> int" where
  "session_code AUDIO_SESSION_OUTPUT_STAGE = - 1"
| "session_code AUDIO_SESSION_OUTPUT_MIX = 0"

text \<open>Formats: the main format in the highest byte, the sub format in the others.\<close>

datatype pcm_sub_fmt = AUDIO_FORMAT_PCM_SUB_16_BIT | AUDIO_FORMAT_PCM_SUB_8_BIT | AUDIO_FORMAT_PCM_SUB_32_BIT
  | AUDIO_FORMAT_PCM_SUB_8_24_BIT

fun pcm_sub :: "pcm_sub_fmt \<Rightarrow> 32 word" where
  "pcm_sub AUDIO_FORMAT_PCM_SUB_16_BIT = 0x1"
| "pcm_sub AUDIO_FORMAT_PCM_SUB_8_BIT = 0x2"
| "pcm_sub AUDIO_FORMAT_PCM_SUB_32_BIT = 0x3"
| "pcm_sub AUDIO_FORMAT_PCM_SUB_8_24_BIT = 0x4"

datatype audio_format = AUDIO_FORMAT_INVALID | AUDIO_FORMAT_DEFAULT | AUDIO_FORMAT_PCM | AUDIO_FORMAT_MP3
  | AUDIO_FORMAT_AMR_NB | AUDIO_FORMAT_AMR_WB | AUDIO_FORMAT_AAC | AUDIO_FORMAT_HE_AAC_V1
  | AUDIO_FORMAT_HE_AAC_V2 | AUDIO_FORMAT_VORBIS | AUDIO_FORMAT_MAIN_MASK | AUDIO_FORMAT_SUB_MASK

fun format_code :: "audio_format \<Rightarrow> 32 word" where
  "format_code AUDIO_FORMAT_INVALID = 0xffffffff"
| "format_code AUDIO_FORMAT_DEFAULT = 0"
| "format_code AUDIO_FORMAT_PCM = 0"
| "format_code AUDIO_FORMAT_MP3 = 0x1000000"
| "format_code AUDIO_FORMAT_AMR_NB = 0x2000000"
| "format_code AUDIO_FORMAT_AMR_WB = 0x3000000"
| "format_code AUDIO_FORMAT_AAC = 0x4000000"
| "format_code AUDIO_FORMAT_HE_AAC_V1 = 0x5000000"
| "format_code AUDIO_FORMAT_HE_AAC_V2 = 0x6000000"
| "format_code AUDIO_FORMAT_VORBIS = 0x7000000"
| "format_code AUDIO_FORMAT_MAIN_MASK = 0xff000000"
| "format_code AUDIO_FORMAT_SUB_MASK = 0xffffff"

datatype audio_pcm_format = AUDIO_FORMAT_PCM_16_BIT | AUDIO_FORMAT_PCM_8_BIT | AUDIO_FORMAT_PCM_32_BIT
  | AUDIO_FORMAT_PCM_8_24_BIT

fun pcm_format :: "audio_pcm_format \<Rightarrow> 32 word" where
  "pcm_format AUDIO_FORMAT_PCM_16_BIT = format_code AUDIO_FORMAT_PCM OR pcm_sub AUDIO_FORMAT_PCM_SUB_16_BIT"
| "pcm_format AUDIO_FORMAT_PCM_8_BIT = format_code AUDIO_FORMAT_PCM OR pcm_sub AUDIO_FORMAT_PCM_SUB_8_BIT"
| "pcm_format AUDIO_FORMAT_PCM_32_BIT = format_code AUDIO_FORMAT_PCM OR pcm_sub AUDIO_FORMAT_PCM_SUB_32_BIT"
| "pcm_format AUDIO_FORMAT_PCM_8_24_BIT = format_code AUDIO_FORMAT_PCM OR pcm_sub AUDIO_FORMAT_PCM_SUB_8_24_BIT"

text \<open>Channel masks.\<close>

datatype audio_channel_out = AUDIO_CHANNEL_OUT_FRONT_LEFT | AUDIO_CHANNEL_OUT_FRONT_RIGHT
  | AUDIO_CHANNEL_OUT_FRONT_CENTER | AUDIO_CHANNEL_OUT_LOW_FREQUENCY | AUDIO_CHANNEL_OUT_BACK_LEFT
  | AUDIO_CHANNEL_OUT_BACK_RIGHT | AUDIO_CHANNEL_OUT_FRONT_LEFT_OF_CENTER
  | AUDIO_CHANNEL_OUT_FRONT_RIGHT_OF_CENTER | AUDIO_CHANNEL_OUT_BACK_CENTER | AUDIO_CHANNEL_OUT_SIDE_LEFT
  | AUDIO_CHANNEL_OUT_SIDE_RIGHT | AUDIO_CHANNEL_OUT_TOP_CENTER | AUDIO_CHANNEL_OUT_TOP_FRONT_LEFT
  | AUDIO_CHANNEL_OUT_TOP_FRONT_CENTER | AUDIO_CHANNEL_OUT_TOP_FRONT_RIGHT | AUDIO_CHANNEL_OUT_TOP_BACK_LEFT
  | AUDIO_CHANNEL_OUT_TOP_BACK_CENTER | AUDIO_CHANNEL_OUT_TOP_BACK_RIGHT

fun channel_out :: "audio_channel_out \<Rightarrow> 32 word" where
  "channel_out AUDIO_CHANNEL_OUT_FRONT_LEFT = 0x1"
| "channel_out AUDIO_CHANNEL_OUT_FRONT_RIGHT = 0x2"
| "channel_out AUDIO_CHANNEL_OUT_FRONT_CENTER = 0x4"
| "channel_out AUDIO_CHANNEL_OUT_LOW_FREQUENCY = 0x8"
| "channel_out AUDIO_CHANNEL_OUT_BACK_LEFT = 0x10"
| "channel_out AUDIO_CHANNEL_OUT_BACK_RIGHT = 0x20"
| "channel_out AUDIO_CHANNEL_OUT_FRONT_LEFT_OF_CENTER = 0x40"
| "channel_out AUDIO_CHANNEL_OUT_FRONT_RIGHT_OF_CENTER = 0x80"
| "channel_out AUDIO_CHANNEL_OUT_BACK_CENTER = 0x100"
| "channel_out AUDIO_CHANNEL_OUT_SIDE_LEFT = 0x200"
| "channel_out AUDIO_CHANNEL_OUT_SIDE_RIGHT = 0x400"
| "channel_out AUDIO_CHANNEL_OUT_TOP_CENTER = 0x800"
| "channel_out AUDIO_CHANNEL_OUT_TOP_FRONT_LEFT = 0x1000"
| "channel_out AUDIO_CHANNEL_OUT_TOP_FRONT_CENTER = 0x2000"
| "channel_out AUDIO_CHANNEL_OUT_TOP_FRONT_RIGHT = 0x4000"
| "channel_out AUDIO_CHANNEL_OUT_TOP_BACK_LEFT = 0x8000"
| "channel_out AUDIO_CHANNEL_OUT_TOP_BACK_CENTER = 0x10000"
| "channel_out AUDIO_CHANNEL_OUT_TOP_BACK_RIGHT = 0x20000"

datatype audio_out_mask = AUDIO_CHANNEL_OUT_MONO | AUDIO_CHANNEL_OUT_STEREO | AUDIO_CHANNEL_OUT_QUAD
  | AUDIO_CHANNEL_OUT_SURROUND | AUDIO_CHANNEL_OUT_5POINT1 | AUDIO_CHANNEL_OUT_7POINT1 | AUDIO_CHANNEL_OUT_ALL

fun out_mask :: "audio_out_mask \<Rightarrow> 32 word" where
  "out_mask AUDIO_CHANNEL_OUT_MONO = channel_out AUDIO_CHANNEL_OUT_FRONT_LEFT"
| "out_mask AUDIO_CHANNEL_OUT_STEREO =
     (channel_out AUDIO_CHANNEL_OUT_FRONT_LEFT OR channel_out AUDIO_CHANNEL_OUT_FRONT_RIGHT)"
| "out_mask AUDIO_CHANNEL_OUT_QUAD =
     (channel_out AUDIO_CHANNEL_OUT_FRONT_LEFT OR channel_out AUDIO_CHANNEL_OUT_FRONT_RIGHT
      OR channel_out AUDIO_CHANNEL_OUT_BACK_LEFT OR channel_out AUDIO_CHANNEL_OUT_BACK_RIGHT)"
| "out_mask AUDIO_CHANNEL_OUT_SURROUND =
     (channel_out AUDIO_CHANNEL_OUT_FRONT_LEFT OR channel_out AUDIO_CHANNEL_OUT_FRONT_RIGHT
      OR channel_out AUDIO_CHANNEL_OUT_FRONT_CENTER OR channel_out AUDIO_CHANNEL_OUT_BACK_CENTER)"
| "out_mask AUDIO_CHANNEL_OUT_5POINT1 =
     (channel_out AUDIO_CHANNEL_OUT_FRONT_LEFT OR channel_out AUDIO_CHANNEL_OUT_FRONT_RIGHT
      OR channel_out AUDIO_CHANNEL_OUT_FRONT_CENTER OR channel_out AUDIO_CHANNEL_OUT_LOW_FREQUENCY
      OR channel_out AUDIO_CHANNEL_OUT_BACK_LEFT OR channel_out AUDIO_CHANNEL_OUT_BACK_RIGHT)"
| "out_mask AUDIO_CHANNEL_OUT_7POINT1 =
     (channel_out AUDIO_CHANNEL_OUT_FRONT_LEFT OR channel_out AUDIO_CHANNEL_OUT_FRONT_RIGHT
      OR channel_out AUDIO_CHANNEL_OUT_FRONT_CENTER OR channel_out AUDIO_CHANNEL_OUT_LOW_FREQUENCY
      OR channel_out AUDIO_CHANNEL_OUT_BACK_LEFT OR channel_out AUDIO_CHANNEL_OUT_BACK_RIGHT
      OR channel_out AUDIO_CHANNEL_OUT_SIDE_LEFT OR channel_out AUDIO_CHANNEL_OUT_SIDE_RIGHT)"
| "out_mask AUDIO_CHANNEL_OUT_ALL =
     (channel_out AUDIO_CHANNEL_OUT_FRONT_LEFT OR channel_out AUDIO_CHANNEL_OUT_FRONT_RIGHT
      OR channel_out AUDIO_CHANNEL_OUT_FRONT_CENTER OR channel_out AUDIO_CHANNEL_OUT_LOW_FREQUENCY
      OR channel_out AUDIO_CHANNEL_OUT_BACK_LEFT OR channel_out AUDIO_CHANNEL_OUT_BACK_RIGHT
      OR channel_out AUDIO_CHANNEL_OUT_FRONT_LEFT_OF_CENTER
      OR channel_out AUDIO_CHANNEL_OUT_FRONT_RIGHT_OF_CENTER OR channel_out AUDIO_CHANNEL_OUT_BACK_CENTER
      OR channel_out AUDIO_CHANNEL_OUT_SIDE_LEFT OR channel_out AUDIO_CHANNEL_OUT_SIDE_RIGHT
      OR channel_out AUDIO_CHANNEL_OUT_TOP_CENTER OR channel_out AUDIO_CHANNEL_OUT_TOP_FRONT_LEFT
      OR channel_out AUDIO_CHANNEL_OUT_TOP_FRONT_CENTER OR channel_out AUDIO_CHANNEL_OUT_TOP_FRONT_RIGHT
      OR channel_out AUDIO_CHANNEL_OUT_TOP_BACK_LEFT OR channel_out AUDIO_CHANNEL_OUT_TOP_BACK_CENTER
      OR channel_out AUDIO_CHANNEL_OUT_TOP_BACK_RIGHT)"

datatype audio_channel_in = AUDIO_CHANNEL_IN_LEFT | AUDIO_CHANNEL_IN_RIGHT | AUDIO_CHANNEL_IN_FRONT
  | AUDIO_CHANNEL_IN_BACK | AUDIO_CHANNEL_IN_LEFT_PROCESSED | AUDIO_CHANNEL_IN_RIGHT_PROCESSED
  | AUDIO_CHANNEL_IN_FRONT_PROCESSED | AUDIO_CHANNEL_IN_BACK_PROCESSED | AUDIO_CHANNEL_IN_PRESSURE
  | AUDIO_CHANNEL_IN_X_AXIS | AUDIO_CHANNEL_IN_Y_AXIS | AUDIO_CHANNEL_IN_Z_AXIS | AUDIO_CHANNEL_IN_VOICE_UPLINK
  | AUDIO_CHANNEL_IN_VOICE_DNLINK

fun channel_in :: "audio_channel_in \<Rightarrow> 32 word" where
  "channel_in AUDIO_CHANNEL_IN_LEFT = 0x4"
| "channel_in AUDIO_CHANNEL_IN_RIGHT = 0x8"
| "channel_in AUDIO_CHANNEL_IN_FRONT = 0x10"
| "channel_in AUDIO_CHANNEL_IN_BACK = 0x20"
| "channel_in AUDIO_CHANNEL_IN_LEFT_PROCESSED = 0x40"
| "channel_in AUDIO_CHANNEL_IN_RIGHT_PROCESSED = 0x80"
| "channel_in AUDIO_CHANNEL_IN_FRONT_PROCESSED = 0x100"
| "channel_in AUDIO_CHANNEL_IN_BACK_PROCESSED = 0x200"
| "channel_in AUDIO_CHANNEL_IN_PRESSURE = 0x400"
| "channel_in AUDIO_CHANNEL_IN_X_AXIS = 0x800"
| "channel_in AUDIO_CHANNEL_IN_Y_AXIS = 0x1000"
| "channel_in AUDIO_CHANNEL_IN_Z_AXIS = 0x2000"
| "channel_in AUDIO_CHANNEL_IN_VOICE_UPLINK = 0x4000"
| "channel_in AUDIO_CHANNEL_IN_VOICE_DNLINK = 0x8000"

datatype audio_in_mask = AUDIO_CHANNEL_IN_MONO | AUDIO_CHANNEL_IN_STEREO | AUDIO_CHANNEL_IN_FRONT_BACK
  | AUDIO_CHANNEL_IN_VOICE

fun in_mask :: "audio_in_mask \<Rightarrow> 32 word" where
  "in_mask AUDIO_CHANNEL_IN_MONO = channel_in AUDIO_CHANNEL_IN_FRONT"
| "in_mask AUDIO_CHANNEL_IN_STEREO = channel_in AUDIO_CHANNEL_IN_LEFT OR channel_in AUDIO_CHANNEL_IN_RIGHT"
| "in_mask AUDIO_CHANNEL_IN_FRONT_BACK = channel_in AUDIO_CHANNEL_IN_FRONT OR channel_in AUDIO_CHANNEL_IN_BACK"
| "in_mask AUDIO_CHANNEL_IN_VOICE =
     (channel_in AUDIO_CHANNEL_IN_VOICE_UPLINK OR channel_in AUDIO_CHANNEL_IN_VOICE_DNLINK)"

text \<open>All input channels.\<close>

definition AUDIO_CHANNEL_IN_ALL :: "32 word" where
  "AUDIO_CHANNEL_IN_ALL =
     (channel_in AUDIO_CHANNEL_IN_LEFT OR channel_in AUDIO_CHANNEL_IN_RIGHT OR channel_in AUDIO_CHANNEL_IN_FRONT
      OR channel_in AUDIO_CHANNEL_IN_BACK OR channel_in AUDIO_CHANNEL_IN_LEFT_PROCESSED
      OR channel_in AUDIO_CHANNEL_IN_RIGHT_PROCESSED OR channel_in AUDIO_CHANNEL_IN_FRONT_PROCESSED
      OR channel_in AUDIO_CHANNEL_IN_BACK_PROCESSED OR channel_in AUDIO_CHANNEL_IN_PRESSURE
      OR channel_in AUDIO_CHANNEL_IN_X_AXIS OR channel_in AUDIO_CHANNEL_IN_Y_AXIS
      OR channel_in AUDIO_CHANNEL_IN_Z_AXIS OR channel_in AUDIO_CHANNEL_IN_VOICE_UPLINK
      OR channel_in AUDIO_CHANNEL_IN_VOICE_DNLINK OR in_mask AUDIO_CHANNEL_IN_VOICE)"

text \<open>Modes and the effects of an input.\<close>

datatype audio_mode = AUDIO_MODE_INVALID | AUDIO_MODE_CURRENT | AUDIO_MODE_NORMAL | AUDIO_MODE_RINGTONE
  | AUDIO_MODE_IN_CALL | AUDIO_MODE_IN_COMMUNICATION | AUDIO_MODE_MODE_FACTORY_TEST | AUDIO_MODE_FM
  | AUDIO_MODE_CNT | AUDIO_MODE_MAX

fun mode_code :: "audio_mode \<Rightarrow> int" where
  "mode_code AUDIO_MODE_INVALID = - 2"
| "mode_code AUDIO_MODE_CURRENT = - 1"
| "mode_code AUDIO_MODE_NORMAL = 0"
| "mode_code AUDIO_MODE_RINGTONE = 1"
| "mode_code AUDIO_MODE_IN_CALL = 2"
| "mode_code AUDIO_MODE_IN_COMMUNICATION = 3"
| "mode_code AUDIO_MODE_MODE_FACTORY_TEST = 4"
| "mode_code AUDIO_MODE_FM = 5"
| "mode_code AUDIO_MODE_CNT = 6"
| "mode_code AUDIO_MODE_MAX = 5"

datatype audio_in_acoustics = AUDIO_IN_ACOUSTICS_AGC_ENABLE | AUDIO_IN_ACOUSTICS_AGC_DISABLE
  | AUDIO_IN_ACOUSTICS_NS_ENABLE | AUDIO_IN_ACOUSTICS_NS_DISABLE | AUDIO_IN_ACOUSTICS_TX_IIR_ENABLE
  | AUDIO_IN_ACOUSTICS_TX_DISABLE

fun acoustics_code :: "audio_in_acoustics \<Rightarrow> 32 word" where
  "acoustics_code AUDIO_IN_ACOUSTICS_AGC_ENABLE = 0x1"
| "acoustics_code AUDIO_IN_ACOUSTICS_AGC_DISABLE = 0"
| "acoustics_code AUDIO_IN_ACOUSTICS_NS_ENABLE = 0x2"
| "acoustics_code AUDIO_IN_ACOUSTICS_NS_DISABLE = 0"
| "acoustics_code AUDIO_IN_ACOUSTICS_TX_IIR_ENABLE = 0x4"
| "acoustics_code AUDIO_IN_ACOUSTICS_TX_DISABLE = 0"

text \<open>Devices: one bit each, and a bit that tells inputs from outputs.\<close>

datatype audio_device_bit = AUDIO_DEVICE_NONE | AUDIO_DEVICE_BIT_IN | AUDIO_DEVICE_BIT_DEFAULT

fun device_bit :: "audio_device_bit \<Rightarrow> 32 word" where
  "device_bit AUDIO_DEVICE_NONE = 0"
| "device_bit AUDIO_DEVICE_BIT_IN = 0x80000000"
| "device_bit AUDIO_DEVICE_BIT_DEFAULT = 0x40000000"

datatype audio_device_out = AUDIO_DEVICE_OUT_EARPIECE | AUDIO_DEVICE_OUT_SPEAKER
  | AUDIO_DEVICE_OUT_WIRED_HEADSET | AUDIO_DEVICE_OUT_WIRED_HEADPHONE | AUDIO_DEVICE_OUT_BLUETOOTH_SCO
  | AUDIO_DEVICE_OUT_BLUETOOTH_SCO_HEADSET | AUDIO_DEVICE_OUT_BLUETOOTH_SCO_CARKIT
  | AUDIO_DEVICE_OUT_BLUETOOTH_A2DP | AUDIO_DEVICE_OUT_BLUETOOTH_A2DP_HEADPHONES
  | AUDIO_DEVICE_OUT_BLUETOOTH_A2DP_SPEAKER | AUDIO_DEVICE_OUT_AUX_DIGITAL | AUDIO_DEVICE_OUT_ANLG_DOCK_HEADSET
  | AUDIO_DEVICE_OUT_DGTL_DOCK_HEADSET | AUDIO_DEVICE_OUT_USB_ACCESSORY | AUDIO_DEVICE_OUT_USB_DEVICE
  | AUDIO_DEVICE_OUT_REMOTE_SUBMIX | AUDIO_DEVICE_OUT_DEFAULT

fun device_out :: "audio_device_out \<Rightarrow> 32 word" where
  "device_out AUDIO_DEVICE_OUT_EARPIECE = 0x1"
| "device_out AUDIO_DEVICE_OUT_SPEAKER = 0x2"
| "device_out AUDIO_DEVICE_OUT_WIRED_HEADSET = 0x4"
| "device_out AUDIO_DEVICE_OUT_WIRED_HEADPHONE = 0x8"
| "device_out AUDIO_DEVICE_OUT_BLUETOOTH_SCO = 0x10"
| "device_out AUDIO_DEVICE_OUT_BLUETOOTH_SCO_HEADSET = 0x20"
| "device_out AUDIO_DEVICE_OUT_BLUETOOTH_SCO_CARKIT = 0x40"
| "device_out AUDIO_DEVICE_OUT_BLUETOOTH_A2DP = 0x80"
| "device_out AUDIO_DEVICE_OUT_BLUETOOTH_A2DP_HEADPHONES = 0x100"
| "device_out AUDIO_DEVICE_OUT_BLUETOOTH_A2DP_SPEAKER = 0x200"
| "device_out AUDIO_DEVICE_OUT_AUX_DIGITAL = 0x400"
| "device_out AUDIO_DEVICE_OUT_ANLG_DOCK_HEADSET = 0x800"
| "device_out AUDIO_DEVICE_OUT_DGTL_DOCK_HEADSET = 0x1000"
| "device_out AUDIO_DEVICE_OUT_USB_ACCESSORY = 0x2000"
| "device_out AUDIO_DEVICE_OUT_USB_DEVICE = 0x4000"
| "device_out AUDIO_DEVICE_OUT_REMOTE_SUBMIX = 0x8000"
| "device_out AUDIO_DEVICE_OUT_DEFAULT = device_bit AUDIO_DEVICE_BIT_DEFAULT"

datatype audio_out_set = AUDIO_DEVICE_OUT_ALL | AUDIO_DEVICE_OUT_ALL_A2DP | AUDIO_DEVICE_OUT_ALL_SCO
  | AUDIO_DEVICE_OUT_ALL_USB

fun out_set :: "audio_out_set \<Rightarrow> 32 word" where
  "out_set AUDIO_DEVICE_OUT_ALL =
     (device_out AUDIO_DEVICE_OUT_EARPIECE OR device_out AUDIO_DEVICE_OUT_SPEAKER
      OR device_out AUDIO_DEVICE_OUT_WIRED_HEADSET OR device_out AUDIO_DEVICE_OUT_WIRED_HEADPHONE
      OR device_out AUDIO_DEVICE_OUT_BLUETOOTH_SCO OR device_out AUDIO_DEVICE_OUT_BLUETOOTH_SCO_HEADSET
      OR device_out AUDIO_DEVICE_OUT_BLUETOOTH_SCO_CARKIT OR device_out AUDIO_DEVICE_OUT_BLUETOOTH_A2DP
      OR device_out AUDIO_DEVICE_OUT_BLUETOOTH_A2DP_HEADPHONES
      OR device_out AUDIO_DEVICE_OUT_BLUETOOTH_A2DP_SPEAKER OR device_out AUDIO_DEVICE_OUT_AUX_DIGITAL
      OR device_out AUDIO_DEVICE_OUT_ANLG_DOCK_HEADSET OR device_out AUDIO_DEVICE_OUT_DGTL_DOCK_HEADSET
      OR device_out AUDIO_DEVICE_OUT_USB_ACCESSORY OR device_out AUDIO_DEVICE_OUT_USB_DEVICE
      OR device_out AUDIO_DEVICE_OUT_REMOTE_SUBMIX OR device_out AUDIO_DEVICE_OUT_DEFAULT)"
| "out_set AUDIO_DEVICE_OUT_ALL_A2DP =
     (device_out AUDIO_DEVICE_OUT_BLUETOOTH_A2DP OR device_out AUDIO_DEVICE_OUT_BLUETOOTH_A2DP_HEADPHONES
      OR device_out AUDIO_DEVICE_OUT_BLUETOOTH_A2DP_SPEAKER)"
| "out_set AUDIO_DEVICE_OUT_ALL_SCO =
     (device_out AUDIO_DEVICE_OUT_BLUETOOTH_SCO OR device_out AUDIO_DEVICE_OUT_BLUETOOTH_SCO_HEADSET
      OR device_out AUDIO_DEVICE_OUT_BLUETOOTH_SCO_CARKIT)"
| "out_set AUDIO_DEVICE_OUT_ALL_USB =
     (device_out AUDIO_DEVICE_OUT_USB_ACCESSORY OR device_out AUDIO_DEVICE_OUT_USB_DEVICE)"

datatype audio_device_in = AUDIO_DEVICE_IN_COMMUNICATION | AUDIO_DEVICE_IN_AMBIENT
  | AUDIO_DEVICE_IN_BUILTIN_MIC | AUDIO_DEVICE_IN_BLUETOOTH_SCO_HEADSET | AUDIO_DEVICE_IN_WIRED_HEADSET
  | AUDIO_DEVICE_IN_AUX_DIGITAL | AUDIO_DEVICE_IN_VOICE_CALL | AUDIO_DEVICE_IN_BACK_MIC
  | AUDIO_DEVICE_IN_REMOTE_SUBMIX | AUDIO_DEVICE_IN_ANLG_DOCK_HEADSET | AUDIO_DEVICE_IN_DGTL_DOCK_HEADSET
  | AUDIO_DEVICE_IN_USB_ACCESSORY | AUDIO_DEVICE_IN_USB_DEVICE | AUDIO_DEVICE_IN_FM | AUDIO_DEVICE_IN_AF
  | AUDIO_DEVICE_IN_DEFAULT

fun device_in :: "audio_device_in \<Rightarrow> 32 word" where
  "device_in AUDIO_DEVICE_IN_COMMUNICATION = device_bit AUDIO_DEVICE_BIT_IN OR 0x1"
| "device_in AUDIO_DEVICE_IN_AMBIENT = device_bit AUDIO_DEVICE_BIT_IN OR 0x2"
| "device_in AUDIO_DEVICE_IN_BUILTIN_MIC = device_bit AUDIO_DEVICE_BIT_IN OR 0x4"
| "device_in AUDIO_DEVICE_IN_BLUETOOTH_SCO_HEADSET = device_bit AUDIO_DEVICE_BIT_IN OR 0x8"
| "device_in AUDIO_DEVICE_IN_WIRED_HEADSET = device_bit AUDIO_DEVICE_BIT_IN OR 0x10"
| "device_in AUDIO_DEVICE_IN_AUX_DIGITAL = device_bit AUDIO_DEVICE_BIT_IN OR 0x20"
| "device_in AUDIO_DEVICE_IN_VOICE_CALL = device_bit AUDIO_DEVICE_BIT_IN OR 0x40"
| "device_in AUDIO_DEVICE_IN_BACK_MIC = device_bit AUDIO_DEVICE_BIT_IN OR 0x80"
| "device_in AUDIO_DEVICE_IN_REMOTE_SUBMIX = device_bit AUDIO_DEVICE_BIT_IN OR 0x100"
| "device_in AUDIO_DEVICE_IN_ANLG_DOCK_HEADSET = device_bit AUDIO_DEVICE_BIT_IN OR 0x200"
| "device_in AUDIO_DEVICE_IN_DGTL_DOCK_HEADSET = device_bit AUDIO_DEVICE_BIT_IN OR 0x400"
| "device_in AUDIO_DEVICE_IN_USB_ACCESSORY = device_bit AUDIO_DEVICE_BIT_IN OR 0x800"
| "device_in AUDIO_DEVICE_IN_USB_DEVICE = device_bit AUDIO_DEVICE_BIT_IN OR 0x1000"
| "device_in AUDIO_DEVICE_IN_FM = device_bit AUDIO_DEVICE_BIT_IN OR 0x2000"
| "device_in AUDIO_DEVICE_IN_AF = device_bit AUDIO_DEVICE_BIT_IN OR 0x1000000"
| "device_in AUDIO_DEVICE_IN_DEFAULT = device_bit AUDIO_DEVICE_BIT_IN OR device_bit AUDIO_DEVICE_BIT_DEFAULT"

datatype audio_in_set = AUDIO_DEVICE_IN_ALL | AUDIO_DEVICE_IN_ALL_SCO

fun in_set :: "audio_in_set \<Rightarrow> 32 word" where
  "in_set AUDIO_DEVICE_IN_ALL =
     (device_in AUDIO_DEVICE_IN_COMMUNICATION OR device_in AUDIO_DEVICE_IN_AMBIENT
      OR device_in AUDIO_DEVICE_IN_BUILTIN_MIC OR device_in AUDIO_DEVICE_IN_BLUETOOTH_SCO_HEADSET
      OR device_in AUDIO_DEVICE_IN_WIRED_HEADSET OR device_in AUDIO_DEVICE_IN_AUX_DIGITAL
      OR device_in AUDIO_DEVICE_IN_VOICE_CALL OR device_in AUDIO_DEVICE_IN_BACK_MIC
      OR device_in AUDIO_DEVICE_IN_REMOTE_SUBMIX OR device_in AUDIO_DEVICE_IN_ANLG_DOCK_HEADSET
      OR device_in AUDIO_DEVICE_IN_DGTL_DOCK_HEADSET OR device_in AUDIO_DEVICE_IN_USB_ACCESSORY
      OR device_in AUDIO_DEVICE_IN_USB_DEVICE OR device_in AUDIO_DEVICE_IN_AF
      OR device_in AUDIO_DEVICE_IN_FM OR device_in AUDIO_DEVICE_IN_DEFAULT)"
| "in_set AUDIO_DEVICE_IN_ALL_SCO = device_in AUDIO_DEVICE_IN_BLUETOOTH_SCO_HEADSET"

text \<open>Flags.\<close>

datatype audio_output_flags = AUDIO_OUTPUT_FLAG_NONE | AUDIO_OUTPUT_FLAG_DIRECT | AUDIO_OUTPUT_FLAG_PRIMARY
  | AUDIO_OUTPUT_FLAG_FAST | AUDIO_OUTPUT_FLAG_DEEP_BUFFER | AUDIO_OUTPUT_FLAG_COMPRESS_OFFLOAD
  | AUDIO_OUTPUT_FLAG_NON_BLOCKING

fun output_flag :: "audio_output_flags \<Rightarrow> 32 word" where
  "output_flag AUDIO_OUTPUT_FLAG_NONE = 0"
| "output_flag AUDIO_OUTPUT_FLAG_DIRECT = 0x1"
| "output_flag AUDIO_OUTPUT_FLAG_PRIMARY = 0x2"
| "output_flag AUDIO_OUTPUT_FLAG_FAST = 0x4"
| "output_flag AUDIO_OUTPUT_FLAG_DEEP_BUFFER = 0x8"
| "output_flag AUDIO_OUTPUT_FLAG_COMPRESS_OFFLOAD = 0x10"
| "output_flag AUDIO_OUTPUT_FLAG_NON_BLOCKING = 0x20"

datatype audio_input_flags = AUDIO_INPUT_FLAG_NONE | AUDIO_INPUT_FLAG_FAST

fun input_flag :: "audio_input_flags \<Rightarrow> 32 word" where
  "input_flag AUDIO_INPUT_FLAG_NONE = 0"
| "input_flag AUDIO_INPUT_FLAG_FAST = 0x1"

subsection \<open>Offload information\<close>

record audio_offload_info =
  aoi_version :: "16 word"
  aoi_size :: "16 word"
  aoi_sample_rate :: "32 word"
  aoi_channel_mask :: "32 word"
  aoi_format :: "32 word"
  aoi_stream_type :: int
  aoi_bit_rate :: "32 word"
  aoi_duration_us :: "64 word"
  aoi_has_video :: bool
  aoi_is_streaming :: bool

definition AUDIO_MAKE_OFFLOAD_INFO_VERSION :: "32 word \<Rightarrow> 32 word \<Rightarrow> 32 word" where
  "AUDIO_MAKE_OFFLOAD_INFO_VERSION maj mnr = (push_bit 8 (maj AND 0xff) OR (mnr AND 0xff))"

definition AUDIO_OFFLOAD_INFO_VERSION_0_1 :: "32 word" where
  "AUDIO_OFFLOAD_INFO_VERSION_0_1 = AUDIO_MAKE_OFFLOAD_INFO_VERSION 0 1"

definition AUDIO_OFFLOAD_INFO_VERSION_CURRENT :: "32 word" where
  "AUDIO_OFFLOAD_INFO_VERSION_CURRENT = AUDIO_OFFLOAD_INFO_VERSION_0_1"

text \<open>The size of the structure is that of the platform; the members without an initializer are zero.\<close>

definition AUDIO_INFO_INITIALIZER :: "16 word \<Rightarrow> audio_offload_info" where
  "AUDIO_INFO_INITIALIZER sizeof_info = \<lparr>aoi_version = ucast AUDIO_OFFLOAD_INFO_VERSION_CURRENT, aoi_size = sizeof_info,
     aoi_sample_rate = 0, aoi_channel_mask = 0, aoi_format = 0, aoi_stream_type = 0, aoi_bit_rate = 0,
     aoi_duration_us = 0, aoi_has_video = False, aoi_is_streaming = False\<rparr>"

subsection \<open>Predicates\<close>

definition audio_is_output_device :: "32 word \<Rightarrow> bool" where
  "audio_is_output_device device \<longleftrightarrow>
     device AND device_bit AUDIO_DEVICE_BIT_IN = 0 \<and> popcount device = 1 \<and> device AND NOT (out_set AUDIO_DEVICE_OUT_ALL) = 0"

definition audio_is_input_device :: "32 word \<Rightarrow> bool" where
  "audio_is_input_device device \<longleftrightarrow>
     (if device AND device_bit AUDIO_DEVICE_BIT_IN \<noteq> 0 then
        let device = device AND NOT (device_bit AUDIO_DEVICE_BIT_IN)
        in popcount device = 1 \<and> device AND NOT (in_set AUDIO_DEVICE_IN_ALL) = 0
      else False)"

definition audio_is_output_devices :: "32 word \<Rightarrow> bool" where
  "audio_is_output_devices device \<longleftrightarrow> device AND device_bit AUDIO_DEVICE_BIT_IN = 0"

definition audio_is_a2dp_device :: "32 word \<Rightarrow> bool" where
  "audio_is_a2dp_device device \<longleftrightarrow> popcount device = 1 \<and> device AND out_set AUDIO_DEVICE_OUT_ALL_A2DP \<noteq> 0"

definition audio_is_bluetooth_sco_device :: "32 word \<Rightarrow> bool" where
  "audio_is_bluetooth_sco_device device = (let device = device AND NOT (device_bit AUDIO_DEVICE_BIT_IN) in
     popcount device = 1 \<and> device AND (out_set AUDIO_DEVICE_OUT_ALL_SCO OR device_in AUDIO_DEVICE_IN_BLUETOOTH_SCO_HEADSET) \<noteq> 0)"

definition audio_is_usb_device :: "32 word \<Rightarrow> bool" where
  "audio_is_usb_device device \<longleftrightarrow> popcount device = 1 \<and> device AND out_set AUDIO_DEVICE_OUT_ALL_USB \<noteq> 0"

definition audio_is_remote_submix_device :: "32 word \<Rightarrow> bool" where
  "audio_is_remote_submix_device device \<longleftrightarrow>
     device AND device_out AUDIO_DEVICE_OUT_REMOTE_SUBMIX = device_out AUDIO_DEVICE_OUT_REMOTE_SUBMIX \<or>
     device AND device_in AUDIO_DEVICE_IN_REMOTE_SUBMIX = device_in AUDIO_DEVICE_IN_REMOTE_SUBMIX"

definition audio_is_input_channel :: "32 word \<Rightarrow> bool" where
  "audio_is_input_channel channel \<longleftrightarrow> (if channel AND NOT AUDIO_CHANNEL_IN_ALL = 0 then channel \<noteq> 0 else False)"

definition audio_is_output_channel :: "32 word \<Rightarrow> bool" where
  "audio_is_output_channel channel \<longleftrightarrow> (if channel AND NOT (out_mask AUDIO_CHANNEL_OUT_ALL) = 0 then channel \<noteq> 0 else False)"

definition audio_channel_out_mask_from_count :: "32 word \<Rightarrow> 32 word" where
  "audio_channel_out_mask_from_count channel_count =
     (if channel_count = 1 then out_mask AUDIO_CHANNEL_OUT_MONO
      else if channel_count = 2 then out_mask AUDIO_CHANNEL_OUT_STEREO
      else if channel_count = 3 then out_mask AUDIO_CHANNEL_OUT_STEREO OR channel_out AUDIO_CHANNEL_OUT_FRONT_CENTER
      else if channel_count = 4 then out_mask AUDIO_CHANNEL_OUT_QUAD
      else if channel_count = 5 then out_mask AUDIO_CHANNEL_OUT_QUAD OR channel_out AUDIO_CHANNEL_OUT_FRONT_CENTER
      else if channel_count = 6 then out_mask AUDIO_CHANNEL_OUT_5POINT1
      else if channel_count = 7 then out_mask AUDIO_CHANNEL_OUT_5POINT1 OR channel_out AUDIO_CHANNEL_OUT_BACK_CENTER
      else if channel_count = 8 then out_mask AUDIO_CHANNEL_OUT_7POINT1
      else 0)"

definition audio_channel_in_mask_from_count :: "32 word \<Rightarrow> 32 word" where
  "audio_channel_in_mask_from_count channel_count =
     (if channel_count = 1 then in_mask AUDIO_CHANNEL_IN_MONO
      else if channel_count = 2 then in_mask AUDIO_CHANNEL_IN_STEREO
      else 0)"

text \<open>The case of PCM falls through to the others when its sub format is known.\<close>

definition audio_is_valid_format :: "32 word \<Rightarrow> bool" where
  "audio_is_valid_format format = (let main = format AND format_code AUDIO_FORMAT_MAIN_MASK in
     if main = format_code AUDIO_FORMAT_PCM \<and> format \<noteq> pcm_format AUDIO_FORMAT_PCM_16_BIT \<and> format \<noteq> pcm_format AUDIO_FORMAT_PCM_8_BIT
     then False
     else main \<in> format_code ` {AUDIO_FORMAT_PCM, AUDIO_FORMAT_MP3, AUDIO_FORMAT_AMR_NB, AUDIO_FORMAT_AMR_WB, AUDIO_FORMAT_AAC,
       AUDIO_FORMAT_HE_AAC_V1, AUDIO_FORMAT_HE_AAC_V2, AUDIO_FORMAT_VORBIS})"

definition audio_is_linear_pcm :: "32 word \<Rightarrow> bool" where
  "audio_is_linear_pcm format \<longleftrightarrow> format AND format_code AUDIO_FORMAT_MAIN_MASK = format_code AUDIO_FORMAT_PCM"

definition audio_bytes_per_sample :: "32 word \<Rightarrow> nat" where
  "audio_bytes_per_sample format =
     (if format = pcm_format AUDIO_FORMAT_PCM_32_BIT \<or> format = pcm_format AUDIO_FORMAT_PCM_8_24_BIT then 4
      else if format = pcm_format AUDIO_FORMAT_PCM_16_BIT then 2
      else if format = pcm_format AUDIO_FORMAT_PCM_8_BIT then 1
      else 0)"

text \<open>A stream is what its two hooks answer.\<close>

record audio_stream =
  get_format :: "32 word"
  get_channels :: "32 word"

definition audio_stream_frame_size :: "audio_stream \<Rightarrow> nat" where
  "audio_stream_frame_size s = (let format = get_format s in
     if audio_is_linear_pcm format then let chan_samp_sz = audio_bytes_per_sample format
       in popcount (get_channels s) * chan_samp_sz
     else 1)"

subsection \<open>Single bits\<close>

lemma popcount_bit: "n < 32 \<Longrightarrow> popcount (push_bit n 1) = 1"
proof -
  assume "n < 32"
  then have "{i. i < 32 \<and> bit (push_bit n (1 :: 32 word)) i} = {n}" unfolding bit_single by auto
  then show ?thesis unfolding popcount_card by simp
qed

lemma popcount_one: "popcount v = 1 \<longleftrightarrow> (\<exists>n < 32. v = push_bit n 1)"
proof
  assume "popcount v = 1"
  then obtain k where k: "{n. n < 32 \<and> bit v n} = {k}" unfolding popcount_card by (rule card_1_singletonE)
  then have "k < 32" "\<And>n. n < 32 \<Longrightarrow> bit v n \<longleftrightarrow> n = k" by auto
  then have "v = push_bit k 1" by (intro bit_word_eqI) (auto simp: bit_simps)
  then show "\<exists>n < 32. v = push_bit n 1" using \<open>k < 32\<close> by blast
next
  assume "\<exists>n < 32. v = push_bit n 1"
  then obtain n where n: "n < 32" "v = push_bit n 1" by blast
  then show "popcount v = 1" by (simp only: popcount_bit)
qed

lemmas code_defs = audio_is_output_device_def audio_is_input_device_def audio_is_a2dp_device_def
  audio_is_bluetooth_sco_device_def audio_is_usb_device_def Let_def

text \<open>The positions of the bits of the devices, in the order of the enumerations.\<close>

definition out_bits :: "nat list" where "out_bits = [0..<16] @ [30]"
definition in_bits :: "nat list" where "in_bits = [0..<14] @ [24, 30]"

lemma device_out_bits: "range device_out = (\<lambda>n. push_bit n 1) ` set out_bits"
proof -
  have u: "(UNIV :: audio_device_out set) = {AUDIO_DEVICE_OUT_EARPIECE, AUDIO_DEVICE_OUT_SPEAKER, AUDIO_DEVICE_OUT_WIRED_HEADSET,
    AUDIO_DEVICE_OUT_WIRED_HEADPHONE, AUDIO_DEVICE_OUT_BLUETOOTH_SCO, AUDIO_DEVICE_OUT_BLUETOOTH_SCO_HEADSET,
    AUDIO_DEVICE_OUT_BLUETOOTH_SCO_CARKIT, AUDIO_DEVICE_OUT_BLUETOOTH_A2DP, AUDIO_DEVICE_OUT_BLUETOOTH_A2DP_HEADPHONES,
    AUDIO_DEVICE_OUT_BLUETOOTH_A2DP_SPEAKER, AUDIO_DEVICE_OUT_AUX_DIGITAL, AUDIO_DEVICE_OUT_ANLG_DOCK_HEADSET,
    AUDIO_DEVICE_OUT_DGTL_DOCK_HEADSET, AUDIO_DEVICE_OUT_USB_ACCESSORY, AUDIO_DEVICE_OUT_USB_DEVICE,
    AUDIO_DEVICE_OUT_REMOTE_SUBMIX, AUDIO_DEVICE_OUT_DEFAULT}"
    by (rule UNIV_eq_I, rename_tac x, case_tac x) simp_all
  show ?thesis unfolding u by (simp add: out_bits_def upt_rec push_bit_eq_mult)
qed

lemma device_in_bits: "range device_in = (\<lambda>n. device_bit AUDIO_DEVICE_BIT_IN OR push_bit n 1) ` set in_bits"
proof -
  have u: "(UNIV :: audio_device_in set) = {AUDIO_DEVICE_IN_COMMUNICATION, AUDIO_DEVICE_IN_AMBIENT, AUDIO_DEVICE_IN_BUILTIN_MIC,
    AUDIO_DEVICE_IN_BLUETOOTH_SCO_HEADSET, AUDIO_DEVICE_IN_WIRED_HEADSET, AUDIO_DEVICE_IN_AUX_DIGITAL,
    AUDIO_DEVICE_IN_VOICE_CALL, AUDIO_DEVICE_IN_BACK_MIC, AUDIO_DEVICE_IN_REMOTE_SUBMIX,
    AUDIO_DEVICE_IN_ANLG_DOCK_HEADSET, AUDIO_DEVICE_IN_DGTL_DOCK_HEADSET, AUDIO_DEVICE_IN_USB_ACCESSORY,
    AUDIO_DEVICE_IN_USB_DEVICE, AUDIO_DEVICE_IN_FM, AUDIO_DEVICE_IN_AF, AUDIO_DEVICE_IN_DEFAULT}"
    by (rule UNIV_eq_I, rename_tac x, case_tac x) simp_all
  show ?thesis unfolding u by (simp add: in_bits_def upt_rec push_bit_eq_mult)
qed

lemma output_device_iff: "audio_is_output_device d \<longleftrightarrow> d \<in> range device_out"
proof -
  have "list_all (\<lambda>n. push_bit n 1 AND device_bit AUDIO_DEVICE_BIT_IN = 0 \<and> push_bit n 1 AND NOT (out_set AUDIO_DEVICE_OUT_ALL) = 0
      \<longleftrightarrow> n \<in> set out_bits) [0..<32]" by (simp add: upt_rec out_bits_def)
  then have t: "audio_is_output_device (push_bit n 1) \<longleftrightarrow> n \<in> set out_bits" if "n < 32" for n
    using that unfolding audio_is_output_device_def popcount_bit [OF that] list_all_iff by simp
  have "audio_is_output_device d \<longleftrightarrow> (\<exists>n \<in> set out_bits. d = push_bit n 1)"
  proof
    assume a: "audio_is_output_device d"
    then obtain n where n: "n < 32" "d = push_bit n 1" unfolding audio_is_output_device_def popcount_one by blast
    then show "\<exists>n \<in> set out_bits. d = push_bit n 1" using a t by blast
  next
    assume "\<exists>n \<in> set out_bits. d = push_bit n 1"
    moreover have "\<forall>n \<in> set out_bits. n < 32" by (simp add: out_bits_def)
    ultimately show "audio_is_output_device d" using t by blast
  qed
  then show ?thesis unfolding device_out_bits by auto
qed

lemma top_bit: "bit (device_bit AUDIO_DEVICE_BIT_IN) n \<longleftrightarrow> n = 31"
proof -
  have "bit (2 ^ 31 :: 32 word) n \<longleftrightarrow> n = 31" unfolding bit_exp_iff by auto
  then show ?thesis by simp
qed

lemma top_bit_split:
  fixes d :: "32 word"
  assumes "d AND device_bit AUDIO_DEVICE_BIT_IN \<noteq> 0"
  shows "d = (device_bit AUDIO_DEVICE_BIT_IN OR (d AND NOT (device_bit AUDIO_DEVICE_BIT_IN)))"
proof (cases "bit d 31")
  case True
  then show ?thesis
    by (intro bit_word_eqI) (auto simp: bit_or_iff bit_and_iff bit_not_iff top_bit simp del: device_bit.simps)
next
  case False
  then have "d AND device_bit AUDIO_DEVICE_BIT_IN = 0"
    by (intro bit_word_eqI) (auto simp: bit_and_iff top_bit simp del: device_bit.simps)
  then show ?thesis using assms by blast
qed

lemma not_top: "\<not> bit (d AND NOT (device_bit AUDIO_DEVICE_BIT_IN)) 31"
  by (simp add: bit_and_iff bit_not_iff top_bit del: device_bit.simps)

lemma popcount_below_top: "popcount x = 1 \<Longrightarrow> \<not> bit x 31 \<Longrightarrow> \<exists>n < 31. x = push_bit n 1"
proof -
  assume "popcount x = 1" "\<not> bit x 31"
  then obtain n where n: "n < 32" "x = push_bit n 1" unfolding popcount_one by blast
  then have "n \<noteq> 31" using \<open>\<not> bit x 31\<close> bit_single [of 31 31] by auto
  then show ?thesis using n by (intro exI [of _ n]) simp
qed

lemma input_device_iff: "audio_is_input_device d \<longleftrightarrow> d \<in> range device_in"
proof -
  let ?b = "device_bit AUDIO_DEVICE_BIT_IN"
  have "list_all (\<lambda>n. (?b OR push_bit n 1) AND ?b \<noteq> 0 \<and> (?b OR push_bit n 1) AND NOT ?b = push_bit n 1 \<and>
      (push_bit n 1 AND NOT (in_set AUDIO_DEVICE_IN_ALL) = 0 \<longleftrightarrow> n \<in> set in_bits)) [0..<31]" by (simp add: upt_rec in_bits_def)
  then have "(?b OR push_bit n 1) AND ?b \<noteq> 0 \<and> (?b OR push_bit n 1) AND NOT ?b = push_bit n 1 \<and>
      (push_bit n 1 AND NOT (in_set AUDIO_DEVICE_IN_ALL) = 0 \<longleftrightarrow> n \<in> set in_bits)" if "n < 31" for n
    using that unfolding list_all_iff by simp
  then have t: "audio_is_input_device (?b OR push_bit n 1) \<longleftrightarrow> n \<in> set in_bits" if "n < 31" for n
    using that popcount_bit [of n] unfolding audio_is_input_device_def Let_def by (simp del: push_bit_of_1 device_bit.simps in_set.simps)
  have "audio_is_input_device d \<longleftrightarrow> (\<exists>n \<in> set in_bits. d = (?b OR push_bit n 1))"
  proof
    assume a: "audio_is_input_device d"
    then have "d AND ?b \<noteq> 0" "popcount (d AND NOT ?b) = 1"
      unfolding audio_is_input_device_def Let_def by metis+
    then obtain n where n: "n < 31" "d = (?b OR push_bit n 1)"
      using top_bit_split popcount_below_top [OF _ not_top] by metis
    then show "\<exists>n \<in> set in_bits. d = (?b OR push_bit n 1)" using a t by blast
  next
    assume "\<exists>n \<in> set in_bits. d = (?b OR push_bit n 1)"
    moreover have "\<forall>n \<in> set in_bits. n < 31" by (simp add: in_bits_def)
    ultimately show "audio_is_input_device d" using t by blast
  qed
  then show ?thesis unfolding device_in_bits by auto
qed

lemma sco_device_iff:
  "audio_is_bluetooth_sco_device d \<longleftrightarrow> d AND NOT (device_bit AUDIO_DEVICE_BIT_IN) \<in> {0x8, 0x10, 0x20, 0x40}"
proof -
  let ?s = "out_set AUDIO_DEVICE_OUT_ALL_SCO OR device_in AUDIO_DEVICE_IN_BLUETOOTH_SCO_HEADSET"
  have s: "{0x8, 0x10, 0x20, 0x40 :: 32 word} = (\<lambda>n. push_bit n 1) ` {3, 4, 5, 6}" by simp
  have "list_all (\<lambda>n. push_bit n 1 AND ?s \<noteq> 0 \<longleftrightarrow> n \<in> {3, 4, 5, 6}) [0..<31]" by (simp add: upt_rec)
  then have t: "push_bit n 1 AND ?s \<noteq> 0 \<longleftrightarrow> n \<in> {3, 4, 5, 6}" if "n < 31" for n using that unfolding list_all_iff by simp
  have "popcount x = 1 \<and> x AND ?s \<noteq> 0 \<longleftrightarrow> x \<in> (\<lambda>n. push_bit n 1) ` {3, 4, 5, 6}" if top: "\<not> bit x 31" for x
  proof
    assume a: "popcount x = 1 \<and> x AND ?s \<noteq> 0"
    then obtain n where n: "n < 31" "x = push_bit n 1" using popcount_below_top [of x] top by metis
    then show "x \<in> (\<lambda>n. push_bit n 1) ` {3, 4, 5, 6}" using a t by blast
  next
    assume "x \<in> (\<lambda>n. push_bit n 1) ` {3, 4, 5, 6}"
    then obtain n where n: "n \<in> {3, 4, 5, 6}" "x = push_bit n 1" by blast
    then have "n < 31" "n < 32" by auto
    then show "popcount x = 1 \<and> x AND ?s \<noteq> 0" using t [of n] popcount_bit [of n] n by blast
  qed
  then show ?thesis using not_top unfolding audio_is_bluetooth_sco_device_def Let_def s by blast
qed

subsection \<open>Properties\<close>

text \<open>The predicates on devices accept exactly the enumerated ones: a word is an output device if and only
  if it is one of the enumerators of an output, an input device if and only if it is one of an input, and
  no word is both; but \<open>audio_is_bluetooth_sco_device\<close>, which forgets the direction, also accepts the wired
  headphone, the wired headset as an input, the digital input and the voice call.\<close>

lemma audio_devices_exact:
  "(audio_is_output_device d \<longleftrightarrow> d \<in> range device_out) \<and> (audio_is_input_device d \<longleftrightarrow> d \<in> range device_in) \<and>
   \<not> (audio_is_output_device d \<and> audio_is_input_device d) \<and>
   (audio_is_bluetooth_sco_device d \<longleftrightarrow> d AND NOT (device_bit AUDIO_DEVICE_BIT_IN) \<in>
     device_out ` {AUDIO_DEVICE_OUT_WIRED_HEADPHONE, AUDIO_DEVICE_OUT_BLUETOOTH_SCO, AUDIO_DEVICE_OUT_BLUETOOTH_SCO_HEADSET,
       AUDIO_DEVICE_OUT_BLUETOOTH_SCO_CARKIT}) \<and>
   list_all (audio_is_bluetooth_sco_device \<circ> device_in) [AUDIO_DEVICE_IN_WIRED_HEADSET, AUDIO_DEVICE_IN_AUX_DIGITAL, AUDIO_DEVICE_IN_VOICE_CALL]"
proof -
  have "\<not> (audio_is_output_device d \<and> audio_is_input_device d)"
    by (simp add: audio_is_output_device_def audio_is_input_device_def)
  moreover have "list_all (audio_is_bluetooth_sco_device \<circ> device_in) [AUDIO_DEVICE_IN_WIRED_HEADSET, AUDIO_DEVICE_IN_AUX_DIGITAL, AUDIO_DEVICE_IN_VOICE_CALL]"
    by (simp add: sco_device_iff)
  ultimately show ?thesis using output_device_iff input_device_iff sco_device_iff [of d] by simp
qed

text \<open>The mask derived from a channel count has that many channels, all of them known, for the counts 1 to 8
  of an output and 1 to 2 of an input, and is empty for every other count, so that the frame of a PCM stream
  opened with it has the size of a sample for each channel. Of the four sample formats with a size only two
  pass for valid.\<close>

lemma audio_channel_masks:
  "popcount (audio_channel_out_mask_from_count n) = (if n \<le> 8 then unat n else 0) \<and>
   (audio_is_output_channel (audio_channel_out_mask_from_count n) \<longleftrightarrow> 1 \<le> n \<and> n \<le> 8) \<and>
   popcount (audio_channel_in_mask_from_count n) = (if n \<le> 2 then unat n else 0) \<and>
   (audio_is_input_channel (audio_channel_in_mask_from_count n) \<longleftrightarrow> 1 \<le> n \<and> n \<le> 2) \<and>
   audio_stream_frame_size \<lparr>get_format = pcm_format f, get_channels = audio_channel_out_mask_from_count n\<rparr> =
     (if n \<le> 8 then unat n else 0) * audio_bytes_per_sample (pcm_format f) \<and>
   0 < audio_bytes_per_sample (pcm_format f) \<and>
   (audio_is_valid_format (pcm_format f) \<longleftrightarrow> f \<in> {AUDIO_FORMAT_PCM_16_BIT, AUDIO_FORMAT_PCM_8_BIT})"
proof -
  have small: "n \<in> {0, 1, 2, 3, 4, 5, 6, 7, 8} \<or> 8 < n"
  proof (cases "n \<le> 8")
    case True
    then have "unat n \<le> 8" by (simp add: word_le_nat_alt)
    then have "unat n \<in> {0, 1, 2, 3, 4, 5, 6, 7, 8}" by auto
    then have "of_nat (unat n) \<in> (of_nat ` {0, 1, 2, 3, 4, 5, 6, 7, 8} :: 32 word set)" by (rule imageI)
    then show ?thesis by simp
  qed (simp add: not_le)
  have t: "\<forall>m \<in> {0, 1, 2, 3, 4, 5, 6, 7, 8}. popcount (audio_channel_out_mask_from_count m) = unat m \<and>
      (audio_is_output_channel (audio_channel_out_mask_from_count m) \<longleftrightarrow> m \<noteq> 0) \<and>
      popcount (audio_channel_in_mask_from_count m) = (if m \<le> 2 then unat m else 0) \<and>
      (audio_is_input_channel (audio_channel_in_mask_from_count m) \<longleftrightarrow> 1 \<le> m \<and> m \<le> 2)" by code_simp
  have big: "audio_channel_out_mask_from_count n = 0 \<and> audio_channel_in_mask_from_count n = 0" if "8 < n"
    using that by (auto simp: audio_channel_out_mask_from_count_def audio_channel_in_mask_from_count_def)
  have f: "audio_stream_frame_size \<lparr>get_format = pcm_format f, get_channels = c\<rparr> = popcount c * audio_bytes_per_sample (pcm_format f)
      \<and> 0 < audio_bytes_per_sample (pcm_format f) \<and>
      (audio_is_valid_format (pcm_format f) \<longleftrightarrow> f \<in> {AUDIO_FORMAT_PCM_16_BIT, AUDIO_FORMAT_PCM_8_BIT})" for c
    by (cases f) (simp_all add: audio_stream_frame_size_def audio_is_linear_pcm_def audio_bytes_per_sample_def audio_is_valid_format_def)
  from small show ?thesis
  proof
    assume n: "n \<in> {0, 1, 2, 3, 4, 5, 6, 7, 8}"
    then have "n \<le> 8" "n \<noteq> 0 \<longleftrightarrow> 1 \<le> n" by auto
    then show ?thesis using bspec [OF t n] f by simp
  next
    assume "8 < n"
    moreover have "popcount 0 = 0" "\<not> audio_is_output_channel 0" "\<not> audio_is_input_channel 0" by code_simp+
    moreover have "\<not> n \<le> 8" "\<not> n \<le> 2" using \<open>8 < n\<close> by (auto dest: order_trans [of n 2 8])
    ultimately show ?thesis using big f by simp
  qed
qed

end
