(* ===== verification/Emulator_Channel.thy ===== *)
theory Emulator_Channel
  imports Main "HOL-Library.Word" "HOL-Library.Monad_Syntax"
begin

text \<open>
  The channel to the emulator's services: \<open>hardware/qemu_pipe.h\<close> and \<open>hardware/qemud.h\<close>. A message is
  framed by its length in four hexadecimal digits. The kernel is the record \<open>qio\<close>: every call may answer
  differently each time, it gets the log of all events. A call interrupted by a signal is repeated; a run
  that is interrupted for ever, or that leaves its buffers, has the value None. A partial transfer is
  not continued: the call that made it reports a failure. A C string is the list of
  its characters without the final NUL, a buffer the list of all its bytes.
\<close>

subsection \<open>The environment\<close>

datatype qevent = QOpen string int | QConnect string int | QWrite int string int | QRead int nat string | QClose int

text \<open>\<open>io_write\<close> answers the result and \<open>errno\<close>, \<open>io_read\<close> the bytes delivered, or an \<open>errno\<close>.\<close>

record qio =
  io_open :: "qevent list \<Rightarrow> string \<Rightarrow> int \<times> int"
  io_connect :: "qevent list \<Rightarrow> string \<Rightarrow> int \<times> int"
  io_write :: "qevent list \<Rightarrow> int \<Rightarrow> string \<Rightarrow> int \<times> int"
  io_read :: "qevent list \<Rightarrow> int \<Rightarrow> nat \<Rightarrow> int + string"

record qstate =
  q_log :: "qevent list"
  q_errno :: int

definition q_EINTR :: int where "q_EINTR = 4"
definition q_EINVAL :: int where "q_EINVAL = 22"
definition q_ECONNRESET :: int where "q_ECONNRESET = 104"

definition q_add :: "qevent \<Rightarrow> qstate \<Rightarrow> qstate" where
  "q_add e s = s\<lparr>q_log := q_log s @ [e]\<rparr>"

definition q_fail :: "int \<Rightarrow> qstate \<Rightarrow> qstate" where
  "q_fail e s = s\<lparr>q_errno := e\<rparr>"

text \<open>The bytes of a buffer that a call with a length reads; a length of \<open>int\<close> becomes a \<open>size_t\<close>.\<close>

definition buffer_part :: "string \<Rightarrow> int \<Rightarrow> string option" where
  "buffer_part buff len = (if 0 \<le> len \<and> len \<le> int (length buff) then Some (take (nat len) buff) else None)"

definition to_size_t :: "int \<Rightarrow> nat" where
  "to_size_t len = nat (len mod 2 ^ 64)"

subsection \<open>The calls repeated on interruption\<close>

partial_function (option) write_loop :: "qio \<Rightarrow> int \<Rightarrow> string \<Rightarrow> qstate \<Rightarrow> (int \<times> qstate) option" where
  "write_loop io fd bytes s = (let (len2, e) = io_write io (q_log s) fd bytes;
       s = q_add (QWrite fd bytes len2) s; s = (if len2 < 0 then q_fail e s else s)
     in if len2 < 0 \<and> q_errno s = q_EINTR then write_loop io fd bytes s else Some (len2, s))"

definition qemud_fd_write :: "qio \<Rightarrow> int \<Rightarrow> string \<Rightarrow> int \<Rightarrow> qstate \<Rightarrow> (int \<times> qstate) option" where
  "qemud_fd_write io fd buff len s = do { bytes \<leftarrow> buffer_part buff len; write_loop io fd bytes s }"

text \<open>\<open>TEMP_FAILURE_RETRY\<close> repeats on the result -1 only.\<close>

partial_function (option) retry_write :: "qio \<Rightarrow> int \<Rightarrow> string \<Rightarrow> qstate \<Rightarrow> (int \<times> qstate) option" where
  "retry_write io fd bytes s = (let (r, e) = io_write io (q_log s) fd bytes;
       s = q_add (QWrite fd bytes r) s; s = (if r < 0 then q_fail e s else s)
     in if r = - 1 \<and> q_errno s = q_EINTR then retry_write io fd bytes s else Some (r, s))"

text \<open>A read stores what is delivered in a buffer of \<open>cap\<close> bytes.\<close>

partial_function (option) qemud_fd_read :: "qio \<Rightarrow> int \<Rightarrow> nat \<Rightarrow> int \<Rightarrow> qstate \<Rightarrow> (int \<times> string \<times> qstate) option" where
  "qemud_fd_read io fd cap len s = (case io_read io (q_log s) fd (to_size_t len) of
       Inr data \<Rightarrow> if length data \<le> cap then Some (int (length data), data, q_add (QRead fd (to_size_t len) data) s) else None
     | Inl e \<Rightarrow> (let s = q_fail e (q_add (QRead fd (to_size_t len) []) s) in
         if q_errno s = q_EINTR then qemud_fd_read io fd cap len s else Some (- 1, [], s)))"

subsection \<open>Opening\<close>

text \<open>\<open>snprintf\<close> into an array keeps all but one of its bytes for the characters.\<close>

definition snprintf :: "nat \<Rightarrow> string \<Rightarrow> string" where
  "snprintf n text = take (n - 1) text"

definition qemu_pipe_open :: "qio \<Rightarrow> string option \<Rightarrow> qstate \<Rightarrow> (int \<times> qstate) option" where
  "qemu_pipe_open io pipeName s = (case pipeName of
     None \<Rightarrow> Some (- 1, q_fail q_EINVAL s)
   | Some name \<Rightarrow>
       if name = [] then Some (- 1, q_fail q_EINVAL s)
       else (let buff = snprintf 256 (''pipe:'' @ name); (fd, e) = io_open io (q_log s) ''/dev/qemu_pipe'';
           s = q_add (QOpen ''/dev/qemu_pipe'' fd) s in
         if fd < 0 then Some (- 1, q_fail e s)
         else do {
           let buffLen = length buff;
           (ret, s) \<leftarrow> retry_write io fd (buff @ [CHR 0x00]) s;
           if ret \<noteq> int buffLen + 1 then
             Some (- 1, if ret = 0 then q_fail q_ECONNRESET s else if ret > 0 then q_fail q_EINVAL s else s)
           else Some (fd, s)
         }))"

definition q_close :: "int \<Rightarrow> qstate \<Rightarrow> qstate" where
  "q_close fd s = q_add (QClose fd) s"

definition qemud_channel_open :: "qio \<Rightarrow> string \<Rightarrow> qstate \<Rightarrow> (int \<times> qstate) option" where
  "qemud_channel_open io name s = do {
     let namelen = int (length name);
     let pipe_name = snprintf 256 (''qemud:'' @ name);
     (fd, s) \<leftarrow> qemu_pipe_open io (Some pipe_name) s;
     if fd < 0 then do {
       let (fd, e) = io_connect io (q_log s) ''qemud'';
       let s = q_add (QConnect ''qemud'' fd) s;
       if fd < 0 then Some (- 1, q_fail e s)
       else do {
         (n, s) \<leftarrow> qemud_fd_write io fd name namelen s;
         if n \<noteq> namelen then Some (- 1, q_close fd s)
         else do {
           (n, answer, s) \<leftarrow> qemud_fd_read io fd 2 2 s;
           if n \<noteq> 2 \<or> answer ! 0 \<noteq> CHR ''O'' \<or> answer ! 1 \<noteq> CHR ''K'' then Some (- 1, q_close fd s)
           else Some (fd, s)
         }
       }
     }
     else Some (fd, s)
   }"

subsection \<open>Messages\<close>

definition hex_digit :: "nat \<Rightarrow> char" where
  "hex_digit d = ''0123456789abcdef'' ! d"

fun hex_digits :: "nat \<Rightarrow> string" where
  "hex_digits n = (if n < 16 then [hex_digit n] else hex_digits (n div 16) @ [hex_digit (n mod 16)])"

declare hex_digits.simps [simp del]

text \<open>\<open>snprintf(header, sizeof header, "%04x", msglen)\<close>.\<close>

definition print_04x :: "nat \<Rightarrow> string" where
  "print_04x n = replicate (4 - length (hex_digits n)) (CHR ''0'') @ hex_digits n"

definition header_of :: "int \<Rightarrow> string" where
  "header_of msglen = snprintf 5 (print_04x (nat (msglen mod 2 ^ 32)))"

definition hex_value :: "char \<Rightarrow> nat option" where
  "hex_value = map_of (zip ''0123456789abcdefABCDEF'' ([0..<16] @ [10..<16]))"

definition is_space :: "char \<Rightarrow> bool" where
  "is_space c \<longleftrightarrow> c \<in> set [CHR '' '', CHR 0x09, CHR 0x0A, CHR 0x0B, CHR 0x0C, CHR 0x0D]"

text \<open>\<open>sscanf(header, "%04x", &size)\<close>: blanks, a sign, the prefix of a hexadecimal number, digits; all in
  the four characters of the header. The unsigned result is stored in an \<open>int\<close>.\<close>

definition scan_sign :: "string \<Rightarrow> int \<times> string" where
  "scan_sign t = (case t of c # u \<Rightarrow> if c = CHR ''-'' then (- 1, u) else if c = CHR ''+'' then (1, u) else (1, t) | [] \<Rightarrow> (1, t))"

definition scan_prefix :: "string \<Rightarrow> string" where
  "scan_prefix t = (case t of a # b # u \<Rightarrow> if a = CHR ''0'' \<and> (b = CHR ''x'' \<or> b = CHR ''X'') then u else t | _ \<Rightarrow> t)"

definition scan_digits :: "string \<Rightarrow> nat list" where
  "scan_digits t = map (the \<circ> hex_value) (takeWhile (\<lambda>c. hex_value c \<noteq> None) t)"

definition hex_number :: "nat list \<Rightarrow> nat" where
  "hex_number ds = foldl (\<lambda>n d. 16 * n + d) 0 ds"

definition scan_04x :: "string \<Rightarrow> int option" where
  "scan_04x header = (let t = dropWhile is_space (takeWhile (\<lambda>c. c \<noteq> CHR 0x00) header); (sg, t) = scan_sign t;
       ds = scan_digits (scan_prefix t)
     in if ds = [] then None else Some (sg * int (hex_number ds)))"

definition c_strlen :: "string \<Rightarrow> int option" where
  "c_strlen buff = (if CHR 0x00 \<in> set buff then Some (int (length (takeWhile (\<lambda>c. c \<noteq> CHR 0x00) buff))) else None)"

definition qemud_channel_send :: "qio \<Rightarrow> int \<Rightarrow> string \<Rightarrow> int \<Rightarrow> qstate \<Rightarrow> (int \<times> qstate) option" where
  "qemud_channel_send io fd msg msglen s = do {
     msglen \<leftarrow> (if msglen < 0 then c_strlen msg else Some msglen);
     if msglen = 0 then Some (0, s)
     else do {
       (n, s) \<leftarrow> qemud_fd_write io fd (header_of msglen @ [CHR 0x00]) 4 s;
       if n \<noteq> 4 then Some (- 1, s)
       else do {
         (n, s) \<leftarrow> qemud_fd_write io fd msg msglen s;
         if n \<noteq> msglen then Some (- 1, s) else Some (0, s)
       }
     }
   }"

text \<open>The result, what was stored at the start of the buffer of \<open>cap\<close> bytes, the state.\<close>

definition qemud_channel_recv :: "qio \<Rightarrow> int \<Rightarrow> nat \<Rightarrow> int \<Rightarrow> qstate \<Rightarrow> (int \<times> string \<times> qstate) option" where
  "qemud_channel_recv io fd cap msgsize s = do {
     (n, header, s) \<leftarrow> qemud_fd_read io fd 5 4 s;
     if n \<noteq> 4 then Some (- 1, [], s)
     else (case scan_04x header of
         None \<Rightarrow> Some (- 1, [], s)
       | Some sz \<Rightarrow>
           if sz > msgsize then Some (- 1, [], s)
           else do {
             (n, data, s) \<leftarrow> qemud_fd_read io fd cap sz s;
             if n \<noteq> sz then Some (- 1, data, s) else Some (sz, data, s)
           })
   }"

subsection \<open>The header\<close>

lemma hex_digit_table:
  assumes "d < 16"
  shows "hex_value (hex_digit d) = Some d \<and> \<not> is_space (hex_digit d) \<and>
    hex_digit d \<notin> {CHR 0x00, CHR ''-'', CHR ''+'', CHR ''x'', CHR ''X''}"
proof -
  have "list_all (\<lambda>d. hex_value (hex_digit d) = Some d \<and> \<not> is_space (hex_digit d) \<and>
    hex_digit d \<notin> {CHR 0x00, CHR ''-'', CHR ''+'', CHR ''x'', CHR ''X''}) [0..<16]"
    by (simp add: hex_value_def hex_digit_def is_space_def upt_rec)
  then show ?thesis using assms by (simp only: list_all_iff) simp
qed

lemma scan_hex_digits:
  assumes "\<forall>d \<in> set ds. d < 16" "ds \<noteq> []"
  shows "scan_04x (map hex_digit ds) = Some (int (hex_number ds))"
proof -
  note t = hex_digit_table [OF assms(1) [rule_format]]
  have 1: "takeWhile (\<lambda>c. c \<noteq> CHR 0x00) (map hex_digit ds) = map hex_digit ds" using t by (auto simp: takeWhile_eq_all_conv)
  have 2: "dropWhile is_space (map hex_digit ds) = map hex_digit ds" using t assms(2) by (cases ds) auto
  have 3: "scan_sign (map hex_digit ds) = (1, map hex_digit ds)" using t assms(2) by (cases ds) (auto simp: scan_sign_def)
  have 4: "scan_prefix (map hex_digit ds) = map hex_digit ds" using t by (auto simp: scan_prefix_def split: list.split)
  have 5: "scan_digits (map hex_digit ds) = ds"
    using t by (simp add: scan_digits_def takeWhile_eq_all_conv [THEN iffD2] comp_def map_idI)
  show ?thesis by (simp add: scan_04x_def 1 2 3 4 5 assms(2))
qed

lemma print_04x_four:
  assumes "n < 65536"
  shows "print_04x n = map hex_digit [n div 4096, n div 256 mod 16, n div 16 mod 16, n mod 16]"
proof -
  have z: "CHR ''0'' = hex_digit 0" by (simp add: hex_digit_def)
  have d: "n div 16 div 16 = n div 256" "n div 256 div 16 = n div 4096" by (simp_all add: div_mult2_eq [symmetric])
  consider "n < 16" | "16 \<le> n" "n < 256" | "256 \<le> n" "n < 4096" | "4096 \<le> n" by linarith
  then show ?thesis
  proof cases
    case 1
    then show ?thesis by (simp add: print_04x_def hex_digits.simps [of n] z numeral_3_eq_3)
  next
    case 2
    then have "n div 16 < 16" by simp
    then show ?thesis using 2 by (simp add: print_04x_def hex_digits.simps [of n] hex_digits.simps [of "n div 16"] z numeral_2_eq_2)
  next
    case 3
    then have "n div 256 < 16" "\<not> n div 16 < 16" by simp_all
    then show ?thesis using 3
      by (simp add: print_04x_def hex_digits.simps [of n] hex_digits.simps [of "n div 16"] hex_digits.simps [of "n div 256"] d z)
  next
    case 4
    then have "n div 4096 < 16" "\<not> n div 16 < 16" "\<not> n div 256 < 16" using assms by simp_all
    then show ?thesis using 4
      by (simp add: print_04x_def hex_digits.simps [of n] hex_digits.simps [of "n div 16"] hex_digits.simps [of "n div 256"]
          hex_digits.simps [of "n div 4096"] d)
  qed
qed

lemma hex_number_four: "hex_number [n div 4096, n div 256 mod 16, n div 16 mod 16, n mod 16] = n"
proof -
  have "16 * (n div 4096) + n div 256 mod 16 = n div 256"
    using div_mult_mod_eq [of "n div 256" 16] by (simp add: div_mult2_eq [symmetric])
  moreover have "16 * (n div 256) + n div 16 mod 16 = n div 16"
    using div_mult_mod_eq [of "n div 16" 16] by (simp add: div_mult2_eq [symmetric])
  moreover have "16 * (n div 16) + n mod 16 = n" using div_mult_mod_eq [of n 16] by simp
  ultimately show ?thesis by (simp add: hex_number_def)
qed

lemma header_round_trip:
  assumes "n < 65536"
  shows "length (header_of (int n)) = 4" "scan_04x (header_of (int n)) = Some (int n)"
proof -
  have h: "header_of (int n) = print_04x n"
    using assms by (simp add: header_of_def snprintf_def print_04x_four nat_mod_as_int)
  then show "length (header_of (int n)) = 4" by (simp add: print_04x_four assms)
  have "\<forall>d \<in> set [n div 4096, n div 256 mod 16, n div 16 mod 16, n mod 16]. d < 16" using assms by simp
  then show "scan_04x (header_of (int n)) = Some (int n)"
    unfolding h print_04x_four [OF assms] by (subst scan_hex_digits) (simp_all only: hex_number_four list.distinct not_False_eq_True)
qed

text \<open>A length that needs five digits loses the last one.\<close>

lemma header_truncated:
  assumes "65536 \<le> n" "n < 2 ^ 20"
  shows "header_of (int n) = header_of (int (n div 16))"
proof -
  have "hex_digits n = hex_digits (n div 16) @ [hex_digit (n mod 16)]" using assms(1) by (subst hex_digits.simps) simp
  moreover have b: "n div 16 < 65536" "4096 \<le> n div 16" using assms by simp_all
  then have "length (print_04x (n div 16)) = 4" by (simp add: print_04x_four)
  moreover have "length (hex_digits (n div 16)) = 4"
  proof -
    define k where "k = n div 16"
    then have "4096 \<le> k" "k < 65536" using b by (simp_all add: k_def)
    then have "\<not> k < 16" "\<not> k div 16 < 16" "\<not> k div 16 div 16 < 16" "k div 16 div 16 div 16 < 16" by simp_all
    then have "length (hex_digits k) = 4"
      by (simp add: hex_digits.simps [of k] hex_digits.simps [of "k div 16"] hex_digits.simps [of "k div 16 div 16"]
          hex_digits.simps [of "k div 16 div 16 div 16"] del: div_mult2_eq)
    then show ?thesis by (simp add: k_def)
  qed
  ultimately show ?thesis using assms by (simp add: header_of_def snprintf_def print_04x_def)
qed

subsection \<open>A peer\<close>

text \<open>What a log says was written to and delivered from a descriptor.\<close>

definition sent :: "int \<Rightarrow> qevent list \<Rightarrow> string" where
  "sent fd log = concat (map (\<lambda>e. case e of QWrite f b r \<Rightarrow> if f = fd \<and> 0 \<le> r then take (nat r) b else [] | _ \<Rightarrow> []) log)"

definition got :: "int \<Rightarrow> qevent list \<Rightarrow> string" where
  "got fd log = concat (map (\<lambda>e. case e of QRead f n d \<Rightarrow> if f = fd then d else [] | _ \<Rightarrow> []) log)"

text \<open>A reader of a byte stream may deliver fewer bytes than asked for, or fail; what it delivers are the
  next bytes. A good writer takes all it is given, a good reader delivers what is asked for as long as
  the stream lasts; both may first be interrupted a finite number of times.\<close>

definition stream_reader :: "qio \<Rightarrow> int \<Rightarrow> string \<Rightarrow> bool" where
  "stream_reader io fd S \<longleftrightarrow> (\<forall>h n d. io_read io h fd n = Inr d \<longrightarrow>
     length d \<le> n \<and> d = take (length d) (drop (length (got fd h)) S))"

definition good_writer :: "qio \<Rightarrow> int \<Rightarrow> bool" where
  "good_writer io fd \<longleftrightarrow> (\<forall>h b. \<exists>k e.
     (\<forall>i < k. io_write io (h @ replicate i (QWrite fd b (- 1))) fd b = (- 1, q_EINTR)) \<and>
     io_write io (h @ replicate k (QWrite fd b (- 1))) fd b = (int (length b), e))"

definition good_reader :: "qio \<Rightarrow> int \<Rightarrow> string \<Rightarrow> bool" where
  "good_reader io fd S \<longleftrightarrow> (\<forall>h n. \<exists>k.
     (\<forall>i < k. io_read io (h @ replicate i (QRead fd n [])) fd n = Inl q_EINTR) \<and>
     io_read io (h @ replicate k (QRead fd n [])) fd n = Inr (take n (drop (length (got fd h)) S)))"

lemma sent_simps [simp]: "sent fd (xs @ ys) = sent fd xs @ sent fd ys" "sent fd [] = []"
  "sent fd (replicate k (QWrite fd b (- 1))) = []" "sent fd [QWrite fd b (int n)] = take n b"
  by (simp_all add: sent_def)

lemma got_simps [simp]: "got fd (xs @ ys) = got fd xs @ got fd ys" "got fd [] = []"
  "got fd (replicate k (QRead fd n [])) = []" "got fd [QRead fd n d] = d"
  by (simp_all add: got_def)

lemma write_loop_interrupted:
  assumes "\<forall>i < k. io_write io (q_log s @ replicate i (QWrite fd b (- 1))) fd b = (- 1, q_EINTR)"
    and "io_write io (q_log s @ replicate k (QWrite fd b (- 1))) fd b = (int (length b), e)"
  shows "\<exists>s'. write_loop io fd b s = Some (int (length b), s') \<and>
    q_log s' = q_log s @ replicate k (QWrite fd b (- 1)) @ [QWrite fd b (int (length b))]"
  using assms
proof (induction k arbitrary: s)
  case 0
  then show ?case by (subst write_loop.simps) (simp add: q_add_def)
next
  case (Suc k)
  let ?s = "q_fail q_EINTR (q_add (QWrite fd b (- 1)) s)"
  have l: "q_log ?s = q_log s @ [QWrite fd b (- 1)]" by (simp add: q_fail_def q_add_def)
  have "\<forall>i < k. io_write io (q_log ?s @ replicate i (QWrite fd b (- 1))) fd b = (- 1, q_EINTR)"
    using Suc.prems(1) [rule_format, of "Suc i" for i] unfolding l by simp
  then have "\<exists>s'. write_loop io fd b ?s = Some (int (length b), s') \<and>
    q_log s' = q_log ?s @ replicate k (QWrite fd b (- 1)) @ [QWrite fd b (int (length b))]"
    by (rule Suc.IH) (use Suc.prems(2) in \<open>simp add: l\<close>)
  moreover have "write_loop io fd b s = write_loop io fd b ?s"
    using Suc.prems(1) [rule_format, of 0] by (subst write_loop.simps) (simp add: q_fail_def)
  ultimately show ?case by (simp add: l)
qed

lemma write_good:
  assumes "good_writer io fd" "0 \<le> len" "len \<le> int (length buff)"
  shows "\<exists>s'. qemud_fd_write io fd buff len s = Some (len, s') \<and> sent fd (q_log s') = sent fd (q_log s) @ take (nat len) buff"
proof -
  let ?b = "take (nat len) buff"
  have b: "int (length ?b) = len" using assms(2,3) by simp
  obtain k e where "\<forall>i < k. io_write io (q_log s @ replicate i (QWrite fd ?b (- 1))) fd ?b = (- 1, q_EINTR)"
    "io_write io (q_log s @ replicate k (QWrite fd ?b (- 1))) fd ?b = (int (length ?b), e)"
    using assms(1) unfolding good_writer_def by blast
  from write_loop_interrupted [OF this] obtain s' where s': "write_loop io fd ?b s = Some (int (length ?b), s')"
    "q_log s' = q_log s @ replicate k (QWrite fd ?b (- 1)) @ [QWrite fd ?b (int (length ?b))]" by blast
  have "sent fd (q_log s') = sent fd (q_log s) @ ?b" unfolding s'(2) sent_simps using assms(3) by (simp add: min_absorb2 nat_le_iff)
  then show ?thesis using s'(1) assms(2,3) unfolding b by (simp add: qemud_fd_write_def buffer_part_def)
qed

lemma read_interrupted:
  assumes "\<forall>i < k. io_read io (q_log s @ replicate i (QRead fd (to_size_t len) [])) fd (to_size_t len) = Inl q_EINTR"
    and "io_read io (q_log s @ replicate k (QRead fd (to_size_t len) [])) fd (to_size_t len) = Inr d"
  shows "if length d \<le> cap then \<exists>s'. qemud_fd_read io fd cap len s = Some (int (length d), d, s') \<and>
      q_log s' = q_log s @ replicate k (QRead fd (to_size_t len) []) @ [QRead fd (to_size_t len) d]
    else qemud_fd_read io fd cap len s = None"
  using assms
proof (induction k arbitrary: s)
  case 0
  then show ?case by (subst (1 2) qemud_fd_read.simps) (simp add: q_add_def)
next
  case (Suc k)
  let ?e = "QRead fd (to_size_t len) []"
  let ?s = "q_fail q_EINTR (q_add ?e s)"
  have l: "q_log ?s = q_log s @ [?e]" by (simp add: q_fail_def q_add_def)
  have "\<forall>i < k. io_read io (q_log ?s @ replicate i ?e) fd (to_size_t len) = Inl q_EINTR"
    using Suc.prems(1) [rule_format, of "Suc i" for i] unfolding l by simp
  then have "if length d \<le> cap then \<exists>s'. qemud_fd_read io fd cap len ?s = Some (int (length d), d, s') \<and>
      q_log s' = q_log ?s @ replicate k ?e @ [QRead fd (to_size_t len) d]
    else qemud_fd_read io fd cap len ?s = None"
    by (rule Suc.IH) (use Suc.prems(2) in \<open>simp add: l\<close>)
  moreover have "qemud_fd_read io fd cap len s = qemud_fd_read io fd cap len ?s"
    using Suc.prems(1) [rule_format, of 0] by (subst qemud_fd_read.simps) (simp add: q_fail_def Let_def)
  ultimately show ?case by (cases "length d \<le> cap") (simp_all add: l)
qed

lemma read_good:
  assumes "good_reader io fd S" and d_def: "d = take (to_size_t len) (drop (length (got fd (q_log s))) S)"
  shows "length d \<le> cap \<Longrightarrow> \<exists>s'. qemud_fd_read io fd cap len s = Some (int (length d), d, s') \<and>
      got fd (q_log s') = got fd (q_log s) @ d"
    and "cap < length d \<Longrightarrow> qemud_fd_read io fd cap len s = None"
proof -
  obtain k where k: "\<forall>i < k. io_read io (q_log s @ replicate i (QRead fd (to_size_t len) [])) fd (to_size_t len) = Inl q_EINTR"
    "io_read io (q_log s @ replicate k (QRead fd (to_size_t len) [])) fd (to_size_t len) = Inr d"
    using assms(1) unfolding good_reader_def d_def by blast
  note r = read_interrupted [OF this, of cap]
  show "\<exists>s'. qemud_fd_read io fd cap len s = Some (int (length d), d, s') \<and> got fd (q_log s') = got fd (q_log s) @ d"
    if "length d \<le> cap"
  proof -
    from r that obtain s' where "qemud_fd_read io fd cap len s = Some (int (length d), d, s')"
      "q_log s' = q_log s @ replicate k (QRead fd (to_size_t len) []) @ [QRead fd (to_size_t len) d]" by auto
    then show ?thesis by simp
  qed
  show "qemud_fd_read io fd cap len s = None" if "cap < length d" using r that by simp
qed

text \<open>What a call that returns has done, whatever the kernel answered on the way.\<close>

lemma sent_write: "sent fd [QWrite fd b r] = (if 0 \<le> r then take (nat r) b else [])"
  by (simp add: sent_def)

lemma write_result:
  assumes "write_loop io fd b s = Some r"
  shows "sent fd (q_log (snd r)) = sent fd (q_log s) @ (if 0 \<le> fst r then take (nat (fst r)) b else [])"
proof (rule write_loop.raw_induct [where P = "\<lambda>io fd b s r. sent fd (q_log (snd r)) =
    sent fd (q_log s) @ (if 0 \<le> fst r then take (nat (fst r)) b else [])", OF _ assms])
  fix rec io fd b s r
  assume IH: "\<And>io fd b s r. rec io fd b s = Some r \<Longrightarrow> sent fd (q_log (snd r)) =
      sent fd (q_log s) @ (if 0 \<le> fst r then take (nat (fst r)) b else [])"
    and run: "(let (len2, e) = io_write io (q_log s) fd b; s = q_add (QWrite fd b len2) s; s = (if len2 < 0 then q_fail e s else s)
      in if len2 < 0 \<and> q_errno s = q_EINTR then rec io fd b s else Some (len2, s)) = Some r"
  obtain len2 e where w: "io_write io (q_log s) fd b = (len2, e)" by (metis surj_pair)
  let ?s = "if len2 < 0 then q_fail e (q_add (QWrite fd b len2) s) else q_add (QWrite fd b len2) s"
  have l: "sent fd (q_log ?s) = sent fd (q_log s) @ (if 0 \<le> len2 then take (nat len2) b else [])"
    by (simp add: q_add_def q_fail_def sent_write)
  show "sent fd (q_log (snd r)) = sent fd (q_log s) @ (if 0 \<le> fst r then take (nat (fst r)) b else [])"
  proof (cases "len2 < 0 \<and> q_errno ?s = q_EINTR")
    case True
    then have "rec io fd b ?s = Some r" using run by (auto simp: w Let_def)
    from IH [OF this] l True show ?thesis by simp
  next
    case False
    then have "r = (len2, ?s)" using run by (simp only: w Let_def prod.case if_False option.inject)
    then show ?thesis using l by simp
  qed
qed

lemma fd_write_result:
  assumes "qemud_fd_write io fd b n s = Some (n, s')"
  shows "sent fd (q_log s') = sent fd (q_log s) @ take (nat n) b"
  using assms write_result [of io fd "take (nat n) b" s "(n, s')"]
  by (auto simp: qemud_fd_write_def buffer_part_def split: if_splits)

lemma read_result:
  assumes "qemud_fd_read io fd cap len s = Some r"
  shows "stream_reader io fd S \<longrightarrow> (fst r = - 1 \<or> fst r = int (length (fst (snd r)))) \<and>
    fst (snd r) = take (length (fst (snd r))) (drop (length (got fd (q_log s))) S) \<and>
    got fd (q_log (snd (snd r))) = got fd (q_log s) @ fst (snd r)"
proof (rule qemud_fd_read.raw_induct [where P = "\<lambda>io fd cap len s r. stream_reader io fd S \<longrightarrow>
    (fst r = - 1 \<or> fst r = int (length (fst (snd r)))) \<and>
    fst (snd r) = take (length (fst (snd r))) (drop (length (got fd (q_log s))) S) \<and>
    got fd (q_log (snd (snd r))) = got fd (q_log s) @ fst (snd r)", OF _ assms])
  fix rec io fd cap len s r
  assume IH: "\<And>io fd cap len s r. rec io fd cap len s = Some r \<Longrightarrow> stream_reader io fd S \<longrightarrow>
      (fst r = - 1 \<or> fst r = int (length (fst (snd r)))) \<and>
      fst (snd r) = take (length (fst (snd r))) (drop (length (got fd (q_log s))) S) \<and>
      got fd (q_log (snd (snd r))) = got fd (q_log s) @ fst (snd r)"
    and run: "(case io_read io (q_log s) fd (to_size_t len) of
       Inr data \<Rightarrow> if length data \<le> cap then Some (int (length data), data, q_add (QRead fd (to_size_t len) data) s) else None
     | Inl e \<Rightarrow> (let s = q_fail e (q_add (QRead fd (to_size_t len) []) s) in
         if q_errno s = q_EINTR then rec io fd cap len s else Some (- 1, [], s))) = Some r"
  show "stream_reader io fd S \<longrightarrow> (fst r = - 1 \<or> fst r = int (length (fst (snd r)))) \<and>
      fst (snd r) = take (length (fst (snd r))) (drop (length (got fd (q_log s))) S) \<and>
      got fd (q_log (snd (snd r))) = got fd (q_log s) @ fst (snd r)"
  proof (cases "io_read io (q_log s) fd (to_size_t len)")
    case (Inl e)
    let ?s = "q_fail e (q_add (QRead fd (to_size_t len) []) s)"
    have l: "got fd (q_log ?s) = got fd (q_log s)" by (simp add: q_add_def q_fail_def)
    show ?thesis
    proof (cases "q_errno ?s = q_EINTR")
      case True
      then have "rec io fd cap len ?s = Some r" using run Inl by simp
      from IH [OF this] l show ?thesis by simp
    next
      case False
      then have "r = (- 1, [], ?s)" using run Inl by (simp add: Let_def)
      then show ?thesis using l by simp
    qed
  next
    case (Inr d)
    then have "r = (int (length d), d, q_add (QRead fd (to_size_t len) d) s)" using run by (simp split: if_splits)
    then show ?thesis using Inr unfolding stream_reader_def by (auto simp: q_add_def)
  qed
qed

lemma fd_read_result:
  assumes "qemud_fd_read io fd cap len s = Some (n, d, s')" "stream_reader io fd S" "n = int k"
  shows "d = take k (drop (length (got fd (q_log s))) S) \<and> length d = k \<and> got fd (q_log s') = got fd (q_log s) @ d"
  using read_result [OF assms(1), of S] assms(2,3) by auto

subsection \<open>Frames\<close>

definition frame :: "string \<Rightarrow> string" where
  "frame m = header_of (int (length m)) @ m"

text \<open>Sending works for any header of four characters.\<close>

lemma send_bytes:
  assumes "good_writer io fd" "m \<noteq> []" "length (header_of (int (length m))) = 4"
  shows "\<exists>s'. qemud_channel_send io fd m (int (length m)) s = Some (0, s') \<and> sent fd (q_log s') = sent fd (q_log s) @ frame m"
proof -
  let ?h = "header_of (int (length m))"
  obtain s1 where 1: "qemud_fd_write io fd (?h @ [CHR 0x00]) 4 s = Some (4, s1)" "sent fd (q_log s1) = sent fd (q_log s) @ ?h"
    using write_good [OF assms(1), of 4 "?h @ [CHR 0x00]" s] assms(3) by auto
  obtain s2 where 2: "qemud_fd_write io fd m (int (length m)) s1 = Some (int (length m), s2)" "sent fd (q_log s2) = sent fd (q_log s1) @ m"
    using write_good [OF assms(1), of "int (length m)" m s1] by auto
  show ?thesis using 1 2 assms(2) by (simp add: qemud_channel_send_def frame_def)
qed

text \<open>Receiving from a stream that goes on with a header of four characters.\<close>

lemma read_header:
  assumes "good_reader io fd S" "drop (length (got fd (q_log t))) S = h @ rest" "length h = 4"
  shows "\<exists>t1. qemud_fd_read io fd 5 4 t = Some (4, h, t1) \<and> got fd (q_log t1) = got fd (q_log t) @ h \<and>
    drop (length (got fd (q_log t1))) S = rest"
proof -
  have n: "to_size_t 4 = 4" by (simp add: to_size_t_def)
  obtain t1 where t1: "qemud_fd_read io fd 5 4 t = Some (4, h, t1)" "got fd (q_log t1) = got fd (q_log t) @ h"
    using read_good(1) [OF assms(1) refl, where len = 4 and s = t and cap = 5] assms(3) by (auto simp: n assms(2))
  have "drop (length (got fd (q_log t1))) S = drop 4 (drop (length (got fd (q_log t))) S)"
    using t1(2) assms(3) by (simp add: add.commute)
  then show ?thesis using t1 assms(2,3) by auto
qed

lemma receive_bytes:
  assumes "good_reader io fd S" "drop (length (got fd (q_log t))) S = h @ m @ rest" "length h = 4"
    and "scan_04x h = Some (int (length m))" "length m \<le> cap" "length m < 2 ^ 64"
  shows "\<exists>t'. qemud_channel_recv io fd cap (int cap) t = Some (int (length m), m, t') \<and>
    drop (length (got fd (q_log t'))) S = rest"
proof -
  obtain t1 where t1: "qemud_fd_read io fd 5 4 t = Some (4, h, t1)" "drop (length (got fd (q_log t1))) S = m @ rest"
    using read_header [OF assms(1-3)] by blast
  have n: "to_size_t (int (length m)) = length m" using assms(6) by (simp add: to_size_t_def nat_mod_as_int)
  obtain t2 where t2: "qemud_fd_read io fd cap (int (length m)) t1 = Some (int (length m), m, t2)" "got fd (q_log t2) = got fd (q_log t1) @ m"
    using read_good(1) [OF assms(1) refl, where len = "int (length m)" and s = t1 and cap = cap] assms(5) by (auto simp: n t1(2))
  have "drop (length (got fd (q_log t2))) S = drop (length m) (drop (length (got fd (q_log t1))) S)"
    using t2(2) by (simp add: add.commute)
  then show ?thesis using t1 t2(1) assms(4,5) by (simp add: qemud_channel_recv_def)
qed

fun send_all :: "qio \<Rightarrow> int \<Rightarrow> string list \<Rightarrow> qstate \<Rightarrow> qstate option" where
  "send_all io fd [] s = Some s"
| "send_all io fd (m # ms) s = do {
     (r, s) \<leftarrow> qemud_channel_send io fd m (int (length m)) s;
     if r = 0 then send_all io fd ms s else None }"

fun recv_all :: "qio \<Rightarrow> int \<Rightarrow> nat \<Rightarrow> nat \<Rightarrow> qstate \<Rightarrow> (string list \<times> qstate) option" where
  "recv_all io fd cap 0 t = Some ([], t)"
| "recv_all io fd cap (Suc n) t = do {
     (r, data, t) \<leftarrow> qemud_channel_recv io fd cap (int cap) t;
     if r < 0 then None else do { (ms, t) \<leftarrow> recv_all io fd cap n t; Some (take (nat r) data # ms, t) } }"

lemma send_all_frames:
  assumes "good_writer io fd" "\<forall>m \<in> set msgs. m \<noteq> [] \<and> length m < 65536"
  shows "\<exists>s'. send_all io fd msgs s = Some s' \<and> sent fd (q_log s') = sent fd (q_log s) @ concat (map frame msgs)"
  using assms(2)
proof (induction msgs arbitrary: s)
  case (Cons m ms)
  then obtain s1 where s1: "qemud_channel_send io fd m (int (length m)) s = Some (0, s1)" "sent fd (q_log s1) = sent fd (q_log s) @ frame m"
    using send_bytes [OF assms(1), of m s] header_round_trip(1) [of "length m"] by auto
  then show ?case using Cons.IH [of s1] Cons.prems by auto
qed simp

lemma recv_all_frames:
  assumes "good_reader io fd S" "\<forall>m \<in> set msgs. length m < 65536 \<and> length m \<le> cap"
    and "drop (length (got fd (q_log t))) S = concat (map frame msgs) @ rest"
  shows "\<exists>t'. recv_all io fd cap (length msgs) t = Some (msgs, t')"
  using assms(2,3)
proof (induction msgs arbitrary: t)
  case (Cons m ms)
  then have m: "length m < 65536" "length m \<le> cap" by simp_all
  have "drop (length (got fd (q_log t))) S = header_of (int (length m)) @ m @ concat (map frame ms) @ rest"
    using Cons.prems(2) by (simp add: frame_def [of m])
  from receive_bytes [OF assms(1) this header_round_trip [OF m(1)] m(2)] m(1)
  obtain t1 where t1: "qemud_channel_recv io fd cap (int cap) t = Some (int (length m), m, t1)"
    "drop (length (got fd (q_log t1))) S = concat (map frame ms) @ rest" by auto
  then show ?case using Cons.IH [of t1] Cons.prems(1) by auto
qed simp

text \<open>Whatever the writer and the reader do, calls that succeed have transferred the messages.\<close>

lemma send_all_sound:
  "send_all io fd msgs s = Some s' \<Longrightarrow> \<forall>m \<in> set msgs. m \<noteq> [] \<and> length m < 65536 \<Longrightarrow>
    sent fd (q_log s') = sent fd (q_log s) @ concat (map frame msgs)"
proof (induction msgs arbitrary: s)
  case (Cons m ms)
  let ?h = "header_of (int (length m))"
  have h: "length ?h = 4" using Cons.prems(2) by (simp add: header_round_trip(1))
  obtain s1 s2 where 1: "qemud_fd_write io fd (?h @ [CHR 0x00]) 4 s = Some (4, s1)"
    and 2: "qemud_fd_write io fd m (int (length m)) s1 = Some (int (length m), s2)" "send_all io fd ms s2 = Some s'"
    using Cons.prems by (auto simp: qemud_channel_send_def Option.bind_eq_Some_conv split: if_splits)
  have "sent fd (q_log s2) = sent fd (q_log s) @ frame m"
    using fd_write_result [OF 1] fd_write_result [OF 2(1)] h by (simp add: frame_def)
  then show ?case using Cons.IH [OF 2(2)] Cons.prems(2) by simp
qed simp

lemma recv_all_sound:
  assumes r: "stream_reader io fd S"
  shows "recv_all io fd cap (length msgs) t = Some (ms, t') \<Longrightarrow> \<forall>m \<in> set msgs. length m < 65536 \<Longrightarrow>
    drop (length (got fd (q_log t))) S = concat (map frame msgs) @ rest \<Longrightarrow> ms = msgs"
proof (induction msgs arbitrary: t ms)
  case (Cons m msgs)
  have m: "length m < 65536" using Cons.prems(2) by simp
  let ?h = "header_of (int (length m))"
  note h = header_round_trip [OF m]
  have S: "drop (length (got fd (q_log t))) S = ?h @ m @ concat (map frame msgs) @ rest"
    using Cons.prems(3) by (simp add: frame_def [of m])
  obtain k d t2 ms2 where c: "qemud_channel_recv io fd cap (int cap) t = Some (k, d, t2)" "\<not> k < 0"
      "recv_all io fd cap (length msgs) t2 = Some (ms2, t')" "ms = take (nat k) d # ms2"
    using Cons.prems(1) by (auto simp: Option.bind_eq_Some_conv split: if_splits)
  obtain hd t1 where hd: "qemud_fd_read io fd 5 4 t = Some (4, hd, t1)" and rest: "(case scan_04x hd of
         None \<Rightarrow> Some (- 1, [], t1)
       | Some sz \<Rightarrow> if sz > int cap then Some (- 1, [], t1)
           else do { (n, data, s) \<leftarrow> qemud_fd_read io fd cap sz t1;
             if n \<noteq> sz then Some (- 1, data, s) else Some (sz, data, s) }) = Some (k, d, t2)"
    using c(1,2) by (auto simp: qemud_channel_recv_def Option.bind_eq_Some_conv split: if_splits)
  have h4: "hd = ?h" "got fd (q_log t1) = got fd (q_log t) @ ?h"
    using fd_read_result [OF hd r, of 4] S h(1) by simp_all
  have S1: "drop (length (got fd (q_log t1))) S = m @ concat (map frame msgs) @ rest"
  proof -
    have "drop (length (got fd (q_log t1))) S = drop 4 (drop (length (got fd (q_log t))) S)"
      using h(1) by (simp add: h4(2) add.commute)
    then show ?thesis using S h(1) by simp
  qed
  have rd: "qemud_fd_read io fd cap (int (length m)) t1 = Some (int (length m), d, t2)" "k = int (length m)"
    using rest c(2) by (auto simp: h4(1) h(2) Option.bind_eq_Some_conv split: if_splits)
  have d: "d = m" "got fd (q_log t2) = got fd (q_log t1) @ m"
    using fd_read_result [OF rd(1) r refl] S1 by auto
  have "drop (length (got fd (q_log t2))) S = drop (length m) (drop (length (got fd (q_log t1))) S)"
    by (simp add: d(2) add.commute)
  then have "drop (length (got fd (q_log t2))) S = concat (map frame msgs) @ rest" by (simp add: S1)
  from Cons.IH [OF c(3) _ this] Cons.prems(2) show ?case using c(4) d(1) rd(2) by simp
qed simp

text \<open>An uninterrupted writer and the reader of a stream, for the witnesses.\<close>

definition demo_io :: "string \<Rightarrow> qio" where
  "demo_io S = \<lparr>io_open = (\<lambda>h n. (3, 0)), io_connect = (\<lambda>h n. (3, 0)), io_write = (\<lambda>h fd b. (int (length b), 0)),
     io_read = (\<lambda>h fd n. Inr (take n (drop (length (got fd h)) S)))\<rparr>"

lemma demo_io_good: "good_writer (demo_io S) fd" "good_reader (demo_io S) fd S"
proof -
  show "good_writer (demo_io S) fd" unfolding good_writer_def by (intro allI exI [of _ "0 :: nat"]) (simp add: demo_io_def)
  show "good_reader (demo_io S) fd S" unfolding good_reader_def by (intro allI exI [of _ "0 :: nat"]) (simp add: demo_io_def)
qed

text \<open>A pipe whose service does not answer is reported as an error, but its descriptor is not closed.\<close>

lemma pipe_open_leaks:
  assumes "io_open io (q_log s) ''/dev/qemu_pipe'' = (fd, e)" "0 \<le> fd" "name \<noteq> []" and "\<And>h b. io_write io h fd b = (0, e')"
  shows "\<exists>s' b. qemu_pipe_open io (Some name) s = Some (- 1, s') \<and> q_errno s' = q_ECONNRESET \<and>
    q_log s' = q_log s @ [QOpen ''/dev/qemu_pipe'' fd, QWrite fd b 0]"
  using assms by (simp add: qemu_pipe_open_def q_add_def q_fail_def q_ECONNRESET_def retry_write.simps Let_def)

subsection \<open>Properties\<close>

text \<open>C24: Messages of 1 to 65535 bytes are sent one after the other, and a receiver reads what was written
  from a stream, with a buffer large enough. Whatever the kernel answers (interruptions, errors, partial
  transfers): if all sends report success, exactly the framed messages were written, in order; and if all
  receives report success, over any reader that delivers the next bytes of the stream but perhaps fewer
  than asked for, the messages received are the messages sent, in the same order, whatever follows on the stream. A call
  that transfers only a part of its bytes is not continued by the code, so it cannot report success then. Every call
  does succeed, however often the system calls are interrupted, when no transfer is partial and none
  fails otherwise (\<open>good_writer\<close>, \<open>good_reader\<close>).\<close>

theorem qemud_round_trip:
  assumes "\<forall>m \<in> set msgs. m \<noteq> [] \<and> length m < 65536 \<and> length m \<le> cap"
  shows "(\<forall>s'. send_all w fd msgs \<lparr>q_log = [], q_errno = e\<rparr> = Some s' \<longrightarrow>
      sent fd (q_log s') = concat (map frame msgs) \<and>
      (\<forall>r fd' rest e'.
        (stream_reader r fd' (sent fd (q_log s') @ rest) \<longrightarrow>
          (\<forall>ms t'. recv_all r fd' cap (length msgs) \<lparr>q_log = [], q_errno = e'\<rparr> = Some (ms, t') \<longrightarrow> ms = msgs)) \<and>
        (good_reader r fd' (sent fd (q_log s') @ rest) \<longrightarrow>
          (\<exists>t'. recv_all r fd' cap (length msgs) \<lparr>q_log = [], q_errno = e'\<rparr> = Some (msgs, t'))))) \<and>
    (good_writer w fd \<longrightarrow> (\<exists>s'. send_all w fd msgs \<lparr>q_log = [], q_errno = e\<rparr> = Some s'))"
proof (intro conjI allI impI)
  fix s' assume s': "send_all w fd msgs \<lparr>q_log = [], q_errno = e\<rparr> = Some s'"
  show sent: "sent fd (q_log s') = concat (map frame msgs)" using send_all_sound [OF s'] assms by simp
  show "ms = msgs" if "stream_reader r fd' (sent fd (q_log s') @ rest)"
      "recv_all r fd' cap (length msgs) \<lparr>q_log = [], q_errno = e'\<rparr> = Some (ms, t')" for r fd' rest e' ms t'
    using recv_all_sound [OF that, of rest] assms by (simp add: sent)
  show "\<exists>t'. recv_all r fd' cap (length msgs) \<lparr>q_log = [], q_errno = e'\<rparr> = Some (msgs, t')"
    if "good_reader r fd' (sent fd (q_log s') @ rest)" for r fd' rest e'
    using recv_all_frames [OF that, of msgs cap "\<lparr>q_log = [], q_errno = e'\<rparr>" rest] assms by (auto simp: sent)
next
  assume "good_writer w fd"
  then show "\<exists>s'. send_all w fd msgs \<lparr>q_log = [], q_errno = e\<rparr> = Some s'"
    using send_all_frames [of w fd msgs "\<lparr>q_log = [], q_errno = e\<rparr>"] assms by auto
qed

theorem qemud_round_trip_witness:
  "\<exists>s'. send_all (demo_io []) 3 [''get'', ''go''] \<lparr>q_log = [], q_errno = 0\<rparr> = Some s' \<and>
    (\<exists>t'. recv_all (demo_io (sent 3 (q_log s') @ ''x'')) 5 8 2 \<lparr>q_log = [], q_errno = 0\<rparr> = Some ([''get'', ''go''], t'))"
proof -
  have m: "\<forall>m \<in> set [''get'', ''go'']. m \<noteq> [] \<and> length m < 65536 \<and> length m \<le> 8" by simp
  obtain s' where s': "send_all (demo_io []) 3 [''get'', ''go''] \<lparr>q_log = [], q_errno = 0\<rparr> = Some s'"
    using qemud_round_trip [OF m, of "demo_io []" 3 0] demo_io_good(1) by blast
  have "good_reader (demo_io (sent 3 (q_log s') @ ''x'')) 5 (sent 3 (q_log s') @ ''x'')" by (rule demo_io_good(2))
  then have "\<exists>t'. recv_all (demo_io (sent 3 (q_log s') @ ''x'')) 5 8 (length [''get'', ''go'']) \<lparr>q_log = [], q_errno = 0\<rparr> =
      Some ([''get'', ''go''], t')"
    using qemud_round_trip [OF m, of "demo_io []" 3 0] s' by blast
  then show ?thesis using s' by (metis length_Cons list.size(3) One_nat_def Suc_1)
qed

text \<open>The header decides whether receiving is safe. From a peer that sends a header of four characters and
  then more than the buffer holds, \<open>qemud_channel_recv\<close> returns whenever the number in the header is not
  negative; the scan accepts a minus sign, though, and then the negative length passes the check against
  the size of the buffer, becomes an enormous count for \<open>read\<close> and the buffer is overrun.\<close>

lemma qemud_recv_negative_length:
  assumes "good_reader io fd (got fd (q_log t) @ h @ rest)" "length h = 4" "scan_04x h = Some z" "- (2 ^ 31) \<le> z"
    and "cap < length rest" "cap < 2 ^ 31"
  shows "qemud_channel_recv io fd cap (int cap) t = None \<longleftrightarrow> z < 0"
proof -
  let ?S = "got fd (q_log t) @ h @ rest"
  obtain t1 where t1: "qemud_fd_read io fd 5 4 t = Some (4, h, t1)" "drop (length (got fd (q_log t1))) ?S = rest"
    using read_header [OF assms(1), of t h rest] assms(2) by auto
  show ?thesis
  proof (cases "z < 0")
    case True
    then have "(z + 2 ^ 64) mod 2 ^ 64 = z + 2 ^ 64" using assms(4) by (intro mod_pos_pos_trivial) simp_all
    then have "z mod 2 ^ 64 = z + 2 ^ 64" by simp
    then have "cap < to_size_t z" using assms(4,6) by (simp add: to_size_t_def)
    then have "cap < length (take (to_size_t z) rest)" using assms(5) by simp
    then have "qemud_fd_read io fd cap z t1 = None"
      by (intro read_good(2) [OF assms(1) refl]) (simp only: t1(2))
    then show ?thesis using True t1(1) assms(3) by (simp add: qemud_channel_recv_def)
  next
    case False
    show ?thesis
    proof (cases "z \<le> int cap")
      case True
      then have "to_size_t z = nat z" using False assms(6) by (simp add: to_size_t_def)
      then have "length (take (to_size_t z) rest) \<le> cap" using True by simp
      then obtain t2 where "qemud_fd_read io fd cap z t1 = Some (int (length (take (to_size_t z) rest)), take (to_size_t z) rest, t2)"
        using read_good(1) [OF assms(1) refl, where len = z and s = t1 and cap = cap] by (auto simp only: t1(2))
      then show ?thesis using t1(1) assms(3) True False by (simp add: qemud_channel_recv_def)
    qed (use False t1(1) assms(3) in \<open>simp add: qemud_channel_recv_def\<close>)
  qed
qed

theorem qemud_recv_negative_length_witness:
  "qemud_channel_recv (demo_io ''-001spam'') 3 2 2 \<lparr>q_log = [], q_errno = 0\<rparr> = None"
  using qemud_recv_negative_length [of "demo_io ''-001spam''" 3 "\<lparr>q_log = [], q_errno = 0\<rparr>" "''-001''" "''spam''" "- 1" 2]
    demo_io_good(2) [of "''-001spam''" 3]
  by (simp add: scan_04x_def scan_sign_def scan_prefix_def scan_digits_def hex_value_def hex_number_def is_space_def upt_rec)

text \<open>A message of 65536 to 1048575 bytes is sent with success under a wrong length: the header keeps the
  first four of five digits, and the receiver takes the first sixteenth of the bytes for the message.\<close>

lemma qemud_long_message_cut:
  assumes "good_writer w fd" "65536 \<le> length m" "length m < 2 ^ 20" "length m \<le> cap"
  shows "\<exists>s'. qemud_channel_send w fd m (int (length m)) \<lparr>q_log = [], q_errno = e\<rparr> = Some (0, s') \<and>
    (\<forall>r fd' e'. good_reader r fd' (sent fd (q_log s')) \<longrightarrow>
      (\<exists>t'. qemud_channel_recv r fd' cap (int cap) \<lparr>q_log = [], q_errno = e'\<rparr> =
        Some (int (length m) div 16, take (length m div 16) m, t')))"
proof -
  let ?k = "length m div 16"
  have k: "?k < 65536" using assms(3) by simp
  have h: "header_of (int (length m)) = header_of (int ?k)" using assms(2,3) by (rule header_truncated)
  have "m \<noteq> []" "length (header_of (int (length m))) = 4" using assms(2) header_round_trip(1) [OF k] h by auto
  from send_bytes [OF assms(1) this, of "\<lparr>q_log = [], q_errno = e\<rparr>"]
  obtain s' where s': "qemud_channel_send w fd m (int (length m)) \<lparr>q_log = [], q_errno = e\<rparr> = Some (0, s')"
    "sent fd (q_log s') = header_of (int ?k) @ m" unfolding frame_def h by auto
  have "\<exists>t'. qemud_channel_recv r fd' cap (int cap) \<lparr>q_log = [], q_errno = e'\<rparr> = Some (int (length m) div 16, take ?k m, t')"
    if "good_reader r fd' (sent fd (q_log s'))" for r fd' e'
  proof -
    have "\<exists>t'. qemud_channel_recv r fd' cap (int cap) \<lparr>q_log = [], q_errno = e'\<rparr> = Some (int (length (take ?k m)), take ?k m, t') \<and>
      drop (length (got fd' (q_log t'))) (sent fd (q_log s')) = drop ?k m"
      by (rule receive_bytes [OF that _ header_round_trip(1) [OF k]])
        (use header_round_trip(2) [OF k] assms(4) k in \<open>simp_all add: s'(2)\<close>)
    then show ?thesis by (auto simp: min_absorb2 zdiv_int)
  qed
  then show ?thesis using s'(1) by blast
qed

theorem qemud_long_message_cut_witness:
  "\<exists>s'. qemud_channel_send (demo_io []) 3 (replicate 65536 CHR ''a'') 65536 \<lparr>q_log = [], q_errno = 0\<rparr> = Some (0, s')"
  using qemud_long_message_cut [OF demo_io_good(1), of "replicate 65536 CHR ''a''" 65536 "[]" 3 0] by auto

end
