(* ===== verification/Unique_Pointer.thy ===== *)
theory Unique_Pointer
  imports Main "HOL-Library.Word" "HOL-Library.Monad_Syntax"
begin

text \<open>
  Owning pointers: \<open>utils/UniquePtr.h\<close> (and the member \<open>swap\<close> that only its copy \<open>nativehelper/UniquePtr.h\<close>
  has) and the intrusive counter of \<open>cutils/aref.h\<close>. A heap is the set of the objects that exist, an
  address of 0 is NULL; deleting what does not exist is a fault (None).
\<close>

subsection \<open>Deleters\<close>

type_synonym live = "nat set"

type_synonym deleter = "nat \<Rightarrow> live \<Rightarrow> live option"

definition DefaultDelete :: deleter where
  "DefaultDelete p h = (if p = 0 then Some h else if p \<in> h then Some (h - {p}) else None)"

text \<open>\<open>delete[]\<close> of an array, which is one object of the heap.\<close>

definition DefaultDelete_array :: deleter where
  "DefaultDelete_array p h = (if p = 0 then Some h else if p \<in> h then Some (h - {p}) else None)"

subsection \<open>UniquePtr\<close>

record UniquePtr =
  mPtr :: nat

definition up_new :: "nat \<Rightarrow> UniquePtr" where
  "up_new ptr = \<lparr>mPtr = ptr\<rparr>"

definition up_reset :: "deleter \<Rightarrow> UniquePtr \<Rightarrow> nat \<Rightarrow> live \<Rightarrow> (UniquePtr \<times> live) option" where
  "up_reset D u ptr h = (if ptr \<noteq> mPtr u then do { h \<leftarrow> D (mPtr u) h; Some (u\<lparr>mPtr := ptr\<rparr>, h) } else Some (u, h))"

definition up_destroy :: "deleter \<Rightarrow> UniquePtr \<Rightarrow> live \<Rightarrow> live option" where
  "up_destroy D u h = map_option snd (up_reset D u 0 h)"

text \<open>The object an access goes to.\<close>

definition up_deref :: "UniquePtr \<Rightarrow> live \<Rightarrow> nat option" where
  "up_deref u h = (if mPtr u \<in> h then Some (mPtr u) else None)"

definition up_arrow :: "UniquePtr \<Rightarrow> nat" where "up_arrow u = mPtr u"
definition up_get :: "UniquePtr \<Rightarrow> nat" where "up_get u = mPtr u"

definition up_release :: "UniquePtr \<Rightarrow> nat \<times> UniquePtr" where
  "up_release u = (let result = mPtr u; u = u\<lparr>mPtr := 0\<rparr> in (result, u))"

definition up_swap :: "UniquePtr \<Rightarrow> UniquePtr \<Rightarrow> UniquePtr \<times> UniquePtr" where
  "up_swap u w = (u\<lparr>mPtr := mPtr w\<rparr>, w\<lparr>mPtr := mPtr u\<rparr>)"

text \<open>The specialization for arrays; an element is the array and its index.\<close>

definition ua_new :: "nat \<Rightarrow> UniquePtr" where
  "ua_new ptr = \<lparr>mPtr = ptr\<rparr>"

definition ua_reset :: "deleter \<Rightarrow> UniquePtr \<Rightarrow> nat \<Rightarrow> live \<Rightarrow> (UniquePtr \<times> live) option" where
  "ua_reset D u ptr h = (if ptr \<noteq> mPtr u then do { h \<leftarrow> D (mPtr u) h; Some (u\<lparr>mPtr := ptr\<rparr>, h) } else Some (u, h))"

definition ua_destroy :: "deleter \<Rightarrow> UniquePtr \<Rightarrow> live \<Rightarrow> live option" where
  "ua_destroy D u h = map_option snd (ua_reset D u 0 h)"

definition ua_index :: "UniquePtr \<Rightarrow> (nat \<Rightarrow> nat) \<Rightarrow> nat \<Rightarrow> live \<Rightarrow> (nat \<times> nat) option" where
  "ua_index u len i h = (if mPtr u \<in> h \<and> i < len (mPtr u) then Some (mPtr u, i) else None)"

definition ua_get :: "UniquePtr \<Rightarrow> nat" where "ua_get u = mPtr u"

definition ua_release :: "UniquePtr \<Rightarrow> nat \<times> UniquePtr" where
  "ua_release u = (let result = mPtr u; u = u\<lparr>mPtr := 0\<rparr> in (result, u))"

subsection \<open>The intrusive counter\<close>

type_synonym aref = "32 word"

definition aref_init :: "aref \<Rightarrow> aref" where "aref_init r = 1"
definition aref_count :: "aref \<Rightarrow> int" where "aref_count r = sint r"
definition aref_get :: "aref \<Rightarrow> aref" where "aref_get r = r + 1"

text \<open>The new count, and the calls of \<open>release\<close>; the decrement returns the old count.\<close>

definition aref_put :: "aref \<Rightarrow> aref \<times> bool" where
  "aref_put r = (r - 1, r = 1)"

subsection \<open>Programs with owning pointers\<close>

text \<open>The variables that hold a \<open>UniquePtr\<close>, the addresses the program itself has to care for, the heap.\<close>

record prog =
  vars :: "nat \<Rightarrow> UniquePtr option"
  raw :: "nat set"
  heap :: live

datatype up_op = Alloc nat | Construct nat nat | ConstructNull nat | Reset nat nat | ResetNull nat | Release nat
  | Swap nat nat | Destroy nat | DeleteRaw nat

text \<open>What C++ asks of a program: storage is fresh, a variable is constructed once and used while it
  lives, and an address that is handed over is not owned by another.\<close>

definition up_allowed :: "prog \<Rightarrow> up_op \<Rightarrow> bool" where
  "up_allowed s opn = (case opn of
     Alloc p \<Rightarrow> p \<noteq> 0 \<and> p \<notin> heap s
   | Construct v p \<Rightarrow> vars s v = None \<and> p \<in> raw s
   | ConstructNull v \<Rightarrow> vars s v = None
   | Reset v p \<Rightarrow> vars s v \<noteq> None \<and> (p \<in> raw s \<or> vars s v = Some \<lparr>mPtr = p\<rparr>)
   | ResetNull v \<Rightarrow> vars s v \<noteq> None
   | Release v \<Rightarrow> vars s v \<noteq> None
   | Swap v w \<Rightarrow> vars s v \<noteq> None \<and> vars s w \<noteq> None \<and> v \<noteq> w
   | Destroy v \<Rightarrow> vars s v \<noteq> None
   | DeleteRaw p \<Rightarrow> p \<in> raw s)"

definition up_exec :: "prog \<Rightarrow> up_op \<Rightarrow> prog option" where
  "up_exec s opn = (case opn of
     Alloc p \<Rightarrow> Some (s\<lparr>heap := insert p (heap s), raw := insert p (raw s)\<rparr>)
   | Construct v p \<Rightarrow> Some (s\<lparr>vars := (vars s)(v \<mapsto> up_new p), raw := raw s - {p}\<rparr>)
   | ConstructNull v \<Rightarrow> Some (s\<lparr>vars := (vars s)(v \<mapsto> up_new 0)\<rparr>)
   | Reset v p \<Rightarrow> do { u \<leftarrow> vars s v; (u, h) \<leftarrow> up_reset DefaultDelete u p (heap s);
       Some (s\<lparr>vars := (vars s)(v \<mapsto> u), raw := raw s - {p}, heap := h\<rparr>) }
   | ResetNull v \<Rightarrow> do { u \<leftarrow> vars s v; (u, h) \<leftarrow> up_reset DefaultDelete u 0 (heap s);
       Some (s\<lparr>vars := (vars s)(v \<mapsto> u), heap := h\<rparr>) }
   | Release v \<Rightarrow> do { u \<leftarrow> vars s v; let (p, u) = up_release u;
       Some (s\<lparr>vars := (vars s)(v \<mapsto> u), raw := (if p = 0 then raw s else insert p (raw s))\<rparr>) }
   | Swap v w \<Rightarrow> do { a \<leftarrow> vars s v; b \<leftarrow> vars s w; let (a, b) = up_swap a b;
       Some (s\<lparr>vars := (vars s)(v \<mapsto> a, w \<mapsto> b)\<rparr>) }
   | Destroy v \<Rightarrow> do { u \<leftarrow> vars s v; h \<leftarrow> up_destroy DefaultDelete u (heap s);
       Some (s\<lparr>vars := (vars s)(v := None), heap := h\<rparr>) }
   | DeleteRaw p \<Rightarrow> do { h \<leftarrow> DefaultDelete p (heap s); Some (s\<lparr>raw := raw s - {p}, heap := h\<rparr>) })"

definition owns :: "prog \<Rightarrow> nat \<Rightarrow> nat \<Rightarrow> bool" where
  "owns s v p \<longleftrightarrow> vars s v = Some \<lparr>mPtr = p\<rparr> \<and> p \<noteq> 0"

text \<open>The invariant: an object has one owner, either one variable or the program, and an owner exists for
  every object.\<close>

definition owned_once :: "prog \<Rightarrow> bool" where
  "owned_once s \<longleftrightarrow> 0 \<notin> heap s \<and> (\<forall>v w p. owns s v p \<longrightarrow> owns s w p \<longrightarrow> v = w) \<and>
     (\<forall>v p. owns s v p \<longrightarrow> p \<notin> raw s) \<and> heap s = raw s \<union> {p. \<exists>v. owns s v p}"

inductive up_reach :: "prog \<Rightarrow> prog \<Rightarrow> bool" where
  up_start: "up_reach s s"
| up_step: "up_reach s t \<Longrightarrow> up_allowed t opn \<Longrightarrow> up_exec t opn = Some u \<Longrightarrow> up_reach s u"

subsection \<open>Ownership is kept\<close>

lemma owned_once_heap:
  assumes "owned_once s"
  shows "vars s v = Some u \<Longrightarrow> mPtr u = 0 \<or> mPtr u \<in> heap s \<and> owns s v (mPtr u)" "p \<in> raw s \<Longrightarrow> p \<noteq> 0 \<and> p \<in> heap s"
proof -
  show "mPtr u = 0 \<or> mPtr u \<in> heap s \<and> owns s v (mPtr u)" if "vars s v = Some u"
  proof (cases "mPtr u = 0")
    case False
    then have "owns s v (mPtr u)" using that by (simp add: owns_def)
    then show ?thesis using assms by (auto simp: owned_once_def)
  qed simp
  show "p \<in> raw s \<Longrightarrow> p \<noteq> 0 \<and> p \<in> heap s" using assms by (auto simp: owned_once_def)
qed

lemma delete_owned: "owned_once s \<Longrightarrow> vars s v = Some u \<Longrightarrow> DefaultDelete (mPtr u) (heap s) = Some (heap s - {mPtr u})"
  using owned_once_heap(1) [of s v u] by (auto simp: DefaultDelete_def owned_once_def)

text \<open>The one change of ownership all operations consist of: a variable gives up its object and takes
  another that nobody owns, or none, or ends.\<close>

lemma change_owner:
  assumes "owned_once s" "vars s v = None \<or> vars s v = Some \<lparr>mPtr = q\<rparr>" "vars s v = None \<Longrightarrow> q = 0"
    and "case x of None \<Rightarrow> True | Some u \<Rightarrow> mPtr u = 0 \<or> mPtr u \<in> raw s"
    and t: "vars t = (vars s)(v := x)" "raw t = raw s - (case x of None \<Rightarrow> {} | Some u \<Rightarrow> {mPtr u})" "heap t = heap s - {q}"
  shows "owned_once t"
proof -
  have own: "owns t w p \<longleftrightarrow> (if w = v then x = Some \<lparr>mPtr = p\<rparr> \<and> p \<noteq> 0 else owns s w p)" for w p
    by (simp add: t owns_def)
  have ownv: "owns s v p \<longleftrightarrow> p = q \<and> q \<noteq> 0" for p using assms(2,3) by (auto simp: owns_def)
  let ?X = "case x of None \<Rightarrow> 0 | Some u \<Rightarrow> mPtr u" and ?O = "{p. \<exists>w. w \<noteq> v \<and> owns s w p}"
  have x: "x = Some \<lparr>mPtr = p\<rparr> \<and> p \<noteq> 0 \<longleftrightarrow> p = ?X \<and> ?X \<noteq> 0" for p by (cases x) auto
  have inv: "0 \<notin> heap s" "\<And>v w p. owns s v p \<Longrightarrow> owns s w p \<Longrightarrow> v = w" "\<And>v p. owns s v p \<Longrightarrow> p \<notin> raw s"
    "heap s = raw s \<union> {p. \<exists>v. owns s v p}" using assms(1) unfolding owned_once_def by blast+
  have X: "?X = 0 \<or> ?X \<in> raw s" using assms(4) by (cases x) auto
  have r: "raw t = raw s - {?X}" using inv(1,4) by (cases x) (auto simp: t)
  have "{p. \<exists>w. owns t w p} = ?O \<union> (if ?X = 0 then {} else {?X})" unfolding own x by auto
  moreover have "{p. \<exists>w. owns s w p} = ?O \<union> (if q = 0 then {} else {q})"
    using ownv by (auto; metis)
  moreover have "owns s w q \<Longrightarrow> q \<noteq> 0" for w by (simp add: owns_def)
  then have "q \<notin> ?O" "q \<noteq> 0 \<Longrightarrow> q \<notin> raw s" using ownv inv(2,3) by blast+
  ultimately have "heap s - {q} = raw t \<union> {p. \<exists>w. owns t w p}" using X r inv(1,4) by auto
  moreover have "\<And>w w' p. owns t w p \<Longrightarrow> owns t w' p \<Longrightarrow> w = w'" "\<And>w p. owns t w p \<Longrightarrow> p \<notin> raw t"
    using inv(2,3) X unfolding own x r by (auto split: if_splits)
  ultimately show ?thesis using inv(1) unfolding owned_once_def by (simp add: t) blast
qed

lemma alloc_owned:
  assumes "owned_once s" "p \<noteq> 0" "p \<notin> heap s"
  shows "owned_once (s\<lparr>heap := insert p (heap s), raw := insert p (raw s)\<rparr>)"
  using assms by (auto simp: owned_once_def owns_def)

lemma raw_gone_owned: "owned_once s \<Longrightarrow> p \<in> raw s \<Longrightarrow> owned_once (s\<lparr>raw := raw s - {p}, heap := heap s - {p}\<rparr>)"
  by (auto simp: owned_once_def owns_def)

lemma swap_owned:
  assumes "owned_once s" "vars s v = Some a" "vars s w = Some b" "v \<noteq> w"
  shows "owned_once (s\<lparr>vars := (vars s)(v \<mapsto> b, w \<mapsto> a)\<rparr>)"
proof -
  let ?t = "s\<lparr>vars := (vars s)(v \<mapsto> b, w \<mapsto> a)\<rparr>"
  define g where "g x = (if x = v then w else if x = w then v else x)" for x
  have own: "owns ?t x p \<longleftrightarrow> owns s (g x) p" for x p using assms(2-4) by (auto simp: owns_def g_def)
  have g: "g (g x) = x" for x by (simp add: g_def)
  have inj: "g x = g y \<Longrightarrow> x = y" for x y using g by metis
  have ex: "(\<exists>x. owns s (g x) p) \<longleftrightarrow> (\<exists>x. owns s x p)" for p using g by metis
  note inv = assms(1) [unfolded owned_once_def]
  show ?thesis unfolding owned_once_def own ex
  proof (intro conjI allI impI)
    show "\<And>x y p. owns s (g x) p \<Longrightarrow> owns s (g y) p \<Longrightarrow> x = y" using inv inj by blast
    show "\<And>x p. owns s (g x) p \<Longrightarrow> p \<notin> raw ?t" using inv by simp
    show "0 \<notin> heap ?t" using conjunct1 [OF inv] by simp
    have "heap s = raw s \<union> {p. \<exists>v. owns s v p}" using inv by blast
    then show "heap ?t = raw ?t \<union> {p. \<exists>v. owns s v p}" by simp
  qed
qed

lemma release_owned:
  assumes "owned_once s" "vars s v = Some \<lparr>mPtr = p\<rparr>" "p \<noteq> 0"
  shows "owned_once (s\<lparr>vars := (vars s)(v \<mapsto> \<lparr>mPtr = 0\<rparr>), raw := insert p (raw s)\<rparr>)"
proof -
  let ?s = "s\<lparr>vars := (vars s)(v \<mapsto> \<lparr>mPtr = 0\<rparr>), heap := heap s - {p}\<rparr>"
  have "0 \<notin> raw s" using assms(1) by (auto simp: owned_once_def)
  then have "owned_once ?s"
    by (intro change_owner [OF assms(1), where v = v and q = p and x = "Some \<lparr>mPtr = 0\<rparr>"]) (simp_all add: assms(2))
  then have "owned_once (?s\<lparr>heap := insert p (heap ?s), raw := insert p (raw ?s)\<rparr>)"
    by (rule alloc_owned) (simp_all add: assms(3))
  moreover have "p \<in> heap s" using owned_once_heap(1) [OF assms(1,2)] assms(3) by simp
  then have "?s\<lparr>heap := insert p (heap ?s), raw := insert p (raw ?s)\<rparr> =
      s\<lparr>vars := (vars s)(v \<mapsto> \<lparr>mPtr = 0\<rparr>), raw := insert p (raw s)\<rparr>"
    by (intro prog.equality) (simp_all add: insert_absorb)
  ultimately show ?thesis by (simp only:)
qed

lemma up_exec_keeps:
  assumes "owned_once s" "up_allowed s opn"
  shows "\<exists>t. up_exec s opn = Some t \<and> owned_once t"
proof -
  note change = change_owner [OF assms(1)]
  have z: "heap s - {0} = heap s" "0 \<notin> raw s" using assms(1) by (auto simp: owned_once_def)
  have reset: "up_reset DefaultDelete u p (heap s) = Some (\<lparr>mPtr = p\<rparr>, if p = mPtr u then heap s else heap s - {mPtr u})"
    if "vars s v = Some u" for v u p
    using delete_owned [OF assms(1) that] by (cases u) (simp add: up_reset_def)
  have reset0: "up_reset DefaultDelete u 0 (heap s) = Some (\<lparr>mPtr = 0\<rparr>, heap s - {mPtr u})" if "vars s v = Some u" for v u
    using reset [OF that, of 0] z(1) by (cases "mPtr u = 0") simp_all
  show ?thesis
  proof (cases opn)
    case (Construct v p)
    then have a: "vars s v = None" "p \<in> raw s" using assms(2) by (simp_all add: up_allowed_def)
    have "owned_once (s\<lparr>vars := (vars s)(v \<mapsto> \<lparr>mPtr = p\<rparr>), raw := raw s - {p}\<rparr>)"
      by (rule change [where v = v and q = 0 and x = "Some \<lparr>mPtr = p\<rparr>"]) (use a z in simp_all)
    then show ?thesis using Construct by (simp add: up_exec_def up_new_def)
  next
    case (ConstructNull v)
    then have a: "vars s v = None" using assms(2) by (simp add: up_allowed_def)
    have "owned_once (s\<lparr>vars := (vars s)(v \<mapsto> \<lparr>mPtr = 0\<rparr>)\<rparr>)"
      by (rule change [where v = v and q = 0 and x = "Some \<lparr>mPtr = 0\<rparr>"]) (use a z in simp_all)
    then show ?thesis using ConstructNull by (simp add: up_exec_def up_new_def)
  next
    case (Reset v p)
    then obtain u where u: "vars s v = Some u" using assms(2) by (auto simp: up_allowed_def)
    show ?thesis
    proof (cases "p = mPtr u")
      case True
      then have "p \<notin> raw s" using owned_once_heap(1) [OF assms(1) u] z assms(1) by (auto simp: owned_once_def)
      then show ?thesis using Reset u True assms(1) by (simp add: up_exec_def up_reset_def fun_upd_idem)
    next
      case False
      then have p: "p \<in> raw s" using assms(2) Reset u by (auto simp: up_allowed_def)
      have "owned_once (s\<lparr>vars := (vars s)(v \<mapsto> \<lparr>mPtr = p\<rparr>), raw := raw s - {p}, heap := heap s - {mPtr u}\<rparr>)"
        by (rule change [where v = v and q = "mPtr u" and x = "Some \<lparr>mPtr = p\<rparr>"]) (use u p in simp_all)
      then show ?thesis using Reset u False by (simp add: up_exec_def reset [OF u])
    qed
  next
    case (ResetNull v)
    then obtain u where u: "vars s v = Some u" using assms(2) by (auto simp: up_allowed_def)
    have "owned_once (s\<lparr>vars := (vars s)(v \<mapsto> \<lparr>mPtr = 0\<rparr>), heap := heap s - {mPtr u}\<rparr>)"
      by (rule change [where v = v and q = "mPtr u" and x = "Some \<lparr>mPtr = 0\<rparr>"]) (use u z in simp_all)
    then show ?thesis using ResetNull u by (simp add: up_exec_def reset0 [OF u])
  next
    case (Release v)
    then obtain p where p: "vars s v = Some \<lparr>mPtr = p\<rparr>" using assms(2) by (auto simp: up_allowed_def) (metis UniquePtr.cases)
    show ?thesis
    proof (cases "p = 0")
      case True
      then have "up_exec s opn = Some s" using Release p by (simp add: up_exec_def up_release_def fun_upd_idem)
      then show ?thesis using assms(1) by blast
    qed (use Release p release_owned [OF assms(1) p] in \<open>simp add: up_exec_def up_release_def\<close>)
  next
    case (Swap v w)
    then show ?thesis using assms swap_owned [OF assms(1)] by (auto simp: up_exec_def up_allowed_def up_swap_def)
  next
    case (Destroy v)
    then obtain u where u: "vars s v = Some u" using assms(2) by (auto simp: up_allowed_def)
    have "owned_once (s\<lparr>vars := (vars s)(v := None), heap := heap s - {mPtr u}\<rparr>)"
      by (rule change [where v = v and q = "mPtr u" and x = None]) (use u in simp_all)
    then show ?thesis using Destroy u by (simp add: up_exec_def up_destroy_def reset0 [OF u])
  next
    case (DeleteRaw p)
    then show ?thesis using assms(2) raw_gone_owned [OF assms(1), of p] owned_once_heap(2) [OF assms(1), of p]
      by (simp add: up_exec_def up_allowed_def DefaultDelete_def)
  qed (use assms alloc_owned in \<open>auto simp: up_exec_def up_allowed_def\<close>)
qed

lemma up_reach_owned: "up_reach s t \<Longrightarrow> owned_once s \<Longrightarrow> owned_once t"
proof (induction rule: up_reach.induct)
  case (up_step s t opn u)
  then show ?case using up_exec_keeps [of t opn] by auto
qed

text \<open>The counter: after \<open>n\<close> further references it is \<open>n + 1\<close>, and only the last put releases.\<close>

lemma aref_counts:
  assumes "n < 2 ^ 31 - 1"
  shows "aref_count ((aref_get ^^ n) (aref_init r)) = int n + 1"
    "snd (aref_put ((aref_get ^^ n) (aref_init r))) \<longleftrightarrow> n = 0"
proof -
  have w: "(aref_get ^^ n) (aref_init r) = word_of_nat (n + 1)"
    by (induction n) (simp_all add: aref_get_def aref_init_def)
  have "sint (word_of_int (int (n + 1)) :: aref) = int (n + 1)" using assms by (simp add: sint_sbintrunc' signed_take_bit_int_eq_self del: of_int_of_nat_eq of_nat_Suc of_nat_add)
  then have c: "sint (word_of_nat (n + 1) :: aref) = int (n + 1)" by simp
  then show "aref_count ((aref_get ^^ n) (aref_init r)) = int n + 1" unfolding aref_count_def w by simp
  show "snd (aref_put ((aref_get ^^ n) (aref_init r))) \<longleftrightarrow> n = 0"
    using c unfolding aref_put_def w by auto
qed

subsection \<open>Properties\<close>

text \<open>C25: A program that uses \<open>UniquePtr\<close> as C++ allows -- any sequence of allocations, constructions, resets,
  releases, swaps and destructions -- never deletes an object twice or one that does not exist and leaks
  none: every allowed operation succeeds, every object has exactly one owner, a pointer that is not NULL
  refers to a live object, and once all the pointers have ended the heap holds just the objects the
  program has taken over itself.\<close>

theorem unique_ptr_owns:
  assumes "up_reach \<lparr>vars = (\<lambda>_. None), raw = {}, heap = {}\<rparr> s"
  shows "(up_allowed s opn \<longrightarrow> up_exec s opn \<noteq> None) \<and> (\<forall>p \<in> heap s. (p \<in> raw s) \<noteq> (\<exists>!v. owns s v p)) \<and>
    (vars s v = Some u \<longrightarrow> up_get u \<noteq> 0 \<longrightarrow> up_deref u (heap s) = Some (up_get u)) \<and>
    ((\<forall>v. vars s v = None) \<longrightarrow> heap s = raw s)"
proof -
  have o: "owned_once s" by (rule up_reach_owned [OF assms]) (simp add: owned_once_def owns_def)
  then have "up_allowed s opn \<Longrightarrow> up_exec s opn \<noteq> None" using up_exec_keeps by blast
  moreover have "(p \<in> raw s) \<noteq> (\<exists>!v. owns s v p)" if "p \<in> heap s" for p
    using o that unfolding owned_once_def by blast
  moreover have "vars s v = Some u \<Longrightarrow> up_get u \<noteq> 0 \<Longrightarrow> up_deref u (heap s) = Some (up_get u)"
    using owned_once_heap(1) [OF o, of v u] by (simp add: up_get_def up_deref_def)
  moreover have "\<forall>v. vars s v = None \<Longrightarrow> heap s = raw s" using o by (simp add: owned_once_def owns_def)
  ultimately show ?thesis by blast
qed

theorem unique_ptr_owns_witness:
  "up_exec \<lparr>vars = [1 \<mapsto> \<lparr>mPtr = 7\<rparr>], raw = {}, heap = {7}\<rparr> (Destroy 1) \<noteq> None"
proof -
  let ?s = "\<lambda>vs r h. \<lparr>vars = vs, raw = r, heap = h\<rparr>"
  have "up_reach (?s (\<lambda>_. None) {} {}) (?s (\<lambda>_. None) {7} {7})"
    by (rule up_step [OF up_start, where opn = "Alloc 7"]) (simp_all add: up_allowed_def up_exec_def)
  then have "up_reach (?s (\<lambda>_. None) {} {}) (?s [1 \<mapsto> \<lparr>mPtr = 7\<rparr>] {} {7})"
    by (rule up_step [where opn = "Construct 1 7"]) (simp_all add: up_allowed_def up_exec_def up_new_def)
  from unique_ptr_owns [OF this, of "Destroy 1"] show ?thesis by (simp add: up_allowed_def)
qed

end
