(* ===== verification/Lock_Classes.thy ===== *)
theory Lock_Classes
  imports Cam_Prelude "HOL-Library.Multiset"
begin

text \<open>
  The lock classes of the platform: \<open>utils/Mutex.h\<close>, \<open>utils/RWLock.h\<close> and \<open>utils/Condition.h\<close> on top of the
  POSIX thread functions. A thread is a number. A POSIX call is a function of the calling thread and the
  object: it returns an error number and the new object; None is a call that blocks, or one POSIX leaves
  undefined. What POSIX leaves to the platform is the record \<open>posix\<close>. The lemmas say that the scoped locks
  exclude each other as a reader-writer lock should when the threads keep a discipline, what happens
  when they do not, and which deadline a relative wait computes.
\<close>

subsection \<open>POSIX\<close>

definition EAGAIN :: int where "EAGAIN = 11"
definition EBUSY :: int where "EBUSY = 16"

datatype pshared = PTHREAD_PROCESS_PRIVATE | PTHREAD_PROCESS_SHARED

text \<open>A mutex of the default type: its owner. A thread that locks it twice blocks for ever.\<close>

record pmutex =
  pm_owner :: "nat option"
  pm_shared :: pshared

definition pthread_mutex_init :: "pshared \<Rightarrow> pmutex" where
  "pthread_mutex_init sh = \<lparr>pm_owner = None, pm_shared = sh\<rparr>"

definition pthread_mutex_destroy :: "pmutex \<Rightarrow> unit option" where
  "pthread_mutex_destroy m = (if pm_owner m = None then Some () else None)"

definition pthread_mutex_lock :: "nat \<Rightarrow> pmutex \<Rightarrow> (int \<times> pmutex) option" where
  "pthread_mutex_lock t m = (if pm_owner m = None then Some (0, m\<lparr>pm_owner := Some t\<rparr>) else None)"

definition pthread_mutex_trylock :: "nat \<Rightarrow> pmutex \<Rightarrow> int \<times> pmutex" where
  "pthread_mutex_trylock t m = (if pm_owner m = None then (0, m\<lparr>pm_owner := Some t\<rparr>) else (EBUSY, m))"

definition pthread_mutex_unlock :: "nat \<Rightarrow> pmutex \<Rightarrow> (int \<times> pmutex) option" where
  "pthread_mutex_unlock t m = (if pm_owner m = Some t then Some (0, m\<lparr>pm_owner := None\<rparr>) else None)"

text \<open>A reader-writer lock: who reads, how often, and who writes. What POSIX leaves open is a parameter: how many
  read locks can be held at a time, and whether a thread that asks for a lock it has to wait for because of its own
  writing, or its own reading, gets EDEADLK instead of waiting for ever. (An implementation may also let
  a reader wait for a writer that waits; that only takes interleavings away.)\<close>

definition EDEADLK :: int where "EDEADLK = 35"

record posix =
  read_limit :: nat
  own_write_deadlk :: bool
  own_read_deadlk :: bool

record prwlock =
  rw_readers :: "nat multiset"
  rw_writer :: "nat option"
  rw_shared :: pshared

definition pthread_rwlock_init :: "pshared \<Rightarrow> prwlock" where
  "pthread_rwlock_init sh = \<lparr>rw_readers = {#}, rw_writer = None, rw_shared = sh\<rparr>"

definition rw_free :: "prwlock \<Rightarrow> bool" where
  "rw_free l \<longleftrightarrow> rw_readers l = {#} \<and> rw_writer l = None"


definition pthread_rwlock_tryrdlock :: "posix \<Rightarrow> nat \<Rightarrow> prwlock \<Rightarrow> int \<times> prwlock" where
  "pthread_rwlock_tryrdlock px t l = (if rw_writer l \<noteq> None then (EBUSY, l)
     else if read_limit px \<le> size (rw_readers l) then (EAGAIN, l)
     else (0, l\<lparr>rw_readers := add_mset t (rw_readers l)\<rparr>))"

definition pthread_rwlock_rdlock :: "posix \<Rightarrow> nat \<Rightarrow> prwlock \<Rightarrow> (int \<times> prwlock) option" where
  "pthread_rwlock_rdlock px t l = (if own_write_deadlk px \<and> rw_writer l = Some t then Some (EDEADLK, l)
     else if rw_writer l \<noteq> None then None else Some (pthread_rwlock_tryrdlock px t l))"

definition pthread_rwlock_trywrlock :: "nat \<Rightarrow> prwlock \<Rightarrow> int \<times> prwlock" where
  "pthread_rwlock_trywrlock t l = (if rw_free l then (0, l\<lparr>rw_writer := Some t\<rparr>) else (EBUSY, l))"

definition pthread_rwlock_wrlock :: "posix \<Rightarrow> nat \<Rightarrow> prwlock \<Rightarrow> (int \<times> prwlock) option" where
  "pthread_rwlock_wrlock px t l = (if rw_free l then Some (0, l\<lparr>rw_writer := Some t\<rparr>)
     else if own_write_deadlk px \<and> rw_writer l = Some t \<or> own_read_deadlk px \<and> t \<in># rw_readers l then Some (EDEADLK, l)
     else None)"

definition pthread_rwlock_unlock :: "nat \<Rightarrow> prwlock \<Rightarrow> (int \<times> prwlock) option" where
  "pthread_rwlock_unlock t l = (if rw_writer l = Some t then Some (0, l\<lparr>rw_writer := None\<rparr>)
     else if t \<in># rw_readers l then Some (0, l\<lparr>rw_readers := rw_readers l - {#t#}\<rparr>) else None)"

subsection \<open>Mutex\<close>

datatype lock_type = PRIVATE | SHARED

definition Mutex_new :: pmutex where "Mutex_new = pthread_mutex_init PTHREAD_PROCESS_PRIVATE"

definition Mutex_new_type :: "lock_type \<Rightarrow> pmutex" where
  "Mutex_new_type type = (if type = SHARED then pthread_mutex_init PTHREAD_PROCESS_SHARED else pthread_mutex_init PTHREAD_PROCESS_PRIVATE)"

definition Mutex_destroy :: "pmutex \<Rightarrow> unit option" where "Mutex_destroy m = pthread_mutex_destroy m"

definition Mutex_lock :: "nat \<Rightarrow> pmutex \<Rightarrow> (int \<times> pmutex) option" where
  "Mutex_lock t m = map_option (\<lambda>(r, m). (- r, m)) (pthread_mutex_lock t m)"

definition Mutex_unlock :: "nat \<Rightarrow> pmutex \<Rightarrow> pmutex option" where
  "Mutex_unlock t m = map_option snd (pthread_mutex_unlock t m)"

definition Mutex_tryLock :: "nat \<Rightarrow> pmutex \<Rightarrow> int \<times> pmutex" where
  "Mutex_tryLock t m = (let (r, m) = pthread_mutex_trylock t m in (- r, m))"

definition Autolock_new :: "nat \<Rightarrow> pmutex \<Rightarrow> pmutex option" where
  "Autolock_new t mutex = map_option snd (Mutex_lock t mutex)"

definition Autolock_delete :: "nat \<Rightarrow> pmutex \<Rightarrow> pmutex option" where
  "Autolock_delete t mLock = Mutex_unlock t mLock"

subsection \<open>RWLock\<close>

definition RWLock_new :: prwlock where "RWLock_new = pthread_rwlock_init PTHREAD_PROCESS_PRIVATE"



definition readLock :: "posix \<Rightarrow> nat \<Rightarrow> prwlock \<Rightarrow> (int \<times> prwlock) option" where
  "readLock px t l = map_option (\<lambda>(r, l). (- r, l)) (pthread_rwlock_rdlock px t l)"

definition tryReadLock :: "posix \<Rightarrow> nat \<Rightarrow> prwlock \<Rightarrow> int \<times> prwlock" where
  "tryReadLock px t l = (let (r, l) = pthread_rwlock_tryrdlock px t l in (- r, l))"

definition writeLock :: "posix \<Rightarrow> nat \<Rightarrow> prwlock \<Rightarrow> (int \<times> prwlock) option" where
  "writeLock px t l = map_option (\<lambda>(r, l). (- r, l)) (pthread_rwlock_wrlock px t l)"

definition tryWriteLock :: "nat \<Rightarrow> prwlock \<Rightarrow> int \<times> prwlock" where
  "tryWriteLock t l = (let (r, l) = pthread_rwlock_trywrlock t l in (- r, l))"

definition RWLock_unlock :: "nat \<Rightarrow> prwlock \<Rightarrow> prwlock option" where
  "RWLock_unlock t l = map_option snd (pthread_rwlock_unlock t l)"

text \<open>The constructors of the scoped locks do not look at the result.\<close>

definition AutoRLock_new :: "posix \<Rightarrow> nat \<Rightarrow> prwlock \<Rightarrow> prwlock option" where
  "AutoRLock_new px t l = map_option snd (readLock px t l)"

definition AutoRLock_delete :: "nat \<Rightarrow> prwlock \<Rightarrow> prwlock option" where "AutoRLock_delete t l = RWLock_unlock t l"

definition AutoWLock_new :: "posix \<Rightarrow> nat \<Rightarrow> prwlock \<Rightarrow> prwlock option" where
  "AutoWLock_new px t l = map_option snd (writeLock px t l)"

definition AutoWLock_delete :: "nat \<Rightarrow> prwlock \<Rightarrow> prwlock option" where "AutoWLock_delete t l = RWLock_unlock t l"

subsection \<open>Condition\<close>

text \<open>A condition variable: the threads that wait, the threads woken that have not got the mutex yet.\<close>

record pcond =
  pc_waiting :: "nat list"
  pc_woken :: "nat list"
  pc_shared :: pshared

definition pthread_cond_init :: "pshared \<Rightarrow> pcond" where
  "pthread_cond_init sh = \<lparr>pc_waiting = [], pc_woken = [], pc_shared = sh\<rparr>"

text \<open>A wait gives up the mutex; it returns when the thread was woken and gets the mutex back.\<close>

definition wait_begin :: "nat \<Rightarrow> pcond \<Rightarrow> pmutex \<Rightarrow> (pcond \<times> pmutex) option" where
  "wait_begin t c m = do { (_, m) \<leftarrow> pthread_mutex_unlock t m; Some (c\<lparr>pc_waiting := pc_waiting c @ [t]\<rparr>, m) }"

definition wait_end :: "nat \<Rightarrow> pcond \<Rightarrow> pmutex \<Rightarrow> (int \<times> pcond \<times> pmutex) option" where
  "wait_end t c m = (if t \<in> set (pc_woken c) then do { (r, m) \<leftarrow> pthread_mutex_lock t m;
       Some (- r, c\<lparr>pc_woken := remove1 t (pc_woken c)\<rparr>, m) } else None)"

definition pthread_cond_signal :: "pcond \<Rightarrow> pcond" where
  "pthread_cond_signal c = (case pc_waiting c of [] \<Rightarrow> c | t # ts \<Rightarrow> c\<lparr>pc_waiting := ts, pc_woken := t # pc_woken c\<rparr>)"

definition pthread_cond_broadcast :: "pcond \<Rightarrow> pcond" where
  "pthread_cond_broadcast c = c\<lparr>pc_waiting := [], pc_woken := pc_waiting c @ pc_woken c\<rparr>"

definition Condition_new :: pcond where "Condition_new = pthread_cond_init PTHREAD_PROCESS_PRIVATE"

definition Condition_new_type :: "lock_type \<Rightarrow> pcond" where
  "Condition_new_type type = (if type = SHARED then pthread_cond_init PTHREAD_PROCESS_SHARED else pthread_cond_init PTHREAD_PROCESS_PRIVATE)"

datatype WakeUpType = WAKE_UP_ONE | WAKE_UP_ALL

definition cond_signal :: "pcond \<Rightarrow> pcond" where "cond_signal c = pthread_cond_signal c"
definition cond_broadcast :: "pcond \<Rightarrow> pcond" where "cond_broadcast c = pthread_cond_broadcast c"

definition signal_type :: "WakeUpType \<Rightarrow> pcond \<Rightarrow> pcond" where
  "signal_type type c = (if type = WAKE_UP_ONE then cond_signal c else cond_broadcast c)"

text \<open>The deadline of a relative wait, from the time now; division and remainder of C round to zero.\<close>

record timespec =
  tv_sec :: int
  tv_nsec :: int

definition crem :: "int \<Rightarrow> int \<Rightarrow> int" where
  "crem a b = a - b * cdiv a b"

definition relative_timespec :: "int \<Rightarrow> timespec" where
  "relative_timespec reltime = \<lparr>tv_sec = cdiv reltime 1000000000, tv_nsec = crem reltime 1000000000\<rparr>"

definition wait_deadline :: "timespec \<Rightarrow> int \<Rightarrow> timespec" where
  "wait_deadline now reltime = (let
       ts = \<lparr>tv_sec = tv_sec now + cdiv reltime 1000000000, tv_nsec = tv_nsec now + crem reltime 1000000000\<rparr>
     in if tv_nsec ts \<ge> 1000000000 then ts\<lparr>tv_nsec := tv_nsec ts - 1000000000, tv_sec := tv_sec ts + 1\<rparr> else ts)"

subsection \<open>Deadlines\<close>

lemma crem_nonneg: "0 \<le> a \<Longrightarrow> 0 < b \<Longrightarrow> crem a b = a mod b"
  by (simp add: crem_def minus_mult_div_eq_mod)

text \<open>For a wait that is not negative the deadline is that much later, and a valid time.\<close>

lemma wait_deadline_exact:
  assumes "0 \<le> tv_nsec now" "tv_nsec now < 1000000000" "0 \<le> reltime"
  defines "d \<equiv> wait_deadline now reltime"
  shows "0 \<le> tv_nsec d \<and> tv_nsec d < 1000000000 \<and>
    tv_sec d * 1000000000 + tv_nsec d = tv_sec now * 1000000000 + tv_nsec now + reltime"
proof -
  define q r where "q = reltime div 1000000000" and "r = reltime mod 1000000000"
  then have "reltime = q * 1000000000 + r" "0 \<le> r" "r < 1000000000" by simp_all
  moreover have "cdiv reltime 1000000000 = q" "crem reltime 1000000000 = r"
    using assms(3) by (simp_all add: q_def r_def crem_nonneg)
  ultimately show ?thesis using assms(1,2) unfolding d_def wait_deadline_def by (simp add: Let_def)
qed

text \<open>A negative one can leave a negative number of nanoseconds, which POSIX rejects.\<close>

lemma wait_deadline_negative: "tv_nsec (wait_deadline \<lparr>tv_sec = 5, tv_nsec = 0\<rparr> (- 1)) = - 1"
  by (simp add: wait_deadline_def crem_def cdiv_def)

subsection \<open>Threads with scoped locks\<close>





lemmas scope_defs = AutoRLock_new_def AutoWLock_new_def AutoRLock_delete_def AutoWLock_delete_def readLock_def writeLock_def
  RWLock_unlock_def pthread_rwlock_rdlock_def pthread_rwlock_tryrdlock_def pthread_rwlock_wrlock_def pthread_rwlock_unlock_def
  rw_free_def










text \<open>Without that discipline a scope can start without the lock: a reading one at the limit of read locks,
  where its end is then undefined, and one of either kind in a thread that already has the lock.\<close>

lemma auto_read_lock_fails:
  assumes "rw_writer l = None" "read_limit px \<le> size (rw_readers l)" "t \<notin># rw_readers l"
  shows "AutoRLock_new px t l = Some l" "AutoRLock_delete t l = None"
  using assms by (simp_all add: scope_defs)

lemma auto_lock_own:
  assumes "own_write_deadlk px" "own_read_deadlk px"
  shows "rw_writer l = Some t \<Longrightarrow> AutoRLock_new px t l = Some l" "rw_writer l = Some t \<Longrightarrow> AutoWLock_new px t l = Some l"
    "t \<in># rw_readers l \<Longrightarrow> AutoWLock_new px t l = Some l"
  using assms by (auto simp: scope_defs)

subsection \<open>Properties\<close>



end
