(* ===== verification/JNI_Scopes.thy ===== *)
theory JNI_Scopes
  imports Cam_Prelude "HOL-Library.Multiset"
begin

text \<open>
  The scope classes of the JNI helpers (\<open>nativehelper/Scoped*.h\<close>, \<open>toStringArray.h\<close>): each
  acquires something from the virtual machine when it is constructed and gives it back when the
  scope ends. The calls into the virtual machine are logged; what they answer is a parameter, what
  they mean is \<open>effect\<close>, from the documentation of the JNI: a release of something that is not held
  and a null array or string are errors. A Java reference or a pointer is a number, 0 is NULL.
\<close>

subsection \<open>The virtual machine\<close>

datatype access = ArrayElements | StringUTFChars | StringChars

datatype jmode = ReleaseCopyBack | ReleaseAbort

datatype jcall = ThrowNullPointer | GetAccess access nat nat | ReleaseAccess access nat nat jmode
  | NewLocal nat | DeleteLocalRef nat | PushLocalFrame nat bool | PopLocalFrame
  | SetObjectArrayElement nat nat nat | CloseFd int

type_synonym jlog = "jcall list"

record jvm =
  jn_access :: "jlog \<Rightarrow> access \<Rightarrow> nat \<Rightarrow> nat"
  jn_array_length :: "nat \<Rightarrow> nat"
  jn_elements :: "jlog \<Rightarrow> nat \<Rightarrow> int list"
  jn_is_byte_array :: "nat \<Rightarrow> bool"
  jn_direct_address :: "nat \<Rightarrow> nat"
  jn_push_ok :: "jlog \<Rightarrow> bool"
  jn_new_string_utf :: "jlog \<Rightarrow> string \<Rightarrow> nat"
  jn_new_string :: "jlog \<Rightarrow> int list \<Rightarrow> nat"
  jn_new_string_array :: "jlog \<Rightarrow> nat \<Rightarrow> nat"
  jn_exception :: "jlog \<Rightarrow> bool"

record held =
  pins :: "(access \<times> nat \<times> nat) multiset"
  frames :: "nat multiset list"

fun effect :: "jcall \<Rightarrow> held \<Rightarrow> held option" where
  "effect (GetAccess k r p) h = (if r = 0 then None
     else Some (if p = 0 then h else h\<lparr>pins := add_mset (k, r, p) (pins h)\<rparr>))"
| "effect (ReleaseAccess k r p m) h =
     (if (k, r, p) \<in># pins h then Some (h\<lparr>pins := pins h - {#(k, r, p)#}\<rparr>) else None)"
| "effect (NewLocal r) h = (case frames h of [] \<Rightarrow> None
     | f # fs \<Rightarrow> Some (if r = 0 then h else h\<lparr>frames := add_mset r f # fs\<rparr>))"
| "effect (DeleteLocalRef r) h = (case frames h of [] \<Rightarrow> None
     | f # fs \<Rightarrow> if r \<in># f then Some (h\<lparr>frames := (f - {#r#}) # fs\<rparr>) else None)"
| "effect (PushLocalFrame n ok) h = Some (if ok then h\<lparr>frames := {#} # frames h\<rparr> else h)"
| "effect PopLocalFrame h = (case frames h of f # g # fs \<Rightarrow> Some (h\<lparr>frames := g # fs\<rparr>) | _ \<Rightarrow> None)"
| "effect _ h = Some h"

primrec effects :: "jlog \<Rightarrow> held \<Rightarrow> held option" where
  "effects [] h = Some h"
| "effects (c # cs) h = Option.bind (effect c h) (effects cs)"

text \<open>What native code holds after the log \<open>l\<close>: it starts with one frame and nothing in it.\<close>

definition holds :: "jlog \<Rightarrow> held option" where
  "holds l = effects l \<lparr>pins = {#}, frames = [{#}]\<rparr>"

lemma effects_append: "effects (a @ b) h = Option.bind (effects a h) (effects b)"
proof (induction a arbitrary: h)
  case (Cons c a)
  then show ?case by (cases "effect c h") simp_all
qed simp

lemma holds_append: "holds (a @ b) = Option.bind (holds a) (effects b)"
  by (simp add: holds_def effects_append)

lemma effect_frames: "effect c h = Some h' \<Longrightarrow> frames h \<noteq> [] \<Longrightarrow> frames h' \<noteq> []"
  by (cases "(c, h)" rule: effect.cases) (auto split: list.splits if_splits)

lemma effects_frames: "effects l h = Some h' \<Longrightarrow> frames h \<noteq> [] \<Longrightarrow> frames h' \<noteq> []"
  by (induction l arbitrary: h) (auto simp: Option.bind_eq_Some_conv dest: effect_frames)

lemma holds_frames: "holds l = Some h \<Longrightarrow> frames h \<noteq> []"
  unfolding holds_def by (drule effects_frames) simp_all

subsection \<open>ScopedUtfChars, ScopedStringChars\<close>

record ScopedUtfChars =
  suc_string :: nat
  suc_utf_chars :: nat

definition ScopedUtfChars_new :: "jvm \<Rightarrow> nat \<Rightarrow> jlog \<Rightarrow> ScopedUtfChars \<times> jlog" where
  "ScopedUtfChars_new env s l =
     (if s = 0 then (\<lparr>suc_string = s, suc_utf_chars = 0\<rparr>, l @ [ThrowNullPointer])
      else let p = jn_access env l StringUTFChars s
        in (\<lparr>suc_string = s, suc_utf_chars = p\<rparr>, l @ [GetAccess StringUTFChars s p]))"

definition ScopedUtfChars_delete :: "ScopedUtfChars \<Rightarrow> jlog \<Rightarrow> jlog" where
  "ScopedUtfChars_delete u l = (if suc_utf_chars u \<noteq> 0
     then l @ [ReleaseAccess StringUTFChars (suc_string u) (suc_utf_chars u) ReleaseCopyBack] else l)"

text \<open>Element access: undefined through NULL or past the end.\<close>

definition read_at :: "jvm \<Rightarrow> jlog \<Rightarrow> nat \<Rightarrow> nat \<Rightarrow> int option" where
  "read_at env l p n = (let xs = jn_elements env l p in if p \<noteq> 0 \<and> n < length xs then Some (xs ! n) else None)"

definition ScopedUtfChars_size :: "jvm \<Rightarrow> ScopedUtfChars \<Rightarrow> jlog \<Rightarrow> nat option" where
  "ScopedUtfChars_size env u l = (let xs = jn_elements env l (suc_utf_chars u) in
     if suc_utf_chars u \<noteq> 0 \<and> 0 \<in> set xs then Some (length (takeWhile (\<lambda>c. c \<noteq> 0) xs)) else None)"

definition ScopedUtfChars_at :: "jvm \<Rightarrow> ScopedUtfChars \<Rightarrow> jlog \<Rightarrow> nat \<Rightarrow> int option" where
  "ScopedUtfChars_at env u l n = read_at env l (suc_utf_chars u) n"

definition ScopedUtfChars_c_str :: "ScopedUtfChars \<Rightarrow> nat" where
  "ScopedUtfChars_c_str u = suc_utf_chars u"

record ScopedStringChars =
  ssc_string :: nat
  ssc_chars :: nat
  ssc_size :: nat

definition ScopedStringChars_new :: "jvm \<Rightarrow> nat \<Rightarrow> jlog \<Rightarrow> ScopedStringChars \<times> jlog" where
  "ScopedStringChars_new env s l =
     (if s = 0 then (\<lparr>ssc_string = s, ssc_chars = 0, ssc_size = 0\<rparr>, l @ [ThrowNullPointer])
      else let p = jn_access env l StringChars s
        in (\<lparr>ssc_string = s, ssc_chars = p, ssc_size = (if p \<noteq> 0 then jn_array_length env s else 0)\<rparr>,
            l @ [GetAccess StringChars s p]))"

definition ScopedStringChars_delete :: "ScopedStringChars \<Rightarrow> jlog \<Rightarrow> jlog" where
  "ScopedStringChars_delete u l = (if ssc_chars u \<noteq> 0
     then l @ [ReleaseAccess StringChars (ssc_string u) (ssc_chars u) ReleaseCopyBack] else l)"

definition ScopedStringChars_get :: "ScopedStringChars \<Rightarrow> nat" where
  "ScopedStringChars_get u = ssc_chars u"

definition ScopedStringChars_at :: "jvm \<Rightarrow> ScopedStringChars \<Rightarrow> jlog \<Rightarrow> nat \<Rightarrow> int option" where
  "ScopedStringChars_at env u l n = read_at env l (ssc_chars u) n"

definition ScopedStringChars_size :: "ScopedStringChars \<Rightarrow> nat" where
  "ScopedStringChars_size u = ssc_size u"

subsection \<open>Scoped primitive arrays\<close>

text \<open>The classes \<open>Scoped...ArrayRO\<close> and \<open>Scoped...ArrayRW\<close> differ in the mode of the release.\<close>

record ScopedArray =
  sa_mode :: jmode
  sa_java_array :: nat
  sa_raw_array :: nat

definition ScopedArray_new0 :: "jmode \<Rightarrow> ScopedArray" where
  "ScopedArray_new0 mode = \<lparr>sa_mode = mode, sa_java_array = 0, sa_raw_array = 0\<rparr>"

definition ScopedArray_new :: "jvm \<Rightarrow> jmode \<Rightarrow> nat \<Rightarrow> jlog \<Rightarrow> ScopedArray \<times> jlog" where
  "ScopedArray_new env mode a l =
     (if a = 0 then (\<lparr>sa_mode = mode, sa_java_array = a, sa_raw_array = 0\<rparr>, l @ [ThrowNullPointer])
      else let p = jn_access env l ArrayElements a
        in (\<lparr>sa_mode = mode, sa_java_array = a, sa_raw_array = p\<rparr>, l @ [GetAccess ArrayElements a p]))"

definition ScopedArray_delete :: "ScopedArray \<Rightarrow> jlog \<Rightarrow> jlog" where
  "ScopedArray_delete x l = (if sa_raw_array x \<noteq> 0
     then l @ [ReleaseAccess ArrayElements (sa_java_array x) (sa_raw_array x) (sa_mode x)] else l)"

definition ScopedArray_reset :: "jvm \<Rightarrow> nat \<Rightarrow> ScopedArray \<Rightarrow> jlog \<Rightarrow> ScopedArray \<times> jlog" where
  "ScopedArray_reset env a x l =
     (let p = jn_access env l ArrayElements a
      in (x\<lparr>sa_java_array := a, sa_raw_array := p\<rparr>, l @ [GetAccess ArrayElements a p]))"

definition ScopedArray_get :: "ScopedArray \<Rightarrow> nat" where
  "ScopedArray_get x = sa_raw_array x"

definition ScopedArray_getJavaArray :: "ScopedArray \<Rightarrow> nat" where
  "ScopedArray_getJavaArray x = sa_java_array x"

definition ScopedArray_at :: "jvm \<Rightarrow> ScopedArray \<Rightarrow> jlog \<Rightarrow> nat \<Rightarrow> int option" where
  "ScopedArray_at env x l n = read_at env l (sa_raw_array x) n"

definition ScopedArray_size :: "jvm \<Rightarrow> ScopedArray \<Rightarrow> nat option" where
  "ScopedArray_size env x = (if sa_java_array x = 0 then None else Some (jn_array_length env (sa_java_array x)))"

subsection \<open>ScopedBytes, ScopedFd\<close>

record ScopedBytes =
  sb_object :: nat
  sb_byte_array :: nat
  sb_ptr :: nat

definition ScopedBytes_new :: "jvm \<Rightarrow> nat \<Rightarrow> jlog \<Rightarrow> ScopedBytes \<times> jlog" where
  "ScopedBytes_new env object l =
     (if object = 0 then (\<lparr>sb_object = object, sb_byte_array = 0, sb_ptr = 0\<rparr>, l @ [ThrowNullPointer])
      else if jn_is_byte_array env object then
        let p = jn_access env l ArrayElements object
        in (\<lparr>sb_object = object, sb_byte_array = object, sb_ptr = p\<rparr>, l @ [GetAccess ArrayElements object p])
      else (\<lparr>sb_object = object, sb_byte_array = 0, sb_ptr = jn_direct_address env object\<rparr>, l))"

definition ScopedBytes_delete :: "bool \<Rightarrow> ScopedBytes \<Rightarrow> jlog \<Rightarrow> jlog" where
  "ScopedBytes_delete readOnly x l = (if sb_byte_array x \<noteq> 0
     then l @ [ReleaseAccess ArrayElements (sb_byte_array x) (sb_ptr x) (if readOnly then ReleaseAbort else ReleaseCopyBack)]
     else l)"

definition ScopedBytes_get :: "ScopedBytes \<Rightarrow> nat" where
  "ScopedBytes_get x = sb_ptr x"

definition ScopedFd_delete :: "int \<Rightarrow> jlog \<Rightarrow> jlog" where
  "ScopedFd_delete fd l = l @ [CloseFd fd]"

subsection \<open>ScopedLocalRef, ScopedLocalFrame\<close>

text \<open>A \<open>ScopedLocalRef\<close> is the reference it owns, 0 for none.\<close>

definition ScopedLocalRef_reset :: "nat \<Rightarrow> nat \<Rightarrow> jlog \<Rightarrow> nat \<times> jlog" where
  "ScopedLocalRef_reset p r l = (if p \<noteq> r then (p, if r \<noteq> 0 then l @ [DeleteLocalRef r] else l) else (r, l))"

definition ScopedLocalRef_delete :: "nat \<Rightarrow> jlog \<Rightarrow> jlog" where
  "ScopedLocalRef_delete r l = snd (ScopedLocalRef_reset 0 r l)"

definition ScopedLocalRef_release :: "nat \<Rightarrow> nat \<times> nat" where
  "ScopedLocalRef_release r = (r, 0)"

definition ScopedLocalFrame_new :: "jvm \<Rightarrow> jlog \<Rightarrow> jlog" where
  "ScopedLocalFrame_new env l = l @ [PushLocalFrame 128 (jn_push_ok env l)]"

definition ScopedLocalFrame_delete :: "jlog \<Rightarrow> jlog" where
  "ScopedLocalFrame_delete l = l @ [PopLocalFrame]"

text \<open>The common use of a local reference: it owns a new string.\<close>

definition new_string_ref :: "jvm \<Rightarrow> string \<Rightarrow> jlog \<Rightarrow> nat \<times> jlog" where
  "new_string_ref env s l = (let r = jn_new_string_utf env l s in (r, l @ [NewLocal r]))"

subsection \<open>Scopes\<close>

text \<open>A class whose destructor undoes what its constructor did, if the constructor's calls did not
  fail. Whatever runs between the two only has to hand back what it acquires itself.\<close>

definition scoped :: "(jlog \<Rightarrow> 'o \<times> jlog) \<Rightarrow> ('o \<Rightarrow> jlog \<Rightarrow> jlog) \<Rightarrow> (jlog \<Rightarrow> jlog) \<Rightarrow> jlog \<Rightarrow> jlog" where
  "scoped new delete body l = (let (x, l) = new l in delete x (body l))"

locale scope_class =
  fixes fine :: "jlog \<Rightarrow> bool" and new :: "jlog \<Rightarrow> 'o \<times> jlog" and delete :: "'o \<Rightarrow> jlog \<Rightarrow> jlog"
  assumes new_holds: "fine l \<Longrightarrow> holds l = Some R \<Longrightarrow> \<exists>R1. holds (snd (new l)) = Some R1"
    and delete_undoes: "fine l \<Longrightarrow> holds l = Some R \<Longrightarrow> holds (snd (new l)) = Some R1 \<Longrightarrow> holds l2 = Some R1 \<Longrightarrow>
      holds (delete (fst (new l)) l2) = Some R"
begin

lemma scoped_balanced:
  assumes "fine l" "holds l = Some R" and body: "\<And>l R. holds l = Some R \<Longrightarrow> holds (body l) = Some R"
  shows "holds (scoped new delete body l) = Some R"
proof -
  obtain R1 where R1: "holds (snd (new l)) = Some R1" using new_holds [OF assms(1,2)] by blast
  show ?thesis using delete_undoes [OF assms(1,2) R1 body [OF R1]] by (simp add: scoped_def split_beta)
qed

end

lemmas scope_defs = holds_append Let_def

interpretation utf: scope_class "\<lambda>_. True" "ScopedUtfChars_new env s" ScopedUtfChars_delete for env s
  by unfold_locales (auto simp: ScopedUtfChars_new_def ScopedUtfChars_delete_def scope_defs split: if_splits)

interpretation chars: scope_class "\<lambda>_. True" "ScopedStringChars_new env s" ScopedStringChars_delete for env s
  by unfold_locales (auto simp: ScopedStringChars_new_def ScopedStringChars_delete_def scope_defs split: if_splits)

interpretation array: scope_class "\<lambda>_. True" "ScopedArray_new env mode a" ScopedArray_delete for env mode a
  by unfold_locales (auto simp: ScopedArray_new_def ScopedArray_delete_def scope_defs split: if_splits)

interpretation bytes: scope_class "\<lambda>l. jn_is_byte_array env a \<longrightarrow> jn_access env l ArrayElements a \<noteq> 0"
    "ScopedBytes_new env a" "ScopedBytes_delete readOnly" for env a readOnly
  by unfold_locales (auto simp: ScopedBytes_new_def ScopedBytes_delete_def scope_defs split: if_splits)

interpretation local_ref: scope_class "\<lambda>_. True" "new_string_ref env s" ScopedLocalRef_delete for env s
  by unfold_locales (auto simp: new_string_ref_def ScopedLocalRef_delete_def ScopedLocalRef_reset_def scope_defs
      split: if_splits list.splits dest: holds_frames)

interpretation frame: scope_class "jn_push_ok env" "\<lambda>l. ((), ScopedLocalFrame_new env l)" "\<lambda>_. ScopedLocalFrame_delete" for env
  by unfold_locales (auto simp: ScopedLocalFrame_new_def ScopedLocalFrame_delete_def scope_defs split: list.splits
      dest: holds_frames)

text \<open>An array object that is made empty and gets its array by \<open>reset\<close>.\<close>

interpretation late_array: scope_class "\<lambda>_. a \<noteq> 0" "ScopedArray_reset env a (ScopedArray_new0 mode)" ScopedArray_delete
  for env a mode
  by unfold_locales (auto simp: ScopedArray_new0_def ScopedArray_reset_def ScopedArray_delete_def scope_defs split: if_splits)

text \<open>A reference that is reset while its scope lasts, to another new string or to none; and one that is
  released, and then deleted by the code that took it over.\<close>

definition other_string_ref :: "jvm \<Rightarrow> string option \<Rightarrow> jlog \<Rightarrow> nat \<times> jlog" where
  "other_string_ref env t l = (case t of None \<Rightarrow> (0, l) | Some s \<Rightarrow> new_string_ref env s l)"

definition with_reset :: "jvm \<Rightarrow> string \<Rightarrow> string option \<Rightarrow> (jlog \<Rightarrow> jlog) \<Rightarrow> (jlog \<Rightarrow> jlog) \<Rightarrow> jlog \<Rightarrow> jlog" where
  "with_reset env s t c d l = (let (r, l) = new_string_ref env s l; (p, l) = other_string_ref env t (c l);
     (r, l) = ScopedLocalRef_reset p r l in ScopedLocalRef_delete r (d l))"

definition with_release :: "jvm \<Rightarrow> string \<Rightarrow> (jlog \<Rightarrow> jlog) \<Rightarrow> jlog \<Rightarrow> jlog" where
  "with_release env s c l = (let (r, l) = new_string_ref env s l; (p, r) = ScopedLocalRef_release r;
     l = ScopedLocalRef_delete r (c l) in if p \<noteq> 0 then l @ [DeleteLocalRef p] else l)"

text \<open>A new string has a reference that is not in use in the current frame.\<close>

definition new_refs :: "jvm \<Rightarrow> bool" where
  "new_refs env \<longleftrightarrow> (\<forall>l s R. holds l = Some R \<longrightarrow> jn_new_string_utf env l s \<noteq> 0 \<longrightarrow>
     jn_new_string_utf env l s \<notin># hd (frames R))"

lemma new_string_ref_holds:
  assumes "new_refs env" "holds l = Some R" "new_string_ref env s l = (r, l')"
  shows "holds l' = Some (if r = 0 then R else R\<lparr>frames := add_mset r (hd (frames R)) # tl (frames R)\<rparr>)"
    and "r \<noteq> 0 \<Longrightarrow> r \<notin># hd (frames R)"
proof -
  have r: "r = jn_new_string_utf env l s" "l' = l @ [NewLocal r]" using assms(3) by (auto simp: new_string_ref_def Let_def)
  then show "r \<noteq> 0 \<Longrightarrow> r \<notin># hd (frames R)" using assms(1,2) by (simp add: new_refs_def)
  show "holds l' = Some (if r = 0 then R else R\<lparr>frames := add_mset r (hd (frames R)) # tl (frames R)\<rparr>)"
    using holds_frames [OF assms(2)] assms(2) by (auto simp: r(2) holds_append split: list.splits)
qed

lemma delete_ref_holds:
  assumes "holds l = Some (if r = 0 then R else R\<lparr>frames := add_mset r (hd (frames R)) # tl (frames R)\<rparr>)" "frames R \<noteq> []"
  shows "holds (ScopedLocalRef_delete r l) = Some R"
  using assms by (auto simp: ScopedLocalRef_delete_def ScopedLocalRef_reset_def holds_append neq_Nil_conv)

lemma with_reset_balanced:
  assumes env: "new_refs env" and l: "holds l = Some R"
    and c: "\<And>l R. holds l = Some R \<Longrightarrow> holds (c l) = Some R" and d: "\<And>l R. holds l = Some R \<Longrightarrow> holds (d l) = Some R"
  shows "holds (with_reset env s t c d l) = Some R"
proof -
  obtain f fs where R: "frames R = f # fs" using holds_frames [OF l] by (cases "frames R") auto
  let ?with = "\<lambda>r R. if r = 0 then R else R\<lparr>frames := add_mset r (hd (frames R)) # tl (frames R)\<rparr>"
  obtain r l1 where 1: "new_string_ref env s l = (r, l1)" by (metis surj_pair)
  obtain p l2 where 2: "other_string_ref env t (c l1) = (p, l2)" by (metis surj_pair)
  have h1: "holds (c l1) = Some (?with r R)" by (rule c [OF new_string_ref_holds(1) [OF env l 1]])
  have h2: "holds l2 = Some (?with p (?with r R)) \<and> (p \<noteq> 0 \<longrightarrow> p \<notin># hd (frames (?with r R)))"
  proof (cases t)
    case None
    then show ?thesis using 2 h1 by (simp add: other_string_ref_def)
  next
    case (Some u)
    then have "new_string_ref env u (c l1) = (p, l2)" using 2 by (simp add: other_string_ref_def)
    from new_string_ref_holds [OF env h1 this] show ?thesis by blast
  qed
  obtain q l3 where 3: "ScopedLocalRef_reset p r l2 = (q, l3)" by (metis surj_pair)
  have "q = p \<and> holds l3 = Some (?with p R)"
    using 3 h2 R by (auto simp: ScopedLocalRef_reset_def holds_append add_mset_commute split: if_splits)
  then have "holds (ScopedLocalRef_delete q (d l3)) = Some R"
    using delete_ref_holds [OF d, of l3 p R] holds_frames [OF l] by simp
  then show ?thesis by (simp add: with_reset_def 1 2 3)
qed

lemma with_release_balanced:
  assumes env: "new_refs env" and l: "holds l = Some R" and c: "\<And>l R. holds l = Some R \<Longrightarrow> holds (c l) = Some R"
  shows "holds (with_release env s c l) = Some R"
proof -
  obtain r l1 where 1: "new_string_ref env s l = (r, l1)" by (metis surj_pair)
  note h = c [OF new_string_ref_holds(1) [OF env l 1]]
  have "with_release env s c l = (if r \<noteq> 0 then c l1 @ [DeleteLocalRef r] else c l1)"
    by (simp add: with_release_def 1 ScopedLocalRef_release_def ScopedLocalRef_delete_def ScopedLocalRef_reset_def)
  then have "with_release env s c l = ScopedLocalRef_delete r (c l1)"
    by (simp add: ScopedLocalRef_delete_def ScopedLocalRef_reset_def)
  then show ?thesis using delete_ref_holds [OF h holds_frames [OF l]] by simp
qed

text \<open>Native code built from the classes: a scope holds an object of its class while the code inside runs;
  local references are also reset and released, array objects also filled by \<open>reset\<close>.\<close>

datatype native_code = Nothing | Sequence native_code native_code | WithUtfChars nat native_code
  | WithStringChars nat native_code | WithArray jmode nat native_code | WithLateArray jmode nat native_code
  | WithBytes bool nat native_code | WithNewString string native_code
  | WithResetString string "string option" native_code native_code | WithReleasedString string native_code
  | WithLocalFrame native_code

primrec run_native :: "jvm \<Rightarrow> native_code \<Rightarrow> jlog \<Rightarrow> jlog" where
  "run_native env Nothing l = l"
| "run_native env (Sequence c d) l = run_native env d (run_native env c l)"
| "run_native env (WithUtfChars s c) l = scoped (ScopedUtfChars_new env s) ScopedUtfChars_delete (run_native env c) l"
| "run_native env (WithStringChars s c) l = scoped (ScopedStringChars_new env s) ScopedStringChars_delete (run_native env c) l"
| "run_native env (WithArray m a c) l = scoped (ScopedArray_new env m a) ScopedArray_delete (run_native env c) l"
| "run_native env (WithLateArray m a c) l =
     scoped (ScopedArray_reset env a (ScopedArray_new0 m)) ScopedArray_delete (run_native env c) l"
| "run_native env (WithBytes ro a c) l = scoped (ScopedBytes_new env a) (ScopedBytes_delete ro) (run_native env c) l"
| "run_native env (WithNewString s c) l = scoped (new_string_ref env s) ScopedLocalRef_delete (run_native env c) l"
| "run_native env (WithResetString s t c d) l = with_reset env s t (run_native env c) (run_native env d) l"
| "run_native env (WithReleasedString s c) l = with_release env s (run_native env c) l"
| "run_native env (WithLocalFrame c) l =
     scoped (\<lambda>l. ((), ScopedLocalFrame_new env l)) (\<lambda>_. ScopedLocalFrame_delete) (run_native env c) l"

text \<open>No array object is reset to the null array.\<close>

primrec proper :: "native_code \<Rightarrow> bool" where
  "proper Nothing = True"
| "proper (Sequence c d) = (proper c \<and> proper d)"
| "proper (WithUtfChars s c) = proper c"
| "proper (WithStringChars s c) = proper c"
| "proper (WithArray m a c) = proper c"
| "proper (WithLateArray m a c) = (a \<noteq> 0 \<and> proper c)"
| "proper (WithBytes ro a c) = proper c"
| "proper (WithNewString s c) = proper c"
| "proper (WithResetString s t c d) = (proper c \<and> proper d)"
| "proper (WithReleasedString s c) = proper c"
| "proper (WithLocalFrame c) = proper c"

subsection \<open>toStringArray\<close>

text \<open>One round makes a string with \<open>mk\<close>, stores it and lets its scope end, also on the two error
  returns. \<open>newStringArray\<close> and the getters are not part of the header.\<close>

primrec toStringArray_loop :: "jvm \<Rightarrow> (nat \<Rightarrow> jlog \<Rightarrow> nat \<times> jlog) \<Rightarrow> nat \<Rightarrow> nat list \<Rightarrow> jlog \<Rightarrow> nat \<times> jlog" where
  "toStringArray_loop env mk result [] l = (result, l)"
| "toStringArray_loop env mk result (i # is) l =
     (let (s, l) = mk i l in
      if jn_exception env l then (0, ScopedLocalRef_delete s l)
      else let l = l @ [SetObjectArrayElement result i s] in
      if jn_exception env l then (0, ScopedLocalRef_delete s l)
      else toStringArray_loop env mk result is (ScopedLocalRef_delete s l))"

definition toStringArray :: "jvm \<Rightarrow> nat \<Rightarrow> (nat \<Rightarrow> string) \<Rightarrow> jlog \<Rightarrow> nat \<times> jlog" where
  "toStringArray env n getter l =
     (let result = jn_new_string_array env l n; l = l @ [NewLocal result] in
      if result = 0 then (0, l)
      else toStringArray_loop env (\<lambda>i. new_string_ref env (getter i)) result [0..<n] l)"

definition toStringArray16 :: "jvm \<Rightarrow> nat \<Rightarrow> (nat \<Rightarrow> int list) \<Rightarrow> jlog \<Rightarrow> nat \<times> jlog" where
  "toStringArray16 env n getter l =
     (let result = jn_new_string_array env l n; l = l @ [NewLocal result] in
      if result = 0 then (0, l)
      else toStringArray_loop env (\<lambda>i l. let r = jn_new_string env l (getter i) in (r, l @ [NewLocal r])) result [0..<n] l)"

text \<open>Whatever way the loop ends, no reference to an element is left.\<close>

lemma local_ref_gone:
  assumes "holds l = Some R" "no = [] \<or> no = [SetObjectArrayElement a i r]"
  shows "holds (ScopedLocalRef_delete r (l @ NewLocal r # no)) = Some R"
  using assms holds_frames [OF assms(1)]
  by (auto simp: ScopedLocalRef_delete_def ScopedLocalRef_reset_def holds_append split: list.splits)

definition makes_refs :: "(nat \<Rightarrow> jlog \<Rightarrow> nat) \<Rightarrow> (nat \<Rightarrow> jlog \<Rightarrow> nat \<times> jlog) \<Rightarrow> bool" where
  "makes_refs f mk \<longleftrightarrow> (\<forall>i l. mk i l = (f i l, l @ [NewLocal (f i l)]))"

definition store_log :: "nat \<Rightarrow> nat \<times> nat \<Rightarrow> jlog" where
  "store_log a = (\<lambda>(i, v). [NewLocal v, SetObjectArrayElement a i v] @ (if v = 0 then [] else [DeleteLocalRef v]))"

lemma toStringArray_loop_holds:
  "makes_refs f mk \<Longrightarrow> holds l = Some R \<Longrightarrow> holds (snd (toStringArray_loop env mk a is l)) = Some R"
proof (induction "is" arbitrary: l)
  case (Cons i "is")
  let ?r = "f i l"
  have mk: "mk i l = (?r, l @ [NewLocal ?r])" using Cons.prems(1) by (simp add: makes_refs_def)
  have "holds (ScopedLocalRef_delete ?r (l @ NewLocal ?r # no)) = Some R"
    if "no = [] \<or> no = [SetObjectArrayElement a i ?r]" for no
    using local_ref_gone [OF Cons.prems(2) that] .
  then show ?case using Cons.IH [OF Cons.prems(1)] by (simp add: mk Let_def)
qed simp

lemma toStringArray_loop_stores:
  "makes_refs f mk \<Longrightarrow> toStringArray_loop env mk a is l = (r, l') \<Longrightarrow> r \<noteq> 0 \<Longrightarrow>
    r = a \<and> (\<exists>vs. length vs = length is \<and> l' = l @ concat (map (store_log a) (zip is vs)) \<and>
      list_all2 (\<lambda>i v. \<exists>k. v = f i (take k l')) is vs)"
proof (induction "is" arbitrary: l)
  case (Cons i "is")
  let ?r = "f i l" and ?l = "ScopedLocalRef_delete (f i l) (l @ [NewLocal (f i l), SetObjectArrayElement a i (f i l)])"
  have mk: "mk i l = (?r, l @ [NewLocal ?r])" using Cons.prems(1) by (simp add: makes_refs_def)
  have run: "toStringArray_loop env mk a is ?l = (r, l')"
    using Cons.prems(2,3) by (simp add: mk Let_def split: if_splits)
  obtain vs where vs: "r = a" "length vs = length is" "l' = ?l @ concat (map (store_log a) (zip is vs))"
      "list_all2 (\<lambda>i v. \<exists>k. v = f i (take k l')) is vs"
    using Cons.IH [OF Cons.prems(1) run Cons.prems(3)] by blast
  have l: "?l = l @ store_log a (i, ?r)"
    by (simp add: store_log_def ScopedLocalRef_delete_def ScopedLocalRef_reset_def)
  have "?r = f i (take (length l) l')" using vs(3) unfolding l by simp
  then have "list_all2 (\<lambda>i v. \<exists>k. v = f i (take k l')) (i # is) (?r # vs)" using vs(4) by auto
  moreover have "l' = l @ concat (map (store_log a) (zip (i # is) (?r # vs)))" using vs(3) unfolding l by simp
  ultimately show ?case using vs(1,2) by (intro conjI exI [of _ "?r # vs"]) simp_all
qed simp

subsection \<open>Properties\<close>

definition demo_jvm :: jvm where
  "demo_jvm = \<lparr>jn_access = \<lambda>l k r. 100 + r, jn_array_length = \<lambda>_. 2, jn_elements = \<lambda>_ _. [1, 0],
     jn_is_byte_array = \<lambda>a. a = 5, jn_direct_address = \<lambda>_. 0, jn_push_ok = \<lambda>_. True,
     jn_new_string_utf = \<lambda>l s. 10 + length s, jn_new_string = \<lambda>l cs. 10 + length cs, jn_new_string_array = \<lambda>_ _. 9,
     jn_exception = \<lambda>_. False\<rparr>"

text \<open>A virtual machine whose references are larger than all before.\<close>

definition counting_jvm :: jvm where
  "counting_jvm = demo_jvm\<lparr>jn_new_string_utf :=
     \<lambda>l s. Suc (sum_list (map (\<lambda>c. case c of NewLocal r \<Rightarrow> r | _ \<Rightarrow> 0) l))\<rparr>"

lemma effect_refs: "effect c h = Some h' \<Longrightarrow> f \<in> set (frames h') \<Longrightarrow> r \<in># f \<Longrightarrow>
    c = NewLocal r \<or> (\<exists>g \<in> set (frames h). r \<in># g)"
  by (cases "(c, h)" rule: effect.cases) (auto split: list.splits if_splits dest: in_diffD)

lemma holds_refs: "holds l = Some R \<Longrightarrow> f \<in> set (frames R) \<Longrightarrow> r \<in># f \<Longrightarrow> NewLocal r \<in> set l"
proof (induction l arbitrary: R f rule: rev_induct)
  case Nil
  then show ?case by (auto simp: holds_def)
next
  case (snoc c l)
  then obtain R1 where "holds l = Some R1" "effect c R1 = Some R" by (auto simp: holds_append Option.bind_eq_Some_conv)
  then show ?case using effect_refs [of c R1 R f r] snoc by auto
qed

lemma counting_jvm_new: "new_refs counting_jvm"
  unfolding new_refs_def
proof (intro allI impI notI)
  fix l s R
  let ?ref = "\<lambda>c. case c of NewLocal r \<Rightarrow> r | _ \<Rightarrow> 0"
  assume l: "holds l = Some R" and r: "jn_new_string_utf counting_jvm l s \<in># hd (frames R)"
  have "hd (frames R) \<in> set (frames R)" using holds_frames [OF l] by simp
  from holds_refs [OF l this r] have "?ref (NewLocal (jn_new_string_utf counting_jvm l s)) \<le> sum_list (map ?ref l)"
    by (intro member_le_sum_list) ((metis (no_types) image_eqI list.set_map), simp)
  then show False by (simp add: counting_jvm_def)
qed

text \<open>C29: native code built from the scope classes, nested in any way, hands back everything it
  acquires: whatever array elements, string characters, local references and local frames it held before,
  it holds exactly the same afterwards, it never releases anything it does not hold, and null
  references are never passed to the virtual machine. Local references may be reset on the way, to a new string or to none, and
  released to code that deletes them; array objects may be made empty and reset once, to an array. Excluded are two
  failures, byte array elements and local frames that the virtual machine cannot give, and two misuses of array objects: a
  reset while elements are held, which the class never releases then, and a reset to null, which
  goes to the virtual machine unchecked. A new string is assumed to have a reference of its own.\<close>

theorem jni_scopes_balanced:
  assumes "holds l = Some R" and "proper code" and "new_refs env"
    and "\<And>l a. jn_is_byte_array env a \<Longrightarrow> jn_access env l ArrayElements a \<noteq> 0" and "\<And>l. jn_push_ok env l"
  shows "holds (run_native env code l) = Some R"
  using assms(1,2)
proof (induction code arbitrary: l R)
  case (WithBytes ro a code)
  then show ?case using bytes.scoped_balanced [where env = env and a = a and readOnly = ro] assms(4) by simp
qed (simp_all add: utf.scoped_balanced chars.scoped_balanced array.scoped_balanced late_array.scoped_balanced
  local_ref.scoped_balanced frame.scoped_balanced with_reset_balanced with_release_balanced assms(3,5))

theorem jni_scopes_balanced_witness:
  "holds (run_native counting_jvm (Sequence (WithUtfChars 0 Nothing) (WithLocalFrame (WithBytes True 5
     (WithResetString ''ab'' (Some ''c'') (WithArray ReleaseCopyBack 7 Nothing)
       (WithReleasedString ''d'' (WithLateArray ReleaseAbort 8 Nothing)))))) []) = Some \<lparr>pins = {#}, frames = [{#}]\<rparr>"
  by (rule jni_scopes_balanced) (simp_all add: holds_def counting_jvm_new, simp_all add: counting_jvm_def demo_jvm_def)

lemma toStringArray_holds:
  assumes "toStringArray env n getter l = (r, l')" and "holds l = Some R"
  shows "holds l' = Some (R\<lparr>frames := (let a = jn_new_string_array env l n in
      if a = 0 then hd (frames R) else add_mset a (hd (frames R))) # tl (frames R)\<rparr>)"
proof -
  let ?a = "jn_new_string_array env l n" and ?mk = "\<lambda>i. new_string_ref env (getter i)"
  let ?R = "R\<lparr>frames := (if ?a = 0 then hd (frames R) else add_mset ?a (hd (frames R))) # tl (frames R)\<rparr>"
  have m: "makes_refs (\<lambda>i l. jn_new_string_utf env l (getter i)) ?mk" by (simp add: makes_refs_def new_string_ref_def Let_def)
  have "holds (l @ [NewLocal ?a]) = Some ?R" using assms(2) holds_frames [OF assms(2)]
    by (auto simp: holds_append split: list.splits)
  then show ?thesis
    using assms(1) toStringArray_loop_holds [OF m, of "l @ [NewLocal ?a]" ?R env ?a "[0..<n]"]
    by (auto simp: toStringArray_def Let_def split: if_splits)
qed

text \<open>C30: \<open>toStringArray\<close> makes one array of the counted size and, when it returns it, has stored in it a
  new string for every index, in order, each made from what the getter gave for the index; and whatever
  way it returns, early after an exception or not, the only reference it leaves is that of the
  array.\<close>

theorem toStringArray_exact:
  assumes "toStringArray env n getter l = (r, l')" and "holds l = Some R"
  shows "holds l' = Some (R\<lparr>frames := (let a = jn_new_string_array env l n in
      if a = 0 then hd (frames R) else add_mset a (hd (frames R))) # tl (frames R)\<rparr>) \<and>
    (r \<noteq> 0 \<longrightarrow> r = jn_new_string_array env l n \<and> (\<exists>vs. length vs = n \<and>
      l' = l @ NewLocal r # concat (map (store_log r) (zip [0..<n] vs)) \<and>
      (\<forall>i < n. \<exists>k. vs ! i = jn_new_string_utf env (take k l') (getter i))))"
proof (intro conjI impI toStringArray_holds [OF assms])
  let ?a = "jn_new_string_array env l n" and ?mk = "\<lambda>i. new_string_ref env (getter i)"
  have m: "makes_refs (\<lambda>i l. jn_new_string_utf env l (getter i)) ?mk" by (simp add: makes_refs_def new_string_ref_def Let_def)
  assume r: "r \<noteq> 0"
  then have "toStringArray_loop env ?mk ?a [0..<n] (l @ [NewLocal ?a]) = (r, l')"
    using assms(1) by (simp add: toStringArray_def Let_def split: if_splits)
  note s = toStringArray_loop_stores [OF m this r]
  then show "r = ?a" by blast
  from s show "\<exists>vs. length vs = n \<and> l' = l @ NewLocal r # concat (map (store_log r) (zip [0..<n] vs)) \<and>
      (\<forall>i < n. \<exists>k. vs ! i = jn_new_string_utf env (take k l') (getter i))"
    by (auto simp: list_all2_conv_all_nth)
qed

theorem toStringArray_exact_witness:
  "toStringArray demo_jvm 2 (\<lambda>i. ''a'') [] = (9, [NewLocal 9] @ concat (map (store_log 9) [(0, 11), (1, 11)])) \<and>
   holds ([NewLocal 9] @ concat (map (store_log 9) [(0, 11), (1, 11)])) = Some \<lparr>pins = {#}, frames = [{#9#}]\<rparr>"
  (is "?run \<and> _")
proof -
  have r: ?run
    by (simp add: toStringArray_def new_string_ref_def demo_jvm_def store_log_def upt_rec ScopedLocalRef_delete_def
        ScopedLocalRef_reset_def)
  have "holds [] = Some \<lparr>pins = {#}, frames = [{#}]\<rparr>" by (simp add: holds_def)
  from toStringArray_exact [OF r this] r show ?thesis by (simp add: demo_jvm_def)
qed

text \<open>Failures and misuse: a scoped array that is reset forgets the elements it held, which are never released;
  byte array elements that could not be had, and a local frame that could not be pushed, are handed
  back all the same.\<close>

lemma scoped_array_reset_leaks:
  assumes "holds l = Some R" "a \<noteq> 0" "b \<noteq> 0" "jn_access env l ArrayElements a = p" "p \<noteq> 0"
    "jn_access env (l @ [GetAccess ArrayElements a p]) ArrayElements b = q" "q \<noteq> 0"
  shows "(case ScopedArray_new env m a l of (x, l1) \<Rightarrow> case ScopedArray_reset env b x l1 of (y, l2) \<Rightarrow>
      holds (ScopedArray_delete y l2)) = Some (R\<lparr>pins := add_mset (ArrayElements, a, p) (pins R)\<rparr>)"
  using assms by (auto simp: ScopedArray_new_def ScopedArray_reset_def ScopedArray_delete_def Let_def holds_append)

lemma scoped_bytes_release_null:
  assumes "holds l = Some R" "a \<noteq> 0" "jn_is_byte_array env a" "jn_access env l ArrayElements a = 0"
    "\<forall>k r. (k, r, 0) \<notin># pins R"
  shows "holds (scoped (ScopedBytes_new env a) (ScopedBytes_delete ro) (\<lambda>l. l) l) = None"
  using assms by (simp add: scoped_def ScopedBytes_new_def ScopedBytes_delete_def holds_append)

lemma local_frame_pops_outer:
  assumes "holds l = Some R" "\<not> jn_push_ok env l" "frames R = f # g # fs"
  shows "holds (scoped (\<lambda>l. ((), ScopedLocalFrame_new env l)) (\<lambda>_. ScopedLocalFrame_delete) (\<lambda>l. l) l) =
    Some (R\<lparr>frames := g # fs\<rparr>)"
  using assms by (simp add: scoped_def ScopedLocalFrame_new_def ScopedLocalFrame_delete_def holds_append)

end
