(* ===== verification/Atomic_Ops.thy ===== *)
theory Atomic_Ops
  imports Main "HOL-Library.Word" "HOL-Library.Monad_Syntax"
begin

text \<open>
  The atomic operations of \<open>cutils/atomic-x86.h\<close>, \<open>atomic-arm.h\<close> and \<open>atomic-mips.h\<close> on one memory cell
  that other threads change at the same time: between any two accesses of this thread the others may
  do anything to the cell. Single instructions (\<open>cmpxchg\<close>, \<open>xadd\<close>, the load-linked and
  store-conditional pairs) are what their manuals say; the loops around them are the code's. A loop
  need not end: the value None. Memory is sequentially consistent, so the barriers do nothing.
\<close>

unbundle bit_operations_syntax

type_synonym int32 = "32 word"

subsection \<open>One cell among several threads\<close>

record cell =
  content :: int32
  clock :: nat

text \<open>What the others do to the cell before the access at a time, and whether this thread's
  reservation is lost by then.\<close>

record world =
  others :: "nat \<Rightarrow> int32 \<Rightarrow> int32"
  lost :: "nat \<Rightarrow> bool"

definition tick :: "world \<Rightarrow> cell \<Rightarrow> cell" where
  "tick w s = \<lparr>content = others w (clock s) (content s), clock = Suc (clock s)\<rparr>"

definition load :: "world \<Rightarrow> cell \<Rightarrow> int32 \<times> cell" where
  "load w s = (let s = tick w s in (content s, s))"

definition store :: "int32 \<Rightarrow> world \<Rightarrow> cell \<Rightarrow> cell" where
  "store value w s = (tick w s)\<lparr>content := value\<rparr>"

text \<open>A store-conditional fails, leaving the cell alone, iff the reservation is lost; the result says
  whether it failed.\<close>

definition store_conditional :: "int32 \<Rightarrow> world \<Rightarrow> cell \<Rightarrow> bool \<times> cell" where
  "store_conditional value w s =
     (if lost w (clock s) then (True, tick w s) else (False, (tick w s)\<lparr>content := value\<rparr>))"

text \<open>A write of another thread between the two instructions loses the reservation.\<close>

definition monitor :: "world \<Rightarrow> bool" where
  "monitor w \<longleftrightarrow> (\<forall>t v. \<not> lost w t \<longrightarrow> others w t v = v)"

definition quiet_from :: "nat \<Rightarrow> world \<Rightarrow> bool" where
  "quiet_from T w \<longleftrightarrow> (\<forall>t \<ge> T. \<not> lost w t \<and> (\<forall>v. others w t v = v))"

subsection \<open>x86\<close>

definition x86_acquire_load :: "world \<Rightarrow> cell \<Rightarrow> int32 \<times> cell" where
  "x86_acquire_load = load"

definition x86_release_load :: "world \<Rightarrow> cell \<Rightarrow> int32 \<times> cell" where
  "x86_release_load = load"

definition x86_acquire_store :: "int32 \<Rightarrow> world \<Rightarrow> cell \<Rightarrow> cell" where
  "x86_acquire_store = store"

definition x86_release_store :: "int32 \<Rightarrow> world \<Rightarrow> cell \<Rightarrow> cell" where
  "x86_release_store = store"

text \<open>The result of a compare-and-swap is true when it failed.\<close>

definition x86_cas :: "int32 \<Rightarrow> int32 \<Rightarrow> world \<Rightarrow> cell \<Rightarrow> bool \<times> cell" where
  "x86_cas old_value new_value w s =
     (let s = tick w s; prev = content s; s = (if prev = old_value then s\<lparr>content := new_value\<rparr> else s)
      in (prev \<noteq> old_value, s))"

definition x86_acquire_cas :: "int32 \<Rightarrow> int32 \<Rightarrow> world \<Rightarrow> cell \<Rightarrow> bool \<times> cell" where
  "x86_acquire_cas = x86_cas"

definition x86_release_cas :: "int32 \<Rightarrow> int32 \<Rightarrow> world \<Rightarrow> cell \<Rightarrow> bool \<times> cell" where
  "x86_release_cas = x86_cas"

definition x86_add :: "int32 \<Rightarrow> world \<Rightarrow> cell \<Rightarrow> (int32 \<times> cell) option" where
  "x86_add increment w s = (let s = tick w s in Some (content s, s\<lparr>content := content s + increment\<rparr>))"

definition x86_inc :: "world \<Rightarrow> cell \<Rightarrow> (int32 \<times> cell) option" where
  "x86_inc = x86_add 1"

definition x86_dec :: "world \<Rightarrow> cell \<Rightarrow> (int32 \<times> cell) option" where
  "x86_dec = x86_add (- 1)"

partial_function (option) x86_and :: "int32 \<Rightarrow> world \<Rightarrow> cell \<Rightarrow> (int32 \<times> cell) option" where
  "x86_and value w s = (let (prev, s) = load w s; (status, s) = x86_cas prev (prev AND value) w s
     in if status then x86_and value w s else Some (prev, s))"

partial_function (option) x86_or :: "int32 \<Rightarrow> world \<Rightarrow> cell \<Rightarrow> (int32 \<times> cell) option" where
  "x86_or value w s = (let (prev, s) = load w s; (status, s) = x86_cas prev (prev OR value) w s
     in if status then x86_or value w s else Some (prev, s))"

subsection \<open>ARM and MIPS\<close>

definition arm_acquire_load :: "world \<Rightarrow> cell \<Rightarrow> int32 \<times> cell" where
  "arm_acquire_load = load"

definition arm_release_load :: "world \<Rightarrow> cell \<Rightarrow> int32 \<times> cell" where
  "arm_release_load = load"

definition arm_acquire_store :: "int32 \<Rightarrow> world \<Rightarrow> cell \<Rightarrow> cell" where
  "arm_acquire_store = store"

definition arm_release_store :: "int32 \<Rightarrow> world \<Rightarrow> cell \<Rightarrow> cell" where
  "arm_release_store = store"

partial_function (option) arm_cas :: "int32 \<Rightarrow> int32 \<Rightarrow> world \<Rightarrow> cell \<Rightarrow> (bool \<times> cell) option" where
  "arm_cas old_value new_value w s = (let (prev, s) = load w s;
       (status, s) = (if prev = old_value then store_conditional new_value w s else (False, s))
     in if status then arm_cas old_value new_value w s else Some (prev \<noteq> old_value, s))"

definition arm_acquire_cas :: "int32 \<Rightarrow> int32 \<Rightarrow> world \<Rightarrow> cell \<Rightarrow> (bool \<times> cell) option" where
  "arm_acquire_cas = arm_cas"

definition arm_release_cas :: "int32 \<Rightarrow> int32 \<Rightarrow> world \<Rightarrow> cell \<Rightarrow> (bool \<times> cell) option" where
  "arm_release_cas = arm_cas"

text \<open>The loops of \<open>add\<close>, \<open>and\<close>, \<open>or\<close> (and \<open>swap\<close> on MIPS) differ in the one instruction between the load
  and the store; on MIPS, whose \<open>sc\<close> gives 0 for a failure, the code tests for 0.\<close>

partial_function (option) llsc_loop :: "(int32 \<Rightarrow> int32) \<Rightarrow> world \<Rightarrow> cell \<Rightarrow> (int32 \<times> cell) option" where
  "llsc_loop f w s = (let (prev, s) = load w s; (status, s) = store_conditional (f prev) w s
     in if status then llsc_loop f w s else Some (prev, s))"

definition arm_add :: "int32 \<Rightarrow> world \<Rightarrow> cell \<Rightarrow> (int32 \<times> cell) option" where
  "arm_add increment = llsc_loop (\<lambda>prev. prev + increment)"

definition arm_inc :: "world \<Rightarrow> cell \<Rightarrow> (int32 \<times> cell) option" where
  "arm_inc = arm_add 1"

definition arm_dec :: "world \<Rightarrow> cell \<Rightarrow> (int32 \<times> cell) option" where
  "arm_dec = arm_add (- 1)"

definition arm_and :: "int32 \<Rightarrow> world \<Rightarrow> cell \<Rightarrow> (int32 \<times> cell) option" where
  "arm_and value = llsc_loop (\<lambda>prev. prev AND value)"

definition arm_or :: "int32 \<Rightarrow> world \<Rightarrow> cell \<Rightarrow> (int32 \<times> cell) option" where
  "arm_or value = llsc_loop (\<lambda>prev. prev OR value)"

definition mips_cas :: "int32 \<Rightarrow> int32 \<Rightarrow> world \<Rightarrow> cell \<Rightarrow> (bool \<times> cell) option" where
  "mips_cas = arm_cas"

definition mips_acquire_load :: "world \<Rightarrow> cell \<Rightarrow> int32 \<times> cell" where
  "mips_acquire_load = load"

definition mips_release_load :: "world \<Rightarrow> cell \<Rightarrow> int32 \<times> cell" where
  "mips_release_load = load"

definition mips_acquire_store :: "int32 \<Rightarrow> world \<Rightarrow> cell \<Rightarrow> cell" where
  "mips_acquire_store = store"

definition mips_release_store :: "int32 \<Rightarrow> world \<Rightarrow> cell \<Rightarrow> cell" where
  "mips_release_store = store"

definition mips_acquire_cas :: "int32 \<Rightarrow> int32 \<Rightarrow> world \<Rightarrow> cell \<Rightarrow> (bool \<times> cell) option" where
  "mips_acquire_cas = mips_cas"

definition mips_release_cas :: "int32 \<Rightarrow> int32 \<Rightarrow> world \<Rightarrow> cell \<Rightarrow> (bool \<times> cell) option" where
  "mips_release_cas = mips_cas"

definition mips_swap :: "int32 \<Rightarrow> world \<Rightarrow> cell \<Rightarrow> (int32 \<times> cell) option" where
  "mips_swap new_value = llsc_loop (\<lambda>prev. new_value)"

definition mips_add :: "int32 \<Rightarrow> world \<Rightarrow> cell \<Rightarrow> (int32 \<times> cell) option" where
  "mips_add increment = llsc_loop (\<lambda>prev. prev + increment)"

definition mips_inc :: "world \<Rightarrow> cell \<Rightarrow> (int32 \<times> cell) option" where
  "mips_inc = mips_add 1"

definition mips_dec :: "world \<Rightarrow> cell \<Rightarrow> (int32 \<times> cell) option" where
  "mips_dec = mips_add (- 1)"

definition mips_and :: "int32 \<Rightarrow> world \<Rightarrow> cell \<Rightarrow> (int32 \<times> cell) option" where
  "mips_and value = llsc_loop (\<lambda>prev. prev AND value)"

definition mips_or :: "int32 \<Rightarrow> world \<Rightarrow> cell \<Rightarrow> (int32 \<times> cell) option" where
  "mips_or value = llsc_loop (\<lambda>prev. prev OR value)"

subsection \<open>Acting at one moment\<close>

text \<open>\<open>idle w n s\<close>: only the others act, \<open>n\<close> times. An operation that acts at one moment does nothing but
  replace the content \<open>prev\<close> it finds there by \<open>f prev\<close>.\<close>

definition idle :: "world \<Rightarrow> nat \<Rightarrow> cell \<Rightarrow> cell" where
  "idle w n s = (tick w ^^ n) s"

definition acts_at_once :: "(int32 \<Rightarrow> int32) \<Rightarrow> world \<Rightarrow> cell \<Rightarrow> int32 \<Rightarrow> cell \<Rightarrow> bool" where
  "acts_at_once f w s prev s' \<longleftrightarrow>
     (\<exists>n. prev = content (idle w (Suc n) s) \<and> s' = (idle w (Suc n) s)\<lparr>content := f prev\<rparr>)"

definition swaps_at_once :: "int32 \<Rightarrow> int32 \<Rightarrow> world \<Rightarrow> cell \<Rightarrow> bool \<Rightarrow> cell \<Rightarrow> bool" where
  "swaps_at_once old new w s failed s' \<longleftrightarrow> (\<exists>n. let m = idle w (Suc n) s in
     failed = (content m \<noteq> old) \<and> s' = (if failed then m else m\<lparr>content := new\<rparr>))"

lemma idle_simps [simp]: "idle w 0 s = s" "idle w (Suc n) s = idle w n (tick w s)"
  by (simp_all add: idle_def funpow_swap1)

lemma tick_clock [simp]: "clock (tick w s) = Suc (clock s)"
  by (simp add: tick_def)

lemma idle_add: "idle w (m + n) s = idle w n (idle w m s)"
  by (induction m arbitrary: s) simp_all

lemma acts_now: "acts_at_once f w s (content (tick w s)) ((tick w s)\<lparr>content := f (content (tick w s))\<rparr>)"
  unfolding acts_at_once_def by (rule exI [of _ 0]) simp

text \<open>Nothing done in two ticks, then the operation.\<close>

lemma acts_later:
  assumes "acts_at_once f w (tick w (tick w s)) prev s'"
  shows "acts_at_once f w s prev s'"
proof -
  obtain n where "prev = content (idle w (Suc n) (tick w (tick w s)))"
      "s' = (idle w (Suc n) (tick w (tick w s)))\<lparr>content := f prev\<rparr>"
    using assms unfolding acts_at_once_def by blast
  then show ?thesis unfolding acts_at_once_def by (intro exI [of _ "Suc (Suc n)"]) simp
qed

lemma acts_next:
  "content (tick w (tick w s)) = v \<Longrightarrow> acts_at_once f w s v ((tick w (tick w s))\<lparr>content := f v\<rparr>)"
  unfolding acts_at_once_def by (rule exI [of _ 1]) simp

lemma monitor_tick: "monitor w \<Longrightarrow> \<not> lost w (clock s) \<Longrightarrow> content (tick w s) = content s"
  by (simp add: monitor_def tick_def)

lemma quiet_tick: "quiet_from T w \<Longrightarrow> T \<le> clock s \<Longrightarrow> content (tick w s) = content s"
  by (simp add: quiet_from_def tick_def)

subsection \<open>The loops\<close>

lemma llsc_step:
  "llsc_loop f w s = (let t = tick w s in if lost w (clock t) then llsc_loop f w (tick w t)
     else Some (content t, (tick w t)\<lparr>content := f (content t)\<rparr>))"
  by (subst llsc_loop.simps) (simp add: load_def store_conditional_def Let_def)

lemma llsc_at_once:
  assumes "monitor w" "llsc_loop f w s = Some r"
  shows "acts_at_once f w s (fst r) (snd r)"
proof -
  have "monitor w \<longrightarrow> acts_at_once f w s (fst r) (snd r)"
  proof (rule llsc_loop.raw_induct [where P = "\<lambda>f w s r. monitor w \<longrightarrow> acts_at_once f w s (fst r) (snd r)", OF _ assms(2)])
    fix rec f w s r
    assume IH: "\<And>f w s r. rec f w s = Some r \<Longrightarrow> monitor w \<longrightarrow> acts_at_once f w s (fst r) (snd r)"
      and run: "(let (prev, s) = load w s; (status, s) = store_conditional (f prev) w s
        in if status then rec f w s else Some (prev, s)) = Some r"
    show "monitor w \<longrightarrow> acts_at_once f w s (fst r) (snd r)"
    proof (cases "lost w (Suc (clock s))")
      case True
      then have "rec f w (tick w (tick w s)) = Some r" using run by (simp add: load_def store_conditional_def Let_def)
      then show ?thesis using IH acts_later by blast
    next
      case False
      then have "r = (content (tick w s), (tick w (tick w s))\<lparr>content := f (content (tick w s))\<rparr>)"
        using run by (simp add: load_def store_conditional_def Let_def)
      then show ?thesis using False monitor_tick [of w "tick w s"] acts_next [of w s] by simp
    qed
  qed
  then show ?thesis using assms(1) by blast
qed

lemma llsc_returns:
  assumes "quiet_from T w"
  shows "llsc_loop f w s \<noteq> None"
proof (induction "T - clock s" arbitrary: s rule: less_induct)
  case less
  show ?case
  proof (cases "lost w (Suc (clock s))")
    case True
    then have "clock s < T" using assms by (auto simp: quiet_from_def not_le [symmetric])
    then have "llsc_loop f w (tick w (tick w s)) \<noteq> None" by (intro less) simp
    then show ?thesis using True by (subst llsc_step) (simp add: Let_def)
  qed (subst llsc_step, simp add: Let_def)
qed

text \<open>A round of the x86 loops fails only if the others changed the cell between load and swap.\<close>

lemma x86_steps:
  "x86_and v w s = (let t = tick w s; u = tick w t in if content u \<noteq> content t then x86_and v w u
     else Some (content t, u\<lparr>content := content t AND v\<rparr>))"
  "x86_or v w s = (let t = tick w s; u = tick w t in if content u \<noteq> content t then x86_or v w u
     else Some (content t, u\<lparr>content := content t OR v\<rparr>))"
  by (subst x86_and.simps x86_or.simps, simp add: load_def x86_cas_def Let_def)+

lemma x86_and_at_once:
  assumes "x86_and v w s = Some r"
  shows "acts_at_once (\<lambda>p. p AND v) w s (fst r) (snd r)"
proof (rule x86_and.raw_induct [where P = "\<lambda>v w s r. acts_at_once (\<lambda>p. p AND v) w s (fst r) (snd r)", OF _ assms])
  fix rec v w s r
  assume IH: "\<And>v w s r. rec v w s = Some r \<Longrightarrow> acts_at_once (\<lambda>p. p AND v) w s (fst r) (snd r)"
    and run: "(let (prev, s) = load w s; (status, s) = x86_cas prev (prev AND v) w s
      in if status then rec v w s else Some (prev, s)) = Some r"
  then show "acts_at_once (\<lambda>p. p AND v) w s (fst r) (snd r)"
    by (cases "content (tick w (tick w s)) = content (tick w s)")
      (auto simp: load_def x86_cas_def Let_def intro: acts_later acts_next)
qed

lemma x86_or_at_once:
  assumes "x86_or v w s = Some r"
  shows "acts_at_once (\<lambda>p. p OR v) w s (fst r) (snd r)"
proof (rule x86_or.raw_induct [where P = "\<lambda>v w s r. acts_at_once (\<lambda>p. p OR v) w s (fst r) (snd r)", OF _ assms])
  fix rec v w s r
  assume IH: "\<And>v w s r. rec v w s = Some r \<Longrightarrow> acts_at_once (\<lambda>p. p OR v) w s (fst r) (snd r)"
    and run: "(let (prev, s) = load w s; (status, s) = x86_cas prev (prev OR v) w s
      in if status then rec v w s else Some (prev, s)) = Some r"
  then show "acts_at_once (\<lambda>p. p OR v) w s (fst r) (snd r)"
    by (cases "content (tick w (tick w s)) = content (tick w s)")
      (auto simp: load_def x86_cas_def Let_def intro: acts_later acts_next)
qed

lemma retry_returns:
  assumes "quiet_from T w" and "\<And>s. op s = (let t = tick w s; u = tick w t in if content u \<noteq> content t then op u else Some (g t u))"
  shows "op s \<noteq> None"
proof (induction "T - clock s" arbitrary: s rule: less_induct)
  case less
  show ?case
  proof (cases "content (tick w (tick w s)) = content (tick w s)")
    case False
    then have "clock s < T" using quiet_tick [OF assms(1), of "tick w s"] by (auto simp: not_le [symmetric])
    then have "op (tick w (tick w s)) \<noteq> None" by (intro less) simp
    then show ?thesis using False by (subst assms(2)) (simp add: Let_def)
  qed (subst assms(2), simp add: Let_def)
qed

lemma arm_cas_step:
  "arm_cas old new w s = (let t = tick w s in if content t = old then
      (if lost w (clock t) then arm_cas old new w (tick w t) else Some (False, (tick w t)\<lparr>content := new\<rparr>))
    else Some (True, t))"
  by (subst arm_cas.simps) (simp add: load_def store_conditional_def Let_def)

lemma swaps_later:
  assumes "swaps_at_once old new w (tick w (tick w s)) failed s'"
  shows "swaps_at_once old new w s failed s'"
proof -
  obtain n where "let m = idle w (Suc n) (tick w (tick w s)) in
      failed = (content m \<noteq> old) \<and> s' = (if failed then m else m\<lparr>content := new\<rparr>)"
    using assms unfolding swaps_at_once_def by blast
  then show ?thesis unfolding swaps_at_once_def by (intro exI [of _ "Suc (Suc n)"]) simp
qed

lemma swaps_now: "x86_cas old new w s = (failed, s') \<Longrightarrow> swaps_at_once old new w s failed s'"
  unfolding swaps_at_once_def by (rule exI [of _ 0]) (auto simp: x86_cas_def Let_def)

lemma arm_cas_at_once:
  assumes "monitor w" "arm_cas old new w s = Some r"
  shows "swaps_at_once old new w s (fst r) (snd r)"
proof -
  have "monitor w \<longrightarrow> swaps_at_once old new w s (fst r) (snd r)"
  proof (rule arm_cas.raw_induct [where P = "\<lambda>old new w s r. monitor w \<longrightarrow> swaps_at_once old new w s (fst r) (snd r)", OF _ assms(2)])
    fix rec old new w s r
    assume IH: "\<And>old new w s r. rec old new w s = Some r \<Longrightarrow> monitor w \<longrightarrow> swaps_at_once old new w s (fst r) (snd r)"
      and run: "(let (prev, s) = load w s; (status, s) = (if prev = old then store_conditional new w s else (False, s))
        in if status then rec old new w s else Some (prev \<noteq> old, s)) = Some r"
    consider (other) "content (tick w s) \<noteq> old" | (lost) "content (tick w s) = old" "lost w (Suc (clock s))"
      | (stored) "content (tick w s) = old" "\<not> lost w (Suc (clock s))" by blast
    then show "monitor w \<longrightarrow> swaps_at_once old new w s (fst r) (snd r)"
    proof cases
      case other
      then show ?thesis using run unfolding swaps_at_once_def
        by (intro impI exI [of _ 0]) (auto simp: load_def Let_def)
    next
      case lost
      then have "rec old new w (tick w (tick w s)) = Some r" using run by (simp add: load_def store_conditional_def Let_def)
      then show ?thesis using IH swaps_later by blast
    next
      case stored
      then have "r = (False, (tick w (tick w s))\<lparr>content := new\<rparr>)"
        using run by (auto simp: load_def store_conditional_def Let_def)
      then show ?thesis using stored monitor_tick [of w "tick w s"] unfolding swaps_at_once_def
        by (intro impI exI [of _ 1]) (auto simp: Let_def)
    qed
  qed
  then show ?thesis using assms(1) by blast
qed

lemma arm_cas_returns:
  assumes "quiet_from T w"
  shows "arm_cas old new w s \<noteq> None"
proof (induction "T - clock s" arbitrary: s rule: less_induct)
  case less
  show ?case
  proof (cases "lost w (Suc (clock s))")
    case True
    then have "clock s < T" using assms by (auto simp: quiet_from_def not_le [symmetric])
    then have "arm_cas old new w (tick w (tick w s)) \<noteq> None" by (intro less) simp
    then show ?thesis using True by (subst arm_cas_step) (auto simp: Let_def)
  qed (subst arm_cas_step, auto simp: Let_def)
qed

subsection \<open>The contract of an atomic update\<close>

primrec repeated :: "(world \<Rightarrow> cell \<Rightarrow> (int32 \<times> cell) option) \<Rightarrow> nat \<Rightarrow> world \<Rightarrow> cell \<Rightarrow> cell option" where
  "repeated operation 0 w s = Some s"
| "repeated operation (Suc n) w s = do { (_, s) \<leftarrow> operation w s; repeated operation n w s }"

text \<open>Other threads that only add: \<open>e t\<close> at time \<open>t\<close>.\<close>

definition others_add :: "(nat \<Rightarrow> int32) \<Rightarrow> world \<Rightarrow> bool" where
  "others_add e w \<longleftrightarrow> (\<forall>t v. others w t v = v + e t)"

lemma idle_adds:
  assumes "others_add e w"
  shows "clock (idle w n s) = clock s + n \<and> content (idle w n s) = content s + (\<Sum>t = clock s..<clock s + n. e t)"
proof (induction n arbitrary: s)
  case (Suc n)
  have "content (tick w s) = content s + e (clock s)" using assms by (simp add: others_add_def tick_def)
  moreover have "sum e {clock s..<clock s + Suc n} = e (clock s) + sum e {Suc (clock s)..<Suc (clock s) + n}"
    by (subst sum.atLeast_Suc_lessThan) simp_all
  ultimately show ?case using Suc [of "tick w s"] by (simp add: add.assoc del: sum.op_ivl_Suc)
qed simp

locale atomic_update =
  fixes operation :: "world \<Rightarrow> cell \<Rightarrow> (int32 \<times> cell) option" and f :: "int32 \<Rightarrow> int32"
  assumes at_once: "monitor w \<Longrightarrow> operation w s = Some r \<Longrightarrow> acts_at_once f w s (fst r) (snd r)"
    and returns: "quiet_from T w \<Longrightarrow> operation w s \<noteq> None"
begin

lemma repeated_returns: "quiet_from T w \<Longrightarrow> repeated operation n w s \<noteq> None"
proof (induction n arbitrary: s)
  case (Suc n)
  obtain r where "operation w s = Some r" using returns [OF Suc.prems] by blast
  then show ?case using Suc.IH [OF Suc.prems] by (simp add: split_beta)
qed simp

lemma repeated_adds:
  assumes "monitor w" "others_add e w" and f: "\<And>v. f v = v + d"
  shows "repeated operation n w s = Some s' \<Longrightarrow> clock s \<le> clock s' \<and>
    content s' = content s + of_nat n * d + (\<Sum>t = clock s..<clock s'. e t)"
proof (induction n arbitrary: s)
  case (Suc n)
  then obtain p t where t: "operation w s = Some (p, t)" "repeated operation n w t = Some s'"
    by (auto simp: Option.bind_eq_Some_conv)
  obtain k where k: "t = (idle w k s)\<lparr>content := f (content (idle w k s))\<rparr>"
    using at_once [OF assms(1) t(1)] unfolding acts_at_once_def fst_conv snd_conv by blast
  then have c: "clock t = clock s + k" "content t = content s + (\<Sum>i = clock s..<clock t. e i) + d"
    using idle_adds [OF assms(2), of k s] by (simp_all add: f)
  have "clock t \<le> clock s'" "content s' = content t + of_nat n * d + (\<Sum>i = clock t..<clock s'. e i)"
    using Suc.IH [OF t(2)] by blast+
  then show ?case using c sum.atLeastLessThan_concat [of "clock s" "clock t" "clock s'" e]
    by (simp add: algebra_simps)
qed simp

end

interpretation llsc: atomic_update "llsc_loop f" f for f
  by unfold_locales (rule llsc_at_once llsc_returns; assumption)+

interpretation x86_add: atomic_update "x86_add d" "\<lambda>v. v + d" for d
  by unfold_locales (auto simp: x86_add_def Let_def intro: acts_now [of "\<lambda>v. v + d" for d])

interpretation x86_and: atomic_update "x86_and v" "\<lambda>p. p AND v" for v
proof
  show "acts_at_once (\<lambda>p. p AND v) w s (fst r) (snd r)" if "x86_and v w s = Some r" for w s r
    by (rule x86_and_at_once [OF that])
  show "x86_and v w s \<noteq> None" if "quiet_from T w" for T w s
    by (rule retry_returns [OF that]) (rule x86_steps)
qed

interpretation x86_or: atomic_update "x86_or v" "\<lambda>p. p OR v" for v
proof
  show "acts_at_once (\<lambda>p. p OR v) w s (fst r) (snd r)" if "x86_or v w s = Some r" for w s r
    by (rule x86_or_at_once [OF that])
  show "x86_or v w s \<noteq> None" if "quiet_from T w" for T w s
    by (rule retry_returns [OF that]) (rule x86_steps)
qed

lemmas llsc_defs = arm_add_def arm_and_def arm_or_def mips_add_def mips_and_def mips_or_def mips_swap_def

subsection \<open>Properties\<close>

text \<open>The updates of the three processors with the function each has to apply; \<open>v\<close> is their argument.\<close>

definition updates :: "int32 \<Rightarrow> ((world \<Rightarrow> cell \<Rightarrow> (int32 \<times> cell) option) \<times> (int32 \<Rightarrow> int32)) list" where
  "updates v = [(x86_add v, \<lambda>p. p + v), (x86_and v, \<lambda>p. p AND v), (x86_or v, \<lambda>p. p OR v),
     (arm_add v, \<lambda>p. p + v), (arm_and v, \<lambda>p. p AND v), (arm_or v, \<lambda>p. p OR v),
     (mips_add v, \<lambda>p. p + v), (mips_and v, \<lambda>p. p AND v), (mips_or v, \<lambda>p. p OR v), (mips_swap v, \<lambda>p. v)]"

lemma updates_atomic: "(operation, f) \<in> set (updates v) \<Longrightarrow> atomic_update operation f"
  by (auto simp: updates_def llsc_defs
      intro: x86_add.atomic_update_axioms x86_and.atomic_update_axioms x86_or.atomic_update_axioms llsc.atomic_update_axioms)

definition busy_world :: world where
  "busy_world = \<lparr>others = \<lambda>t v. if t < 5 then v + 2 else v, lost = \<lambda>t. t < 5\<rparr>"

lemma busy_world_ok: "monitor busy_world" "quiet_from 5 busy_world" "others_add (\<lambda>t. if t < 5 then 2 else 0) busy_world"
  by (simp_all add: busy_world_def monitor_def quiet_from_def others_add_def)

text \<open>C26: the atomic updates of the three processors are atomic although they are loops: whatever the other
  threads do to the cell meanwhile, an update that returns has acted at one moment, at which it found
  the value it returns and replaced it by the result of its operation on it, and left the cell alone
  before. Every update returns if from some moment on the others leave the cell alone and no reservation
  of a store-conditional is lost any more (\<open>quiet_from\<close>: the second matters for the loops of ARM and MIPS,
  whose stores may fail without a reason).\<close>

theorem atomic_updates_linearizable:
  assumes "monitor w" and "(operation, f) \<in> set (updates v)"
  shows "(\<forall>prev s'. operation w s = Some (prev, s') \<longrightarrow>
      (\<exists>n. prev = content (idle w (Suc n) s) \<and> s' = (idle w (Suc n) s)\<lparr>content := f prev\<rparr>)) \<and>
    (\<forall>T. quiet_from T w \<longrightarrow> operation w s \<noteq> None)"
proof -
  have u: "atomic_update operation f" by (rule updates_atomic [OF assms(2)])
  show ?thesis
    using atomic_update.at_once [OF u assms(1)] atomic_update.returns [OF u] unfolding acts_at_once_def
    by (metis fst_conv snd_conv)
qed

theorem atomic_updates_linearizable_witness:
  "\<exists>prev s' n. x86_or 1 busy_world \<lparr>content = 8, clock = 0\<rparr> = Some (prev, s') \<and>
     prev = content (idle busy_world (Suc n) \<lparr>content = 8, clock = 0\<rparr>) \<and> content s' = prev OR 1"
proof -
  have "(x86_or 1, \<lambda>p. p OR 1) \<in> set (updates 1)" by (simp add: updates_def)
  from atomic_updates_linearizable [OF busy_world_ok(1) this, of "\<lparr>content = 8, clock = 0\<rparr>"] busy_world_ok(2)
  show ?thesis by fastforce
qed

text \<open>C27: no update of a counter is lost: if this thread adds \<open>d\<close> to a counter \<open>n\<close> times with the atomic
  addition of any of the three processors while other threads add to it at any moments, the counter
  ends at its first value plus \<open>n * d\<close> plus everything the others added (all modulo \<open>2 ^ 32\<close>).\<close>

theorem atomic_add_loses_nothing:
  assumes "monitor w" and "others_add e w" and "operation \<in> {x86_add d, arm_add d, mips_add d}"
    and "repeated operation n w s = Some s'"
  shows "content s' = content s + of_nat n * d + (\<Sum>t = clock s..<clock s'. e t)"
  using assms(3,4) x86_add.repeated_adds [OF assms(1,2), where d = d and n = n]
    llsc.repeated_adds [OF assms(1,2), where d = d and f = "\<lambda>v. v + d" and n = n]
  by (auto simp: arm_add_def mips_add_def)

theorem atomic_add_loses_nothing_witness:
  "\<exists>s'. repeated (arm_add 1) 3 busy_world \<lparr>content = 8, clock = 0\<rparr> = Some s' \<and>
     content s' = 8 + 3 + (\<Sum>t = 0..<clock s'. if t < 5 then 2 else 0)"
proof -
  obtain s' where s': "repeated (arm_add 1) 3 busy_world \<lparr>content = 8, clock = 0\<rparr> = Some s'"
    using llsc.repeated_returns [OF busy_world_ok(2)] unfolding arm_add_def by blast
  from atomic_add_loses_nothing [OF busy_world_ok(1,3), of "arm_add 1" 1, OF _ s'] s' show ?thesis by simp
qed

text \<open>A compare-and-swap reports a failure only if at one moment the cell had another value, and a success
  only if at that moment it had the old value and got the new one.\<close>

lemma cas_linearizable:
  assumes "monitor w"
  shows "x86_cas old new w s = (failed, s') \<Longrightarrow> swaps_at_once old new w s failed s'"
    and "arm_cas old new w s = Some (failed, s') \<Longrightarrow> swaps_at_once old new w s failed s'"
    and "quiet_from T w \<Longrightarrow> arm_cas old new w s \<noteq> None"
  using swaps_now arm_cas_at_once [OF assms] arm_cas_returns by fastforce+

end
