(* ===== verification/Spec2Isabelle.thy ===== *)
theory Spec2Isabelle
  imports Java_Client Camera_Session Frame_Delivery Weak_Pointer Bit_Sets Geometry Node_List Mat_Templates Lru_Cache Keyed_Vector
    Audio_Codes Emulator_Channel Unique_Pointer Lock_Classes JNI_Scopes
    Atomic_Ops
begin

text \<open>
  A verification library for the native half of an Android USB camera application.

  \<^bold>\<open>The program.\<close> \<open>Camera.java\<close> keeps the clients of the camera and calls, through the Java native
  interface, the methods of \<open>com_hongdian_usbcamera_Camera.cpp\<close> (below: the camera file). That file owns
  one native \<open>Camera\<close> object per Java object. It opens a V4L2 device, maps its buffers, runs a capture
  thread that takes frames from the driver, converts them from YUYV to YV12 for the preview window and to
  RGBA for the windows of the encoders, copies them into the windows' buffers, hands the driver's buffers
  back and notifies the Java object. Around it the repository carries the platform headers the file is
  compiled against; the inline code of those headers (reference counting, lists, hash tables, bit sets,
  geometry, vectors and matrices, locks, codes, the window interface) is code of the program as well.

  \<^bold>\<open>The camera.\<close> From the bottom up; every name is the one of the source.
  \<^item> \<open>Cam_Prelude\<close>: C division, byte memories with faulting accesses, the counted loop with its
    invariant rule. A fault (an access outside an object, a null dereference, a thread that locks a mutex
    it holds) is the value None in every theory.
  \<^item> \<open>Frame_Convert\<close>: \<open>ALIGN\<close>, \<open>copyFrameCenterGravity\<close>, \<open>Yvyu2Yuv420\<close>, \<open>Yvyu2RGBA\<close>. The lemmas prove
    each equal to a reference description of its picture and say which sizes make it leave its buffers.
  \<^item> \<open>Native_Window\<close>: the codes, structures and inline helpers of \<open>system/window.h\<close>, \<open>system/graphics.h\<close>
    and \<open>hardware/gralloc.h\<close>; the hooks of a window are fields of its record.
  \<^item> \<open>Camera_State\<close>: the members of \<open>Camera\<close> (record \<open>Camera\<close>), its constructor and destructor, the
    system calls and \<open>openCamera\<close>. The record \<open>os\<close> is everything outside the repository: each call
    gets the history of all events and may answer differently every time; the record \<open>sys\<close> is the object,
    whether it still exists, and the history.
  \<^item> \<open>Camera_Draw\<close>, \<open>Draw_Correct\<close>: the surfaces, \<open>drawPreviewSurface\<close>, \<open>drawEncoderSurface\<close>, their locks,
    and the points where other threads act (\<open>run_ui\<close>). The locale \<open>drawing\<close> is the contract of a drawing
    routine with the capture thread, \<open>two_drawings\<close> that of both one after the other; the routines of the
    model are its interpretations. \<open>Draw_Correct\<close> proves what ends up in the windows; \<open>window_fits\<close> are the
    layouts of an encoder window that the crop can fill, \<open>encoders_log\<close> the calls and pictures the windows get.
  \<^item> \<open>Camera_Capture\<close>, \<open>Capture_Correct\<close>: \<open>startCapture\<close>, its loop and one iteration; the relation
    \<open>session\<close> describes the calls of a capture, the properties follow by rule induction over it;
    \<open>handed_back\<close> is the protocol of the buffers. \<open>good_env\<close> collects what the driver, the windows and the other threads have
    to do for a capture without faults: documented windows need not (a preview buffer may have a larger YV12 layout than the
    picture, an encoder window an odd width), and theorems of their own show what happens then.
  \<^item> \<open>Frame_Delivery\<close>: the way of a frame from the driver through \<open>startCapture\<close> and both drawing routines into
    the windows. \<open>shots\<close> are the frames in the log, \<open>pictures\<close> the pictures; \<open>delivers\<close> relates two
    states between which the second are the renderings of the first.
  \<^item> \<open>Camera_Jni\<close>: the native methods, the int field that holds the object's address, the table of methods
    and \<open>JNI_OnLoad\<close>; \<open>java_reach\<close> are the states that sequences of calls reach, with their invariant.
  \<^item> \<open>Camera_Session\<close>: lemmas that follow the descriptor and the buffers through all of these, used by the
    property of a whole session below.
  \<^item> \<open>Java_Client\<close>: the client list of \<open>Camera.java\<close> on top of the native methods.

  \<^bold>\<open>The platform templates.\<close>
  \<^item> \<open>Strong_Pointer\<close>, \<open>Weak_Pointer\<close>: \<open>sp\<close>, \<open>LightRefBase\<close>, \<open>wp\<close> and \<open>ReferenceMover\<close>. The locale
    \<open>refcounted\<close> is what \<open>sp\<close> asks of a counted class; \<open>LightRefBase\<close> is its interpretation.
  \<^item> \<open>Node_List\<close>: \<open>utils/List.h\<close> over a heap of linked nodes; the locale \<open>sequence\<close> is the abstract
    sequence it implements.
  \<^item> \<open>Hash_Table\<close>, \<open>Lru_Cache\<close>: \<open>utils/BasicHashtable.h\<close> and \<open>utils/LruCache.h\<close>, the latter a chain
    through the buckets of the former, refined to a list of pairs.
  \<^item> \<open>Vector_Templates\<close>, \<open>Keyed_Vector\<close>: \<open>utils/Vector.h\<close>, \<open>utils/SortedVector.h\<close> and
    \<open>utils/KeyedVector.h\<close>, the last refined to a finite map; the relation \<open>kv_step\<close> is one call of a client.
  \<^item> \<open>Unique_Pointer\<close>, \<open>Lock_Classes\<close>: \<open>utils/UniquePtr.h\<close> with the invariant of single ownership, and the
    mutexes, reader-writer locks and conditions of \<open>utils\<close> with their scoped locks; the relations
    \<open>up_reach\<close> and \<open>rw_step\<close> are the programs that use them, the latter with the discipline that scoped locks need,
    since their constructors ignore the result of the lock.
  \<^item> \<open>Atomic_Ops\<close>: the atomic operations of \<open>cutils/atomic-x86.h\<close>, \<open>atomic-arm.h\<close> and \<open>atomic-mips.h\<close>, which
    \<open>LightRefBase\<close> counts with; the locale \<open>atomic_update\<close> is an update that acts at one moment.
  \<^item> \<open>JNI_Scopes\<close>: the scope classes of \<open>nativehelper\<close> and \<open>toStringArray\<close>; the locale \<open>scope_class\<close> is a
    class whose destructor undoes its constructor, with an interpretation for each of them; \<open>native_code\<close> is code
    that uses them, resets and releases included, \<open>proper\<close> if no array object is reset to null.
  \<^item> \<open>Emulator_Channel\<close>: the framed messages of \<open>hardware/qemud.h\<close> over a kernel that answers from the history:
    what calls that succeed have transferred over any kernel, and when all calls succeed.
  \<^item> \<open>Audio_Codes\<close>: the codes and predicates of \<open>system/audio.h\<close>.
  \<^item> \<open>Type_Helpers\<close>, \<open>Bit_Sets\<close>, \<open>Platform_Codes\<close>: element moves and traits, bit sets, status codes, time
    units and pixel formats.
  \<^item> \<open>Flattening\<close>, \<open>Geometry\<close>: the flattening protocols and the classes \<open>Point\<close> and \<open>Rect\<close>; the locale
    \<open>pod\<close> is the contract of plain data, with three interpretations.
  \<^item> \<open>Vec_Templates\<close>, \<open>Mat_Templates\<close>: the vectors and matrices of \<open>ui\<close> over any field; the invariant of
    the Gauss-Jordan elimination carries the correctness of \<open>inverse\<close>.

  \<^bold>\<open>Bounds and fuel.\<close> A C \<open>int\<close> of the camera file is an unbounded \<open>int\<close>: the theorems on the conversions require
  buffers of the size of the picture, but no theorem proves that sizes and offsets stay within 32 bits, so they say nothing about
  pictures so large that \<open>mWidth * mHeight * 4\<close> overflows; words of a width are used where the code wraps or works
  bitwise (counts, hashes, masks, coordinates, the address in the int field). Counted loops recurse on their
  counter. \<open>capture_loop\<close> takes the number of iterations it may begin: \<open>capture_ends\<close> and \<open>camera_session\<close>
  prove that \<open>k\<close> are enough once another thread stops the capture at the \<open>k\<close>-th call of \<open>select\<close>, and a
  run that is cut off has a result of its own. \<open>lru_put\<close> takes the depth of its calls of itself: two
  levels are enough. Loops over pointers, and calls repeated after an interruption, are partial functions with None for a run that does not end, and
  the theorems prove that a result exists.

  \<^bold>\<open>Not modelled.\<close> The rounding of floating-point numbers (the matrices are over a field); the contents of
  log messages and formatted strings; functions the headers only declare (the counters of \<open>RefBase\<close>,
  \<open>BasicHashtableImpl\<close>, \<open>VectorImpl\<close>, \<open>systemTime\<close>, the graphic buffers), which are parameters where
  inline code calls them; the interface tables of devices the application never opens (\<open>hardware\<close>), the
  declarations of the Java native interface, the binder and surface classes, and the user interface of
  \<open>MainActivity.java\<close>. Other threads act at the named points, between the steps of the capture thread that
  its locks make atomic.
\<close>

text \<open>C3: A session of the camera as Java drives it, across all the native components: attach, open, set a
  preview, add an encoder, capture until another thread stops it after the \<open>k\<close>-th \<open>select\<close> at the
  latest, release. Every call returns (no fault, no deadlock), the
  capture ends within \<open>k\<close> iterations, and whichever way it ends -- stopped, or with an error after
  which the capture thread has closed the descriptor itself -- the descriptor is closed exactly once
  and neither the native object nor its address is left. The conditions: \<open>new\<close> returns an address that
  is in use nowhere and the path string can be read; opening gives a positive descriptor; the driver answers every request of
  \<open>openCamera\<close> and grants four buffers; and \<open>good_env\<close> for a picture of even width and height. That is: a
  successful dequeue gives one of the four buffers, with a full frame in it; the buffers the preview window hands out
  (or it answers with an error) can be locked, and their YV12 layout is neither larger than their memory
  nor than the picture (which a width that is no multiple of 32 can break); an encoder window that
  can be locked is larger than the picture, or not larger, narrower by an even number of pixels or none, with
  memory for all its pixels; and other threads, which may stop the capture, set the preview and add and
  remove encoders at all its points, neither release the camera during the capture nor set a preview
  in the moment before the preview lock is taken.\<close>

theorem camera_session:
  assumes "fresh_new env" and "je_GetStringUTFChars env [] path = Some p"
    and "driver_grants os 4" and "good_env a b os" and "\<And>tr q. os_open os tr q = fd" and "0 < fd"
    and "\<And>tr. k \<le> selects tr \<Longrightarrow> UiStop \<in> set (os_ui os AfterSelect tr)" and "k \<le> n" and "0 < n"
  shows "\<exists>a1 a2 a3 a4 e a5 a6.
    nativeAttachNative env (2 * int a) (2 * int b)
      \<lparr>jDevPath = Some path, jNativeObject = 0, objects = (\<lambda>_. None), jLog = []\<rparr> = Some a1 \<and>
    nativeOpenCamera os a1 = Some (0, a2) \<and> nativeSetPreview os j a2 = Some a3 \<and> nativeAddEncoder os j' a3 = Some a4 \<and>
    nativeStartCapture n os a4 = Some (Some e, a5) \<and> (e = CaptureStopped \<or> e = CameraError) \<and>
    nativeReleaseCamera a5 = Some a6 \<and> getCamera a6 = 0 \<and> objects a6 = (\<lambda>_. None) \<and> closes (jLog a6) = [fd]"
proof -
  obtain a1 s1 where 1: "nativeAttachNative env (2 * int a) (2 * int b)
      \<lparr>jDevPath = Some path, jNativeObject = 0, objects = (\<lambda>_. None), jLog = []\<rparr> = Some a1"
    "app_holds a1 s1" "cam s1 = Camera_new (Some p) (2 * int a) (2 * int b)" "settled s1" "trace s1 = []"
    using attach_holds [OF assms(1,2)] by blast
  obtain s2 where 2: "openCamera os s1 = Some (fd, s2)" "good_cam a b s2" "mFD (cam s2) = fd" "closes (trace s2) = []"
    using openCamera_good [OF assms(3,5) _ 1(3,4)] assms(6) 1(5) by auto
  then have "alive s2" by (simp add: good_cam_def settled_def)
  then obtain a2 where a2: "nativeOpenCamera os a1 = Some (0, a2)" "app_holds a2 s2"
    using on_object_holds [where f = "openCamera os", OF 1(2) 2(1)] 1(2) assms(6) by (auto simp: nativeOpenCamera_def app_holds_def)
  obtain a3 s3 where 3: "nativeSetPreview os j a2 = Some a3" "app_holds a3 s3" "good_cam a b s3" "mFD (cam s3) = fd"
      "trace s3 = trace s2"
    using holds_surfaces(1) [OF a2(2) 2(2), of os j] 2(3) by auto
  obtain a4 s4 where 4: "nativeAddEncoder os j' a3 = Some a4" "app_holds a4 s4" "good_cam a b s4" "mFD (cam s4) = fd"
      "trace s4 = trace s3"
    using holds_surfaces(2) [OF 3(2,3), of os j'] 3(4) by auto
  have "0 \<le> mFD (cam s4)" "stops_after k os" "settled s4"
    using assms(6,7) 4(3,4) by (simp_all add: stops_after_def good_cam_def)
  note st = this
  obtain e s5 where 5: "startCapture n os s4 = Some (e, s5)" "e = CaptureStopped \<or> e = CameraError"
    using startCapture_ends [OF assms(4) 4(3) st(1,2) assms(8,9)] by blast
  obtain a5 where a5: "nativeStartCapture n os a4 = Some (Some e, a5)" "app_holds a5 s5"
    using holds_capture [OF 4(2) 5(1) st(3)] by blast
  show ?thesis
    using 1(1) a2(1) 3(1) 4(1) a5(1) 5(2) holds_release [OF a5(2)] startCapture_closes [OF 5(1) st(3,1)]
      2(4) 3(5) 4(4,5) assms(6) by (cases "e = CameraError") auto
qed

theorem camera_session_witness:
  "\<exists>a1 a2 a3 a4 e a5 a6. nativeAttachNative demo_jni 32 2
      \<lparr>jDevPath = Some ''/dev/video0'', jNativeObject = 0, objects = (\<lambda>_. None), jLog = []\<rparr> = Some a1 \<and>
    nativeOpenCamera (demo_os 2) a1 = Some (0, a2) \<and> nativeSetPreview (demo_os 2) 5 a2 = Some a3 \<and>
    nativeAddEncoder (demo_os 2) 6 a3 = Some a4 \<and> nativeStartCapture 3 (demo_os 2) a4 = Some (Some e, a5) \<and>
    nativeReleaseCamera a5 = Some a6 \<and> closes (jLog a6) = [3]"
proof -
  have g: "driver_grants (demo_os 2) 4"
    using easy_os_grants [of 3 4 "replicate 128 7"] by (simp add: driver_grants_def demo_os_def)
  have "je_GetStringUTFChars demo_jni [] ''/dev/video0'' = Some ''/dev/video0''" by (simp add: demo_jni_def)
  note s = camera_session [OF demo_fresh this g demo_good(1), of 3 2 3 5 6]
  have "os_open (demo_os 2) tr q = 3" "2 \<le> selects tr \<Longrightarrow> UiStop \<in> set (os_ui (demo_os 2) AfterSelect tr)" for tr q
    by (simp_all add: demo_os_def easy_os_def)
  with s show ?thesis by simp blast
qed

end
